(* ===== verification/Policy.thy ===== *)
theory Policy
  imports Prelude
begin

text \<open>
  Engine policies (\<open>crates/engine/src/lib.rs\<close>): the lifecycle phase and status record, the
  destination classes, the authorization of an action on a destination, and the redaction of
  a single header. Every active operation of the other components asks \<open>authorize\<close> first.
\<close>

datatype engine_phase = Stopped | Running

record engine_status =
  es_phase :: engine_phase
  listen_address :: "string \<times> nat"
  captures :: nat
  https_inspection :: bool
  production_protection :: bool
  evicted_captures :: nat
  rejected_connections :: nat
  es_client_profile_id :: "string option"

definition default_engine_status :: engine_status where
  "default_engine_status =
     \<lparr>es_phase = Stopped, listen_address = (''127.0.0.1'', 8080), captures = 0,
      https_inspection = False, production_protection = True, evicted_captures = 0,
      rejected_connections = 0, es_client_profile_id = None\<rparr>"

datatype action = Observe | InspectTls | Replay | Modify | InjectFault

datatype destination_class = Development | Production | Unknown

datatype policy_error = ProductionReadOnly | DestinationUnclassified

definition authorize :: "destination_class \<Rightarrow> action \<Rightarrow> policy_error + unit" where
  "authorize destination action =
     (if action = Observe then Inr ()
      else case destination of
        Development \<Rightarrow> Inr ()
      | Production \<Rightarrow> Inl ProductionReadOnly
      | Unknown \<Rightarrow> Inl DestinationUnclassified)"

definition is_ok :: "'e + 'a \<Rightarrow> bool" where
  "is_ok r \<longleftrightarrow> (case r of Inl _ \<Rightarrow> False | Inr _ \<Rightarrow> True)"

lemma is_ok_simps [simp]: "\<not> is_ok (Inl e)" "is_ok (Inr x)"
  by (simp_all add: is_ok_def)

text \<open>Both types are finite, so a table over them is checked by evaluation.\<close>

instantiation action :: enum
begin

definition enum_action :: "action list" where
  "enum_action = [Observe, InspectTls, Replay, Modify, InjectFault]"

definition enum_all_action :: "(action \<Rightarrow> bool) \<Rightarrow> bool" where
  "enum_all_action P \<longleftrightarrow> list_all P enum_class.enum"

definition enum_ex_action :: "(action \<Rightarrow> bool) \<Rightarrow> bool" where
  "enum_ex_action P \<longleftrightarrow> list_ex P enum_class.enum"

instance
proof
  have all: "a \<in> set enum_class.enum" for a :: action by (cases a) (simp_all add: enum_action_def)
  then show "(UNIV :: action set) = set enum_class.enum" by auto
  show "distinct (enum_class.enum :: action list)" by (simp add: enum_action_def)
  show "enum_class.enum_all P \<longleftrightarrow> Ball UNIV P" "enum_class.enum_ex P \<longleftrightarrow> Bex UNIV P" for P :: "action \<Rightarrow> bool"
    using all by (auto simp: enum_all_action_def enum_ex_action_def list_all_iff list_ex_iff)
qed

end

instantiation destination_class :: enum
begin

definition enum_destination_class :: "destination_class list" where
  "enum_destination_class = [Development, Production, Unknown]"

definition enum_all_destination_class :: "(destination_class \<Rightarrow> bool) \<Rightarrow> bool" where
  "enum_all_destination_class P \<longleftrightarrow> list_all P enum_class.enum"

definition enum_ex_destination_class :: "(destination_class \<Rightarrow> bool) \<Rightarrow> bool" where
  "enum_ex_destination_class P \<longleftrightarrow> list_ex P enum_class.enum"

instance
proof
  have all: "d \<in> set enum_class.enum" for d :: destination_class by (cases d) (simp_all add: enum_destination_class_def)
  then show "(UNIV :: destination_class set) = set enum_class.enum" by auto
  show "distinct (enum_class.enum :: destination_class list)" by (simp add: enum_destination_class_def)
  show "enum_class.enum_all P \<longleftrightarrow> Ball UNIV P" "enum_class.enum_ex P \<longleftrightarrow> Bex UNIV P"
    for P :: "destination_class \<Rightarrow> bool"
    using all by (auto simp: enum_all_destination_class_def enum_ex_destination_class_def list_all_iff list_ex_iff)
qed

end

text \<open>The one fact about \<open>authorize\<close> the other components use, by its table.\<close>

lemma authorize_table: "\<forall>d a. is_ok (authorize d a) \<longleftrightarrow> a = Observe \<or> d = Development"
  by code_simp

lemma authorize_ok_iff: "is_ok (authorize d a) \<longleftrightarrow> a = Observe \<or> d = Development"
  by (rule authorize_table [rule_format])

lemma authorize_Inr_iff: "authorize d a = Inr u \<longleftrightarrow> a = Observe \<or> d = Development"
  by (cases d) (auto simp: authorize_def)

lemma authorize_active [simp]:
  "a \<noteq> Observe \<Longrightarrow> authorize Production a = Inl ProductionReadOnly"
  "a \<noteq> Observe \<Longrightarrow> authorize Unknown a = Inl DestinationUnclassified"
  "authorize Development a = Inr ()"
  by (auto simp: authorize_def)

definition sensitive_headers :: "string list" where
  "sensitive_headers =
     [''authorization'', ''proxy-authorization'', ''cookie'', ''set-cookie'', ''x-api-key'']"

definition redact_header :: "string \<Rightarrow> string \<Rightarrow> string" where
  "redact_header name value =
     (if list_ex (\<lambda>sensitive. eq_ignore_ascii_case name sensitive) sensitive_headers
      then ''[REDACTED]'' else value)"

lemma redact_header_hides:
  assumes "eq_ignore_ascii_case name sensitive" and "sensitive \<in> set sensitive_headers"
  shows "redact_header name value = redact_header name value'"
    and "redact_header name value = ''[REDACTED]''"
  using assms by (auto simp: redact_header_def list_ex_iff)

end
