(* ===== verification/Net_Address.thy ===== *)
theory Net_Address
  imports Prelude
begin

text \<open>
  \<open>str::parse::<std::net::IpAddr>\<close> of the Rust standard library, which host rules,
  destination classification and leaf-host normalisation call. The parser follows the
  library's recursive-descent \<open>Parser\<close>: a reader takes the remaining input and returns the
  value with what is left, or fails without consuming.
\<close>

datatype ip_addr = V4 "nat list" | V6 "nat list"

definition hex_digit :: "char \<Rightarrow> nat option" where
  "hex_digit c =
     (if ascii_digit c then Some (byte_val c - 48)
      else if 97 \<le> byte_val c \<and> byte_val c \<le> 102 then Some (byte_val c - 87)
      else if 65 \<le> byte_val c \<and> byte_val c \<le> 70 then Some (byte_val c - 55)
      else None)"

definition to_digit :: "nat \<Rightarrow> char \<Rightarrow> nat option" where
  "to_digit radix c =
     (case hex_digit c of None \<Rightarrow> None | Some d \<Rightarrow> if d < radix then Some d else None)"

fun read_digits :: "nat \<Rightarrow> string \<Rightarrow> nat \<Rightarrow> nat \<Rightarrow> nat \<times> nat \<times> string" where
  "read_digits radix [] acc n = (acc, n, [])"
| "read_digits radix (c # cs) acc n =
     (case to_digit radix c of
        None \<Rightarrow> (acc, n, c # cs)
      | Some d \<Rightarrow> read_digits radix cs (acc * radix + d) (Suc n))"

definition read_number :: "nat \<Rightarrow> nat \<Rightarrow> nat \<Rightarrow> bool \<Rightarrow> string \<Rightarrow> (nat \<times> string) option" where
  "read_number radix max_digits bound allow_zero_prefix s =
     (let (v, n, rest) = read_digits radix s 0 0 in
      if n = 0 \<or> max_digits < n \<or> bound \<le> v
         \<or> (\<not> allow_zero_prefix \<and> prefix ''0'' s \<and> 1 < n)
      then None else Some (v, rest))"

text \<open>\<open>read_separator\<close>: nothing before the first element, the separator before the others.\<close>

definition read_sep :: "char \<Rightarrow> nat \<Rightarrow> string \<Rightarrow> string option" where
  "read_sep sep i s = (if i = 0 then Some s else strip_prefix [sep] s)"

fun read_octets :: "nat \<Rightarrow> nat \<Rightarrow> string \<Rightarrow> (nat list \<times> string) option" where
  "read_octets i 0 s = Some ([], s)"
| "read_octets i (Suc k) s =
     (case read_sep (CHR ''.'') i s of
        None \<Rightarrow> None
      | Some s1 \<Rightarrow>
          (case read_number 10 3 256 False s1 of
             None \<Rightarrow> None
           | Some (v, s2) \<Rightarrow>
               (case read_octets (Suc i) k s2 of
                  None \<Rightarrow> None
                | Some (vs, s3) \<Rightarrow> Some (v # vs, s3))))"

definition read_ipv4 :: "string \<Rightarrow> (nat list \<times> string) option" where
  "read_ipv4 s = read_octets 0 4 s"

text \<open>
  \<open>read_groups\<close>: at most \<open>limit\<close> hexadecimal groups separated by colons, a trailing dotted
  IPv4 address standing for two of them. Returns the groups, whether IPv4 was read, the rest.
\<close>

fun read_groups :: "nat \<Rightarrow> nat \<Rightarrow> string \<Rightarrow> nat list \<times> bool \<times> string" where
  "read_groups i 0 s = ([], False, s)"
| "read_groups i (Suc k) s =
     (let v4 = (if k = 0 then None
                else case read_sep (CHR '':'') i s of None \<Rightarrow> None | Some s1 \<Rightarrow> read_ipv4 s1) in
      case v4 of
        Some (q, s2) \<Rightarrow> ([q ! 0 * 256 + q ! 1, q ! 2 * 256 + q ! 3], True, s2)
      | None \<Rightarrow>
          (case read_sep (CHR '':'') i s of
             None \<Rightarrow> ([], False, s)
           | Some s1 \<Rightarrow>
               (case read_number 16 4 65536 True s1 of
                  None \<Rightarrow> ([], False, s)
                | Some (g, s2) \<Rightarrow>
                    (let (gs, b, s3) = read_groups (Suc i) k s2 in (g # gs, b, s3)))))"

definition read_ipv6 :: "string \<Rightarrow> (nat list \<times> string) option" where
  "read_ipv6 s =
     (let (head, head_v4, s1) = read_groups 0 8 s in
      if length head = 8 then Some (head, s1)
      else if head_v4 then None
      else case strip_prefix ''::'' s1 of
        None \<Rightarrow> None
      | Some s2 \<Rightarrow>
          (let (tail, _, s3) = read_groups 0 (8 - (length head + 1)) s2 in
           Some (head @ replicate (8 - length head - length tail) 0 @ tail, s3)))"

definition parse_ip :: "string \<Rightarrow> ip_addr option" where
  "parse_ip s =
     (case read_ipv4 s of
        Some (q, rest) \<Rightarrow> (if rest = [] then Some (V4 q) else None)
      | None \<Rightarrow>
          (case read_ipv6 s of
             Some (g, rest) \<Rightarrow> (if rest = [] then Some (V6 g) else None)
           | None \<Rightarrow> None))"

definition is_loopback :: "ip_addr \<Rightarrow> bool" where
  "is_loopback a =
     (case a of V4 q \<Rightarrow> q ! 0 = 127 | V6 g \<Rightarrow> g = [0, 0, 0, 0, 0, 0, 0, 1])"

definition is_unspecified :: "ip_addr \<Rightarrow> bool" where
  "is_unspecified a = (case a of V4 q \<Rightarrow> q = [0, 0, 0, 0] | V6 g \<Rightarrow> g = replicate 8 0)"

text \<open>\<open>IpAddr::to_canonical\<close>: an IPv4-mapped IPv6 address becomes the IPv4 address.\<close>

definition to_canonical :: "ip_addr \<Rightarrow> ip_addr" where
  "to_canonical a =
     (case a of
        V4 q \<Rightarrow> V4 q
      | V6 g \<Rightarrow>
          (if take 6 g = [0, 0, 0, 0, 0, 65535] \<and> length g = 8
           then V4 [g ! 6 div 256, g ! 6 mod 256, g ! 7 div 256, g ! 7 mod 256] else V6 g))"

lemmas net_address_defs =
  hex_digit_def to_digit_def read_number_def read_sep_def read_ipv4_def read_ipv6_def
  parse_ip_def is_loopback_def is_unspecified_def to_canonical_def

lemmas read_octets_numeral = read_octets.simps(2) [of _ "pred_numeral n" for n, folded numeral_eq_Suc]
lemmas read_groups_numeral = read_groups.simps(2) [of _ "pred_numeral n" for n, folded numeral_eq_Suc]

text \<open>Evaluation of the parser on a literal address.\<close>

lemmas net_address_eval =
  net_address_defs read_octets_numeral read_groups_numeral pred_numeral_simps str_simps

section \<open>Shape of the parsed addresses\<close>

lemma read_number_bound: "read_number r m b z s = Some (v, rest) \<Longrightarrow> v < b"
  by (auto simp: read_number_def Let_def split: prod.splits if_splits)

lemma read_octets_shape:
  "read_octets i k s = Some (q, rest) \<Longrightarrow> length q = k \<and> (\<forall>v \<in> set q. v < 256)"
  by (induction i k s arbitrary: q rest rule: read_octets.induct)
     (auto split: option.splits prod.splits dest: read_number_bound)

lemma read_groups_length: "read_groups i k s = (g, b, rest) \<Longrightarrow> length g \<le> k"
proof (induction i k s arbitrary: g b rest rule: read_groups.induct)
  case (1 i s)
  then show ?case by simp
next
  case (2 i k s)
  then show ?case
    by (fastforce simp: Let_def split: option.splits prod.splits if_splits)
qed

lemma parse_ip_shape:
  "parse_ip s = Some (V4 q) \<Longrightarrow> length q = 4"
  "parse_ip s = Some (V6 g) \<Longrightarrow> length g = 8"
  by (auto simp: parse_ip_def read_ipv4_def read_ipv6_def Let_def
      split: option.splits prod.splits if_splits dest!: read_octets_shape read_groups_length)

text \<open>Every byte of a parsed address is a hexadecimal digit, a dot or a colon.\<close>

definition ip_char :: "char \<Rightarrow> bool" where
  "ip_char c \<longleftrightarrow> hex_digit c \<noteq> None \<or> c = CHR ''.'' \<or> c = CHR '':''"

definition consumes :: "string \<Rightarrow> string \<Rightarrow> bool" where
  "consumes s rest \<longleftrightarrow> (\<exists>p. s = p @ rest \<and> (\<forall>c \<in> set p. ip_char c))"

lemma consumes_refl [simp]: "consumes s s"
  by (auto simp: consumes_def)

lemma consumes_Cons: "ip_char c \<Longrightarrow> consumes s rest \<Longrightarrow> consumes (c # s) rest"
  unfolding consumes_def by (metis append_Cons set_ConsD)

lemma consumes_trans: "consumes s t \<Longrightarrow> consumes t u \<Longrightarrow> consumes s u"
  unfolding consumes_def by (metis Un_iff append_assoc set_append)

lemma to_digit_ip_char: "to_digit r c = Some d \<Longrightarrow> ip_char c"
  by (auto simp: to_digit_def ip_char_def split: option.splits)

lemma read_digits_consumes: "read_digits r s acc n = (v, m, rest) \<Longrightarrow> consumes s rest"
  by (induction r s acc n rule: read_digits.induct)
     (auto split: option.splits intro: consumes_Cons to_digit_ip_char)

lemma read_number_consumes: "read_number r m b z s = Some (v, rest) \<Longrightarrow> consumes s rest"
  by (auto simp: read_number_def Let_def split: prod.splits if_splits dest: read_digits_consumes)

lemma read_sep_consumes: "read_sep c i s = Some rest \<Longrightarrow> ip_char c \<Longrightarrow> consumes s rest"
  by (cases s) (auto simp: read_sep_def strip_prefix_def split: if_splits intro: consumes_Cons)

lemma ip_char_dot: "ip_char (CHR ''.'')"
  unfolding ip_char_def by blast

lemma ip_char_colon: "ip_char (CHR '':'')"
  unfolding ip_char_def by blast

lemma read_octets_consumes: "read_octets i k s = Some (q, rest) \<Longrightarrow> consumes s rest"
proof (induction i k s arbitrary: q rest rule: read_octets.induct)
  case (1 i s)
  then show ?case by simp
next
  case (2 i k s)
  from "2.prems" obtain s1 v s2 vs where
    s1: "read_sep (CHR ''.'') i s = Some s1" and s2: "read_number 10 3 256 False s1 = Some (v, s2)"
    and vs: "read_octets (Suc i) k s2 = Some (vs, rest)"
    by (auto split: option.splits prod.splits)
  have "consumes s s1" using s1 ip_char_dot by (rule read_sep_consumes)
  moreover have "consumes s1 s2" using s2 by (rule read_number_consumes)
  moreover have "consumes s2 rest" using "2.IH" [OF s1 s2 refl vs] .
  ultimately show ?case by (blast intro: consumes_trans)
qed

lemma read_groups_consumes: "read_groups i k s = (g, b, rest) \<Longrightarrow> consumes s rest"
proof (induction i k s arbitrary: g b rest rule: read_groups.induct)
  case (1 i s)
  then show ?case by simp
next
  case (2 i k s)
  let ?v4 = "if k = 0 then None
             else case read_sep (CHR '':'') i s of None \<Rightarrow> None | Some s1 \<Rightarrow> read_ipv4 s1"
  show ?case
  proof (cases ?v4)
    case (Some r)
    then obtain s1 q s2 where s1: "read_sep (CHR '':'') i s = Some s1"
      and s2: "read_ipv4 s1 = Some (q, s2)" and r: "r = (q, s2)"
      by (cases r) (auto split: if_splits option.splits)
    from Some r "2.prems" have "s2 = rest" by (simp add: Let_def)
    with read_sep_consumes [OF s1 ip_char_colon] read_octets_consumes [of 0 4 s1 q s2] s2
    show ?thesis unfolding read_ipv4_def by (blast intro: consumes_trans)
  next
    case None
    show ?thesis
    proof (cases "read_sep (CHR '':'') i s")
      case no_sep: None
      with None "2.prems" show ?thesis by (simp add: Let_def)
    next
      case s1: (Some s1)
      show ?thesis
      proof (cases "read_number 16 4 65536 True s1")
        case no_num: None
        with None s1 "2.prems" show ?thesis by (simp add: Let_def)
      next
        case (Some r)
        then obtain h s2 where num: "read_number 16 4 65536 True s1 = Some (h, s2)"
          by (cases r) auto
        obtain gs b' s3 where gs: "read_groups (Suc i) k s2 = (gs, b', s3)"
          by (cases "read_groups (Suc i) k s2") auto
        with None s1 num "2.prems" have "s3 = rest" by (simp add: Let_def)
        with "2.IH" [OF refl None s1 num refl gs] read_sep_consumes [OF s1 ip_char_colon]
          read_number_consumes [OF num]
        show ?thesis by (blast intro: consumes_trans)
      qed
    qed
  qed
qed

lemma read_ipv6_consumes:
  assumes "read_ipv6 s = Some (g, rest)"
  shows "consumes s rest"
proof -
  obtain front b s1 where front: "read_groups 0 8 s = (front, b, s1)"
    by (cases "read_groups 0 8 s") auto
  have "consumes s1 rest"
  proof (cases "length front = 8")
    case True
    with assms front show ?thesis by (auto simp: read_ipv6_def)
  next
    case False
    with assms front obtain s2 t b2 where s2: "strip_prefix ''::'' s1 = Some s2"
      and t: "read_groups 0 (8 - (length front + 1)) s2 = (t, b2, rest)"
      by (auto simp: read_ipv6_def Let_def split: if_splits option.splits prod.splits)
    from s2 have "s1 = CHR '':'' # CHR '':'' # s2"
      by (auto simp: strip_prefix_def prefix_def split: if_splits)
    with read_groups_consumes [OF t] show ?thesis
      by (metis consumes_Cons ip_char_colon)
  qed
  with read_groups_consumes [OF front] show ?thesis by (rule consumes_trans)
qed

lemma parse_ip_chars:
  assumes "parse_ip s = Some a" and "c \<in> set s"
  shows "ip_char c"
proof -
  have "consumes s []"
    using assms(1) read_octets_consumes [of 0 4 s] read_ipv6_consumes [of s]
    by (auto simp: parse_ip_def read_ipv4_def split: option.splits prod.splits if_splits)
  with assms(2) show ?thesis by (auto simp: consumes_def)
qed

end
