(* ===== verification/Hosts.thy ===== *)
theory Hosts
  imports Policy Net_Address
begin

text \<open>
  Destination hosts (\<open>crates/engine/src/proxy.rs\<close>, \<open>HostPattern\<close>, \<open>valid_hostname\<close> and
  \<open>DestinationClassifier\<close>): the syntax of a host rule, when it matches a host, when two rules
  can match one host, and the class a host gets. The lemmas show that \<open>overlaps\<close> decides
  exactly whether some host is matched by both patterns, so that a classifier that compiles is
  unambiguous, and that only a Development rule or a loopback name opens a destination.
\<close>

datatype host_pattern = Exact string | Suffix string

datatype host_error =
    HostRuleNotAscii
  | HostWildcardForm
  | HostRuleNotName
  | TooManyHostRules
  | HostRulesOverlap

definition label_char :: "char \<Rightarrow> bool" where
  "label_char b \<longleftrightarrow> ascii_alnum b \<or> b = CHR ''-'' \<or> b = CHR ''_''"

definition valid_label :: "string \<Rightarrow> bool" where
  "valid_label label \<longleftrightarrow>
     label \<noteq> [] \<and> length label \<le> 63 \<and> \<not> prefix ''-'' label \<and> \<not> suffix ''-'' label
     \<and> list_all label_char label"

definition valid_hostname :: "string \<Rightarrow> bool" where
  "valid_hostname value \<longleftrightarrow> list_all valid_label (split_on (CHR ''.'') value)"

definition unbracket :: "string \<Rightarrow> string" where
  "unbracket value =
     (case strip_prefix ''['' value of
        None \<Rightarrow> value
      | Some v \<Rightarrow> (case strip_suffix '']'' v of None \<Rightarrow> value | Some w \<Rightarrow> w))"

definition host_compile :: "string \<Rightarrow> host_error + host_pattern" where
  "host_compile raw =
     (let value = to_ascii_lowercase (trim_end_matches (CHR ''.'') (str_trim raw)) in
      if value = [] \<or> 253 < length value \<or> \<not> is_ascii value then Inl HostRuleNotAscii
      else case strip_prefix ''*.'' value of
        Some sfx \<Rightarrow>
          (if sfx = [] \<or> CHR ''*'' \<in> set sfx \<or> \<not> valid_hostname sfx
           then Inl HostWildcardForm else Inr (Suffix sfx))
      | None \<Rightarrow>
          (if CHR ''*'' \<in> set value then Inl HostWildcardForm
           else (let unbracketed = unbracket value in
             if parse_ip unbracketed = None \<and> \<not> valid_hostname unbracketed
             then Inl HostRuleNotName else Inr (Exact unbracketed))))"

fun host_matches :: "host_pattern \<Rightarrow> string \<Rightarrow> bool" where
  "host_matches (Exact expected) host = (host = expected)"
| "host_matches (Suffix sfx) host =
     (length sfx < length host \<and> suffix sfx host
      \<and> host ! (length host - length sfx - 1) = CHR ''.'')"

fun host_overlaps :: "host_pattern \<Rightarrow> host_pattern \<Rightarrow> bool" where
  "host_overlaps (Exact left) (Exact right) = (left = right)"
| "host_overlaps (Exact host) pattern = host_matches pattern host"
| "host_overlaps pattern (Exact host) = host_matches pattern host"
| "host_overlaps (Suffix left) (Suffix right) =
     (left = right \<or> suffix (CHR ''.'' # right) left \<or> suffix (CHR ''.'' # left) right)"

record destination_classifier =
  development :: "host_pattern list"
  production :: "host_pattern list"

definition default_classifier :: destination_classifier where
  "default_classifier = \<lparr>development = [], production = []\<rparr>"

definition classifier_compile ::
  "string list \<Rightarrow> string list \<Rightarrow> host_error + destination_classifier" where
  "classifier_compile dev_rules prod_rules =
     (if 128 < length dev_rules \<or> 128 < length prod_rules then Inl TooManyHostRules
      else and_then (collect_results host_compile dev_rules) (\<lambda>dev.
           and_then (collect_results host_compile prod_rules) (\<lambda>prod.
             if list_ex (\<lambda>d. list_ex (host_overlaps d) prod) dev then Inl HostRulesOverlap
             else Inr \<lparr>development = dev, production = prod\<rparr>)))"

definition normalize_host :: "string \<Rightarrow> string" where
  "normalize_host host =
     to_ascii_lowercase (trim_end_matches (CHR ''.'') (trim_end_matches (CHR '']'')
       (trim_start_matches (CHR ''['') (str_trim host))))"

definition loopback_name :: "string \<Rightarrow> bool" where
  "loopback_name host \<longleftrightarrow>
     host = ''localhost''
     \<or> (case parse_ip host of None \<Rightarrow> False | Some a \<Rightarrow> is_loopback a)"

definition classify :: "destination_classifier \<Rightarrow> string \<Rightarrow> destination_class" where
  "classify c raw =
     (let host = normalize_host raw in
      if list_ex (\<lambda>p. host_matches p host) (production c) then Production
      else if list_ex (\<lambda>p. host_matches p host) (development c) \<or> loopback_name host
      then Development else Unknown)"

lemmas host_defs =
  label_char_def valid_label_def valid_hostname_def unbracket_def host_compile_def
  classifier_compile_def normalize_host_def loopback_name_def classify_def

section \<open>The language of a pattern\<close>

text \<open>A suffix pattern matches exactly the hosts that end in a dot and the suffix.\<close>

declare host_matches.simps(2) [simp del]

lemma host_matches_Suffix_iff:
  "host_matches (Suffix sfx) host \<longleftrightarrow> (\<exists>sub. host = sub @ CHR ''.'' # sfx)"
proof
  assume "host_matches (Suffix sfx) host"
  then have len: "length sfx < length host" and sfx: "suffix sfx host"
    and m: "host ! (length host - length sfx - 1) = CHR ''.''"
    by (simp_all only: host_matches.simps)
  from sfx obtain pre where pre: "host = pre @ sfx" by (rule suffixE)
  with len have "pre \<noteq> []" by auto
  then obtain us x where us: "pre = us @ [x]" by (cases pre rule: rev_cases) auto
  from pre us have "length host - length sfx - 1 = length us" by simp
  moreover from pre us have "host ! length us = x" by (simp add: nth_append)
  ultimately have "x = CHR ''.''" using m by simp
  with pre us have "host = us @ CHR ''.'' # sfx" by simp
  then show "\<exists>sub. host = sub @ CHR ''.'' # sfx" ..
next
  assume "\<exists>sub. host = sub @ CHR ''.'' # sfx"
  then obtain sub where host: "host = (sub @ [CHR ''.'']) @ sfx" by auto
  then have "host ! length sub = CHR ''.''" by simp
  with host show "host_matches (Suffix sfx) host"
    by (simp add: host_matches.simps(2) suffix_def)
qed

lemma suffix_dotted_comparable:
  assumes "sub @ CHR ''.'' # l = sub' @ CHR ''.'' # r"
  shows "l = r \<or> suffix (CHR ''.'' # r) l \<or> suffix (CHR ''.'' # l) r"
proof -
  from assms have "(\<exists>us. sub = sub' @ us \<and> us @ CHR ''.'' # l = CHR ''.'' # r)
      \<or> (\<exists>us. sub' = sub @ us \<and> us @ CHR ''.'' # r = CHR ''.'' # l)"
    by (auto simp: append_eq_append_conv2)
  then show ?thesis
  proof (elim disjE exE conjE)
    fix us assume "us @ CHR ''.'' # l = CHR ''.'' # r"
    then show ?thesis by (cases us) (auto simp: suffix_def)
  next
    fix us assume "us @ CHR ''.'' # r = CHR ''.'' # l"
    then show ?thesis by (cases us) (auto simp: suffix_def)
  qed
qed

lemma host_overlaps_sym: "host_overlaps p q = host_overlaps q p"
  by (cases p; cases q) auto

lemma host_overlaps_complete:
  assumes "host_matches p h" and "host_matches q h"
  shows "host_overlaps p q"
proof (cases p)
  case (Exact l)
  with assms show ?thesis by (cases q) auto
next
  case p: (Suffix l)
  show ?thesis
  proof (cases q)
    case (Exact r)
    with assms p show ?thesis by simp
  next
    case (Suffix r)
    with assms p have "\<exists>sub. h = sub @ CHR ''.'' # l" and "\<exists>sub. h = sub @ CHR ''.'' # r"
      by (simp_all add: host_matches_Suffix_iff)
    then obtain sub sub' where "sub @ CHR ''.'' # l = sub' @ CHR ''.'' # r" by metis
    with suffix_dotted_comparable [of sub l sub' r] p Suffix show ?thesis by simp
  qed
qed

lemma host_overlaps_sound:
  assumes "host_overlaps p q"
  shows "\<exists>h. host_matches p h \<and> host_matches q h"
proof (cases p)
  case (Exact l)
  with assms have "host_matches p l \<and> host_matches q l" by (cases q) auto
  then show ?thesis ..
next
  case p: (Suffix l)
  show ?thesis
  proof (cases q)
    case (Exact r)
    with assms p have "host_matches p r \<and> host_matches q r" by simp
    then show ?thesis ..
  next
    case q: (Suffix r)
    have dotted: "host_matches (Suffix s) (CHR ''.'' # u)"
      if "s = u \<or> suffix (CHR ''.'' # s) u" for s u
      using that unfolding host_matches_Suffix_iff suffix_def
      by (metis append_Cons append_Nil)
    from assms p q consider "l = r" | "suffix (CHR ''.'' # r) l" | "suffix (CHR ''.'' # l) r"
      by auto
    then show ?thesis using dotted p q by cases blast+
  qed
qed

section \<open>Compiled classifiers\<close>

definition wf_pattern :: "host_pattern \<Rightarrow> bool" where
  "wf_pattern p =
     (case p of
        Exact h \<Rightarrow> (valid_hostname h \<or> parse_ip h \<noteq> None) \<and> list_all (\<lambda>c. \<not> ascii_upper c) h
      | Suffix h \<Rightarrow> valid_hostname h \<and> list_all (\<lambda>c. \<not> ascii_upper c) h)"

lemma no_upper_lowercase: "list_all (\<lambda>c. \<not> ascii_upper c) (to_ascii_lowercase s)"
  by (simp add: to_ascii_lowercase_def list_all_iff)

lemma no_upper_strip_prefix:
  "list_all P s \<Longrightarrow> strip_prefix p s = Some t \<Longrightarrow> list_all P t"
  by (auto simp: strip_prefix_def list_all_iff dest: in_set_dropD split: if_splits)

lemma no_upper_strip_suffix:
  "list_all P s \<Longrightarrow> strip_suffix p s = Some t \<Longrightarrow> list_all P t"
  by (auto simp: strip_suffix_def list_all_iff dest: in_set_takeD split: if_splits)

lemma no_upper_unbracket: "list_all P s \<Longrightarrow> list_all P (unbracket s)"
  by (auto simp: unbracket_def split: option.splits
      dest: no_upper_strip_prefix no_upper_strip_suffix)

lemma host_compile_wf:
  assumes "host_compile raw = Inr p"
  shows "wf_pattern p"
proof -
  let ?v = "to_ascii_lowercase (trim_end_matches (CHR ''.'') (str_trim raw))"
  have low: "list_all (\<lambda>c. \<not> ascii_upper c) ?v" by (rule no_upper_lowercase)
  show ?thesis
  proof (cases "strip_prefix ''*.'' ?v")
    case None
    with assms have "p = Exact (unbracket ?v)"
      and "parse_ip (unbracket ?v) \<noteq> None \<or> valid_hostname (unbracket ?v)"
      by (auto simp: host_compile_def Let_def split: if_splits)
    with no_upper_unbracket [OF low] show ?thesis by (auto simp: wf_pattern_def)
  next
    case (Some sfx)
    with assms have "p = Suffix sfx" and "valid_hostname sfx"
      by (auto simp: host_compile_def Let_def split: if_splits)
    with no_upper_strip_prefix [OF low Some] show ?thesis by (simp add: wf_pattern_def)
  qed
qed

definition classifier_ok :: "destination_classifier \<Rightarrow> bool" where
  "classifier_ok c \<longleftrightarrow>
     list_all wf_pattern (development c) \<and> list_all wf_pattern (production c)
     \<and> length (development c) \<le> 128 \<and> length (production c) \<le> 128
     \<and> (\<forall>d \<in> set (development c). \<forall>q \<in> set (production c). \<not> host_overlaps d q)"

lemma classifier_compile_ok:
  assumes "classifier_compile devs prods = Inr c"
  shows "classifier_ok c"
proof -
  from assms obtain ds ps where ds: "collect_results host_compile devs = Inr ds"
    and ps: "collect_results host_compile prods = Inr ps"
    and no: "\<not> list_ex (\<lambda>d. list_ex (host_overlaps d) ps) ds"
    and len: "length devs \<le> 128" "length prods \<le> 128"
    and c: "c = \<lparr>development = ds, production = ps\<rparr>"
    by (auto simp: classifier_compile_def and_then_Inr_iff not_less split: if_splits)
  have "list_all wf_pattern ds" "list_all wf_pattern ps"
    using ds ps by (auto simp: list_all_iff dest: collect_results_in_set host_compile_wf)
  moreover have "length ds \<le> 128" "length ps \<le> 128"
    using collect_results_length [OF ds] collect_results_length [OF ps] len by auto
  ultimately show ?thesis using no c by (simp add: classifier_ok_def list_ex_iff)
qed

lemma default_classifier_ok: "classifier_ok default_classifier"
  by (simp add: classifier_ok_def default_classifier_def)

lemma classifier_ok_disjoint:
  assumes "classifier_ok c" and "d \<in> set (development c)" and "q \<in> set (production c)"
  shows "\<not> (host_matches d h \<and> host_matches q h)"
  using assms host_overlaps_complete unfolding classifier_ok_def by blast

lemma classify_Development_iff:
  "classify c raw = Development \<longleftrightarrow>
     \<not> list_ex (\<lambda>p. host_matches p (normalize_host raw)) (production c)
     \<and> (list_ex (\<lambda>p. host_matches p (normalize_host raw)) (development c)
        \<or> loopback_name (normalize_host raw))"
  by (simp add: classify_def Let_def)

lemma classify_Production_iff:
  "classify c raw = Production \<longleftrightarrow>
     list_ex (\<lambda>p. host_matches p (normalize_host raw)) (production c)"
  by (simp add: classify_def Let_def)

section \<open>Properties\<close>

text \<open>
  C39: two host patterns overlap, as the start-up check computes it, exactly when some host is
  matched by both.
\<close>

theorem overlaps_iff_common_host:
  "host_overlaps p q \<longleftrightarrow> (\<exists>h. host_matches p h \<and> host_matches q h)"
  using host_overlaps_sound host_overlaps_complete by blast

text \<open>
  A classifier that compiles is unambiguous: whatever host a Development rule matches is
  classified Development, so checking the Production rules first decides nothing.
\<close>

lemma classify_unambiguous:
  assumes "classifier_compile devs prods = Inr c"
    and "d \<in> set (development c)" and "host_matches d (normalize_host raw)"
  shows "classify c raw = Development"
  using classifier_ok_disjoint [OF classifier_compile_ok [OF assms(1)] assms(2)] assms(2,3)
  unfolding classify_Development_iff list_ex_iff by blast

lemma classify_unambiguous_witness:
  "classifier_compile [''*.internal''] [''api.example.com'']
     = Inr \<lparr>development = [Suffix ''internal''], production = [Exact ''api.example.com'']\<rparr>
   \<and> classify \<lparr>development = [Suffix ''internal''], production = [Exact ''api.example.com'']\<rparr>
       ''Orders.Internal.'' = Development"
proof -
  let ?c = "\<lparr>development = [Suffix ''internal''], production = [Exact ''api.example.com'']\<rparr>"
  have c: "classifier_compile [''*.internal''] [''api.example.com''] = Inr ?c" by code_simp
  have "host_matches (Suffix ''internal'') (normalize_host ''Orders.Internal.'')" by code_simp
  with classify_unambiguous [OF c, of "Suffix ''internal''"] c show ?thesis by simp
qed

text \<open>
  Classification fails closed. An active operation is authorized on a classified host only
  if no Production rule matches it and either a Development rule does or the host is a
  loopback name.
\<close>

lemma active_operation_needs_development:
  assumes "a \<noteq> Observe"
  shows "is_ok (authorize (classify c raw) a) \<longleftrightarrow>
     (\<forall>q \<in> set (production c). \<not> host_matches q (normalize_host raw))
     \<and> ((\<exists>d \<in> set (development c). host_matches d (normalize_host raw))
        \<or> loopback_name (normalize_host raw))"
  using assms by (auto simp: authorize_ok_iff classify_Development_iff list_ex_iff)

lemma active_operation_needs_development_witness:
  "\<not> is_ok (authorize (classify \<lparr>development = [], production = []\<rparr> ''example.com'') Modify)"
proof -
  let ?c = "\<lparr>development = [], production = []\<rparr>"
  have "\<not> loopback_name (normalize_host ''example.com'')" by code_simp
  with active_operation_needs_development [of Modify ?c "''example.com''"] show ?thesis by simp
qed

end
