(* ===== verification/Ca.thy ===== *)
theory Ca
  imports Hosts
begin

text \<open>
  The local certificate authority (\<open>crates/engine/src/ca.rs\<close>): its life cycle over the credential
  store of the operating system, and the issuing of host certificates. The credential store is
  one optional secret with the answers of its operations as arguments; \<open>parse\<close> and \<open>print\<close> stand
  for \<open>serde_json\<close>, and certificate generation and signing (\<open>rcgen\<close>) for their results. Stored
  times are milliseconds since the epoch, the clock and the expiry of a leaf count nanoseconds.
\<close>

record ca_status =
  ca_state :: string
  ca_fingerprint :: "string option"
  ca_created_at :: "nat option"
  ca_expires_at :: "nat option"
  ca_installed :: bool
  ca_https_inspection :: bool

definition absent :: ca_status where
  "absent =
     \<lparr>ca_state = ''absent'', ca_fingerprint = None, ca_created_at = None, ca_expires_at = None,
      ca_installed = False, ca_https_inspection = False\<rparr>"

record stored_ca =
  sc_certificate :: string
  sc_private_key :: string
  sc_fingerprint :: string
  sc_created_at :: nat
  sc_expires_at :: nat

record issued_leaf =
  il_certificate :: bytes
  il_private_key :: bytes
  il_issuer :: string
  il_host :: string
  il_expires_at :: nat

datatype ca_error =
    StoreUnavailable | CannotRead | InvalidStored | NoConsent | CaExists | CannotInitCa | CannotKeyCa
  | CannotSelfSign | CannotSave
  | NotGenerated | NotConfirmed | CannotRemove | LeafNotDevelopment | BadLeafHost | BadCaKey
  | BadCaExpiry | CaExpired | CannotInitLeaf | CannotKeyLeaf | CannotSign

definition status_from :: "stored_ca \<Rightarrow> ca_status" where
  "status_from ca =
     \<lparr>ca_state = ''ready'', ca_fingerprint = Some (sc_fingerprint ca),
      ca_created_at = Some (sc_created_at ca), ca_expires_at = Some (sc_expires_at ca),
      ca_installed = False, ca_https_inspection = False\<rparr>"

text \<open>
  What the credential store answers to one operation: the store itself is unavailable, the
  operation fails, or it is done.
\<close>

datatype store_answer = Unavailable | Refused | Done

definition ca_load ::
  "(bytes \<Rightarrow> stored_ca option) \<Rightarrow> store_answer \<Rightarrow> bytes option \<Rightarrow> ca_error + stored_ca option" where
  "ca_load parse answer secret =
     (case answer of
        Unavailable \<Rightarrow> Inl StoreUnavailable
      | Refused \<Rightarrow> Inl CannotRead
      | Done \<Rightarrow>
          (case secret of
             None \<Rightarrow> Inr None
           | Some bytes \<Rightarrow> (case parse bytes of None \<Rightarrow> Inl InvalidStored | Some ca \<Rightarrow> Inr (Some ca))))"

definition ca_current_status ::
  "(bytes \<Rightarrow> stored_ca option) \<Rightarrow> store_answer \<Rightarrow> bytes option \<Rightarrow> ca_error + ca_status" where
  "ca_current_status parse answer secret =
     and_then (ca_load parse answer secret) (\<lambda>r.
       Inr (case r of None \<Rightarrow> absent | Some ca \<Rightarrow> status_from ca))"

text \<open>
  What \<open>rcgen\<close> is asked to certify. \<open>cp_server_auth\<close> is the one extended use that occurs; the times
  are nanoseconds since the epoch.
\<close>

datatype key_usage = KeyCertSign | CrlSign | DigitalSignature | KeyEncipherment

record certificate_params =
  cp_names :: "string list"
  cp_organization :: string
  cp_common_name :: string
  cp_is_ca :: bool
  cp_key_usages :: "key_usage list"
  cp_server_auth :: bool
  cp_not_before :: int
  cp_not_after :: int

definition second_ns :: nat where
  "second_ns = 1000 * 1000 * 1000"

definition day_ns :: nat where
  "day_ns = 24 * 60 * 60 * second_ns"

definition ca_params :: "nat \<Rightarrow> certificate_params" where
  "ca_params now =
     \<lparr>cp_names = [], cp_organization = ''Sippin Soda local development'',
      cp_common_name = ''Sippin Soda Local Development CA'', cp_is_ca = True,
      cp_key_usages = [KeyCertSign, CrlSign, DigitalSignature], cp_server_auth = False,
      cp_not_before = int now - int (5 * 60 * second_ns),
      cp_not_after = int (now + 5 * 365 * day_ns)\<rparr>"

text \<open>The fingerprint: the digest in upper-case hexadecimal, byte by byte.\<close>

definition hex_digit :: "nat \<Rightarrow> char" where
  "hex_digit n = (''0123456789ABCDEF'' ! n)"

definition hex_byte :: "char \<Rightarrow> string" where
  "hex_byte c = [hex_digit (byte_val c div 16), hex_digit (byte_val c mod 16)]"

definition fingerprint :: "bytes \<Rightarrow> string" where
  "fingerprint digest = join_with '':'' (map hex_byte digest)"

text \<open>
  \<open>self_sign\<close> makes the key and the certificate: its DER and PEM form and the key's PEM.
\<close>

definition generate_ca ::
  "(certificate_params \<Rightarrow> ca_error + bytes \<times> string \<times> string) \<Rightarrow> (bytes \<Rightarrow> bytes) \<Rightarrow> nat \<Rightarrow> nat
     \<Rightarrow> ca_error + stored_ca" where
  "generate_ca self_sign sha now now_ms =
     and_then (self_sign (ca_params now)) (\<lambda>(der, certificate, key).
       Inr \<lparr>sc_certificate = certificate, sc_private_key = key, sc_fingerprint = fingerprint (sha der),
            sc_created_at = now_ms,
            sc_expires_at = (now + 5 * 365 * day_ns) div second_ns * 1000\<rparr>)"

text \<open>\<open>generated\<close> is what \<open>generate_ca\<close> made; the result carries the new secret.\<close>

definition ca_generate ::
  "(bytes \<Rightarrow> stored_ca option) \<Rightarrow> (stored_ca \<Rightarrow> bytes) \<Rightarrow> bool \<Rightarrow> store_answer \<Rightarrow> (ca_error + stored_ca)
     \<Rightarrow> store_answer \<Rightarrow> bytes option \<Rightarrow> (ca_error + ca_status) \<times> bytes option" where
  "ca_generate parse print consent reading generated saving secret =
     (if \<not> consent then (Inl NoConsent, secret)
      else case ca_load parse reading secret of
        Inl e \<Rightarrow> (Inl e, secret)
      | Inr (Some _) \<Rightarrow> (Inl CaExists, secret)
      | Inr None \<Rightarrow>
          (case generated of
             Inl e \<Rightarrow> (Inl e, secret)
           | Inr ca \<Rightarrow>
               (case saving of
                  Unavailable \<Rightarrow> (Inl StoreUnavailable, secret)
                | Refused \<Rightarrow> (Inl CannotSave, secret)
                | Done \<Rightarrow> (Inr (status_from ca), Some (print ca)))))"

definition certificate_pem ::
  "(bytes \<Rightarrow> stored_ca option) \<Rightarrow> store_answer \<Rightarrow> bytes option \<Rightarrow> ca_error + bytes" where
  "certificate_pem parse answer secret =
     and_then (ca_load parse answer secret) (\<lambda>r.
       case r of None \<Rightarrow> Inl NotGenerated | Some ca \<Rightarrow> Inr (sc_certificate ca))"

definition ca_remove :: "bool \<Rightarrow> store_answer \<Rightarrow> bytes option \<Rightarrow> (ca_error + ca_status) \<times> bytes option" where
  "ca_remove confirmed answer secret =
     (if \<not> confirmed then (Inl NotConfirmed, secret)
      else case answer of
        Unavailable \<Rightarrow> (Inl StoreUnavailable, secret)
      | Refused \<Rightarrow> (Inl CannotRemove, secret)
      | Done \<Rightarrow> (Inr absent, None))"

section \<open>Host certificates\<close>

definition normalize_leaf_host :: "string \<Rightarrow> ca_error + string" where
  "normalize_leaf_host text =
     (let host = to_ascii_lowercase (trim_end_matches (CHR ''.'') (trim_end_matches (CHR '']'')
                   (trim_start_matches (CHR ''['') (str_trim text))));
          valid_name = list_all valid_label (split_on (CHR ''.'') host)
      in if host = [] \<or> 253 < length host \<or> \<not> is_ascii host \<or> (parse_ip host = None \<and> \<not> valid_name)
         then Inl BadLeafHost else Inr host)"

definition leaf_params :: "string \<Rightarrow> nat \<Rightarrow> nat \<Rightarrow> certificate_params" where
  "leaf_params host now expires =
     \<lparr>cp_names = [host], cp_organization = ''Sippin Soda local development'', cp_common_name = host,
      cp_is_ca = False, cp_key_usages = [DigitalSignature, KeyEncipherment], cp_server_auth = True,
      cp_not_before = int now - int (5 * 60 * second_ns), cp_not_after = int expires\<rparr>"

text \<open>
  \<open>key_ok\<close> and \<open>timestamp_ok\<close> are the parsers of the stored key with its certificate and of the
  expiry; \<open>sign\<close> makes a key and its certificate, signed with the authority, or fails.
\<close>

definition issue_leaf_from_ca ::
  "(stored_ca \<Rightarrow> bool) \<Rightarrow> (nat \<Rightarrow> bool) \<Rightarrow> (stored_ca \<Rightarrow> certificate_params \<Rightarrow> ca_error + bytes \<times> bytes) \<Rightarrow> nat
     \<Rightarrow> stored_ca \<Rightarrow> string \<Rightarrow> destination_class \<Rightarrow> ca_error + issued_leaf" where
  "issue_leaf_from_ca key_ok timestamp_ok sign now ca text destination =
     (if \<not> is_ok (authorize destination InspectTls) then Inl LeafNotDevelopment
      else and_then (normalize_leaf_host text) (\<lambda>host.
        if \<not> key_ok ca then Inl BadCaKey
        else if \<not> timestamp_ok (sc_expires_at ca div 1000) then Inl BadCaExpiry
        else (let expires = min (now + day_ns) (sc_expires_at ca div 1000 * second_ns) in
          if expires \<le> now then Inl CaExpired
          else and_then (sign ca (leaf_params host now expires)) (\<lambda>(certificate, key).
            Inr \<lparr>il_certificate = certificate, il_private_key = key, il_issuer = sc_fingerprint ca,
                 il_host = host, il_expires_at = expires div second_ns * 1000\<rparr>))))"

definition issue_leaf ::
  "(bytes \<Rightarrow> stored_ca option) \<Rightarrow> store_answer \<Rightarrow> bytes option
     \<Rightarrow> (stored_ca \<Rightarrow> bool) \<Rightarrow> (nat \<Rightarrow> bool) \<Rightarrow> (stored_ca \<Rightarrow> certificate_params \<Rightarrow> ca_error + bytes \<times> bytes) \<Rightarrow> nat
     \<Rightarrow> string \<Rightarrow> destination_class \<Rightarrow> ca_error + issued_leaf" where
  "issue_leaf parse answer secret key_ok timestamp_ok sign now text destination =
     (if \<not> is_ok (authorize destination InspectTls) then Inl LeafNotDevelopment
      else and_then (ca_load parse answer secret) (\<lambda>r.
        case r of
          None \<Rightarrow> Inl NotGenerated
        | Some ca \<Rightarrow> issue_leaf_from_ca key_ok timestamp_ok sign now ca text destination))"

section \<open>Properties\<close>

lemma normalize_leaf_host_Inr:
  "normalize_leaf_host text = Inr host \<Longrightarrow>
   host \<noteq> [] \<and> length host \<le> 253 \<and> is_ascii host
   \<and> (parse_ip host \<noteq> None \<or> list_all valid_label (split_on (CHR ''.'') host))
   \<and> to_ascii_lowercase host = host"
  by (auto simp: normalize_leaf_host_def Let_def split: if_splits)

lemma leaf_expiry:
  assumes "expires = min (now + day_ns) (s * second_ns)" and "now < expires"
  shows "now < expires div second_ns * second_ns"
    and "expires div second_ns \<le> s" and "expires div second_ns * second_ns \<le> now + day_ns"
proof -
  have le: "expires \<le> now + day_ns" "expires \<le> s * second_ns" using assms(1) by simp_all
  have pos: "0 < second_ns" by (simp add: second_ns_def)
  have split: "expires div second_ns * second_ns + expires mod second_ns = expires" by simp
  have rem: "expires mod second_ns < second_ns" using pos by simp
  show "expires div second_ns \<le> s" using le(2) pos div_le_mono [OF le(2), of second_ns] by simp
  show "expires div second_ns * second_ns \<le> now + day_ns" using le(1) split by linarith
  show "now < expires div second_ns * second_ns"
  proof (cases "expires = s * second_ns")
    case True
    then show ?thesis using assms(2) pos by simp
  next
    case False
    then have "expires = now + day_ns" using assms(1) by (auto simp: min_def split: if_splits)
    moreover have "second_ns < day_ns" by (simp add: day_ns_def second_ns_def)
    ultimately show ?thesis using split rem by linarith
  qed
qed

text \<open>A certificate of a server that cannot sign others.\<close>

definition server_only :: "certificate_params \<Rightarrow> bool" where
  "server_only p \<longleftrightarrow> \<not> cp_is_ca p \<and> cp_server_auth p \<and> KeyCertSign \<notin> set (cp_key_usages p)"

lemma issue_leaf_facts:
  assumes "issue_leaf parse answer secret key_ok timestamp_ok sign now text destination = Inr leaf"
  shows "destination = Development
    \<and> (\<exists>bytes ca. secret = Some bytes \<and> parse bytes = Some ca \<and> key_ok ca
        \<and> il_issuer leaf = sc_fingerprint ca \<and> il_expires_at leaf \<le> sc_expires_at ca
        \<and> (\<exists>p. sign ca p = Inr (il_certificate leaf, il_private_key leaf) \<and> server_only p
             \<and> cp_names p = [il_host leaf] \<and> cp_not_after p \<le> int (sc_expires_at ca * (1000 * 1000))
             \<and> cp_not_after p \<le> int (now + day_ns)))
    \<and> normalize_leaf_host text = Inr (il_host leaf)
    \<and> (parse_ip (il_host leaf) \<noteq> None \<or> list_all valid_label (split_on (CHR ''.'') (il_host leaf)))
    \<and> now < il_expires_at leaf * (1000 * 1000)
    \<and> il_expires_at leaf * (1000 * 1000) \<le> now + day_ns"
proof -
  from assms obtain bytes ca where secret: "secret = Some bytes" "parse bytes = Some ca"
    and dev: "is_ok (authorize destination InspectTls)"
    and leaf: "issue_leaf_from_ca key_ok timestamp_ok sign now ca text destination = Inr leaf"
    by (auto simp: issue_leaf_def ca_load_def and_then_Inr_iff
        split: if_splits store_answer.splits option.splits)
  let ?e = "min (now + day_ns) (sc_expires_at ca div 1000 * second_ns)"
  from leaf dev obtain host where host: "normalize_leaf_host text = Inr host" "il_host leaf = host"
    and key: "key_ok ca" "il_issuer leaf = sc_fingerprint ca"
    and e: "now < ?e" "il_expires_at leaf = ?e div second_ns * 1000"
    and signed: "sign ca (leaf_params host now ?e) = Inr (il_certificate leaf, il_private_key leaf)"
    by (auto simp: issue_leaf_from_ca_def and_then_Inr_iff Let_def not_le split: if_splits)
  have "sc_expires_at ca div 1000 * second_ns \<le> sc_expires_at ca * (1000 * 1000)"
    using div_times_less_eq_dividend [of "sc_expires_at ca" 1000] by (simp add: second_ns_def)
  then have "int ?e \<le> int (sc_expires_at ca * (1000 * 1000))"
    by (intro iffD2 [OF of_nat_le_iff] min.coboundedI2)
  moreover have "int ?e \<le> int (now + day_ns)" by simp
  ultimately have params: "\<exists>p. sign ca p = Inr (il_certificate leaf, il_private_key leaf) \<and> server_only p
      \<and> cp_names p = [il_host leaf] \<and> cp_not_after p \<le> int (sc_expires_at ca * (1000 * 1000))
      \<and> cp_not_after p \<le> int (now + day_ns)"
    using signed
    by (intro exI [of _ "leaf_params host now ?e"])
      (auto simp: leaf_params_def server_only_def host simp del: of_nat_min of_nat_mult)
  have ms: "il_expires_at leaf * (1000 * 1000) = ?e div second_ns * second_ns"
    by (simp add: e(2) second_ns_def)
  have "il_expires_at leaf \<le> sc_expires_at ca div 1000 * 1000"
    using leaf_expiry(2) [OF refl e(1)] by (simp add: e(2))
  also have "\<dots> \<le> sc_expires_at ca" by (rule div_times_less_eq_dividend)
  finally show ?thesis
    using secret dev host key ms params leaf_expiry(1,3) [OF refl e(1)] normalize_leaf_host_Inr [OF host(1)]
    by (auto simp: authorize_ok_iff)
qed

text \<open>
  C15: a host certificate is issued only for a Development destination, from the stored
  authority and for a valid lower-case name or address. It names that authority's fingerprint,
  has not expired, and outlives neither one day nor the authority. What the authority is asked to
  sign is the certificate of a server for this one host, which cannot sign others.
\<close>

theorem issue_leaf_bounded:
  assumes "issue_leaf parse answer secret key_ok timestamp_ok sign now text destination = Inr leaf"
  shows "destination = Development
    \<and> (\<exists>bytes ca. secret = Some bytes \<and> parse bytes = Some ca \<and> key_ok ca
        \<and> il_issuer leaf = sc_fingerprint ca \<and> il_expires_at leaf \<le> sc_expires_at ca
        \<and> (\<exists>p. sign ca p = Inr (il_certificate leaf, il_private_key leaf) \<and> server_only p
             \<and> cp_names p = [il_host leaf] \<and> cp_not_after p \<le> int (sc_expires_at ca * (1000 * 1000))
             \<and> cp_not_after p \<le> int (now + day_ns)))
    \<and> normalize_leaf_host text = Inr (il_host leaf)
    \<and> (parse_ip (il_host leaf) \<noteq> None \<or> list_all valid_label (split_on (CHR ''.'') (il_host leaf)))
    \<and> now < il_expires_at leaf * (1000 * 1000)
    \<and> il_expires_at leaf * (1000 * 1000) \<le> now + day_ns"
  using issue_leaf_facts [OF assms] .

text \<open>A new authority can issue for a valid host as long as it has not expired.\<close>

lemma fresh_authority_issues:
  assumes "generate_ca self_sign sha now now_ms = Inr ca" and "normalize_leaf_host text = Inr host"
    and "key_ok ca" and "timestamp_ok (sc_expires_at ca div 1000)"
    and "later + second_ns \<le> now + 5 * 365 * day_ns" and "\<And>p. is_ok (sign ca p)"
  shows "is_ok (issue_leaf_from_ca key_ok timestamp_ok sign later ca text Development)"
proof -
  let ?expiry = "now + 5 * 365 * day_ns"
  have "sc_expires_at ca div 1000 = ?expiry div second_ns"
    using assms(1) by (auto simp: generate_ca_def and_then_Inr_iff)
  moreover have "?expiry mod second_ns < second_ns" by (simp add: second_ns_def)
  then have "later < ?expiry div second_ns * second_ns"
    using assms(5) div_mult_mod_eq [of ?expiry second_ns] by linarith
  moreover have "0 < day_ns" by (simp add: day_ns_def second_ns_def)
  ultimately have "later < min (later + day_ns) (sc_expires_at ca div 1000 * second_ns)" by simp
  moreover obtain c k where "sign ca (leaf_params host later
      (min (later + day_ns) (sc_expires_at ca div 1000 * second_ns))) = Inr (c, k)"
    using assms(6) by (metis is_ok_simps(1) sum.exhaust surj_pair)
  ultimately show ?thesis
    using assms(2-4) by (simp add: issue_leaf_from_ca_def Let_def not_le)
qed

text \<open>The fingerprint identifies the digest.\<close>

lemma hex_byte_inj: "hex_byte c = hex_byte d \<Longrightarrow> c = d"
proof -
  have "\<forall>m \<in> set [0..<16]. \<forall>n \<in> set [0..<16]. hex_digit m = hex_digit n \<longrightarrow> m = n" by code_simp
  then have inj: "m = n" if "hex_digit m = hex_digit n" "m < 16" "n < 16" for m n
    using that by (simp add: atLeast0LessThan)
  note small = byte_val_bound
  assume "hex_byte c = hex_byte d"
  then have "byte_val c div 16 = byte_val d div 16" "byte_val c mod 16 = byte_val d mod 16"
    using small [of c] small [of d] by (auto simp: hex_byte_def intro: inj)
  then have "byte_val c = byte_val d" by (metis div_mult_mod_eq)
  then show "c = d" by (simp add: byte_val_def)
qed

text \<open>An authority that expires after 90 000 seconds, in a store that holds only it.\<close>

definition sample_ca :: stored_ca where
  "sample_ca =
     \<lparr>sc_certificate = ''pem'', sc_private_key = ''key'', sc_fingerprint = ''AB:CD'',
      sc_created_at = 0, sc_expires_at = 90000000\<rparr>"

definition sample_parse :: "bytes \<Rightarrow> stored_ca option" where
  "sample_parse secret = (if secret = ''stored'' then Some sample_ca else None)"

theorem issue_leaf_bounded_witness:
  "\<exists>leaf. issue_leaf sample_parse Done (Some ''stored'') (\<lambda>_. True) (\<lambda>_. True)
      (\<lambda>_ _. Inr (''cert'', ''key'')) 5000000000 ''Api.Test.'' Development = Inr leaf
    \<and> il_issuer leaf = ''AB:CD'' \<and> il_host leaf = ''api.test'' \<and> 5000 < il_expires_at leaf"
proof -
  have "is_ok (issue_leaf sample_parse Done (Some ''stored'') (\<lambda>_. True) (\<lambda>_. True)
      (\<lambda>_ _. Inr (''cert'', ''key'')) 5000000000 ''Api.Test.'' Development)"
    by code_simp
  then obtain leaf where l: "issue_leaf sample_parse Done (Some ''stored'') (\<lambda>_. True) (\<lambda>_. True)
      (\<lambda>_ _. Inr (''cert'', ''key'')) 5000000000 ''Api.Test.'' Development = Inr leaf"
    by (auto simp: is_ok_def split: sum.splits)
  have "normalize_leaf_host ''Api.Test.'' = Inr ''api.test''" by code_simp
  with issue_leaf_bounded [OF l] have "il_issuer leaf = ''AB:CD''" "il_host leaf = ''api.test''"
      "5000000000 < il_expires_at leaf * (1000 * 1000)"
    by (auto simp: sample_parse_def sample_ca_def split: if_splits)
  with l show ?thesis by auto
qed

text \<open>
  The life cycle of the stored authority. An authority that is generated is read back, by
  its status and its exported certificate; it is never replaced while it is there; removing it
  leaves nothing. No failed operation, in particular none without consent or confirmation,
  changes the credential store.
\<close>

lemma ca_lifecycle:
  assumes "parse (print ca) = Some ca"
    and "ca_generate parse print consent reading generated saving secret = (result, secret')"
    and "ca_remove confirmed answer secret = (gone, secret'')"
  shows "(result = Inr st \<longrightarrow> consent \<and> secret = None
        \<and> (generated = Inr ca \<longrightarrow> secret' = Some (print ca) \<and> st = status_from ca
            \<and> ca_current_status parse Done secret' = Inr st
            \<and> certificate_pem parse Done secret' = Inr (sc_certificate ca)
            \<and> fst (ca_generate parse print True Done generated saving secret') = Inl CaExists))
    \<and> (result = Inl e \<longrightarrow> secret' = secret)
    \<and> (gone = Inr st \<longrightarrow> confirmed \<and> st = absent \<and> secret'' = None
        \<and> ca_current_status parse Done secret'' = Inr absent)
    \<and> (gone = Inl e \<longrightarrow> secret'' = secret)"
  using assms
  by (auto simp: ca_generate_def ca_load_def ca_remove_def ca_current_status_def certificate_pem_def
      and_then_def split: if_splits store_answer.splits option.splits sum.splits)

lemma ca_lifecycle_witness:
  "certificate_pem sample_parse Done
     (snd (ca_generate sample_parse (\<lambda>_. ''stored'') True Done (Inr sample_ca) Done None)) = Inr ''pem''"
proof -
  have p: "sample_parse ((\<lambda>_. ''stored'') sample_ca) = Some sample_ca" by (simp add: sample_parse_def)
  have g: "ca_generate sample_parse (\<lambda>_. ''stored'') True Done (Inr sample_ca) Done None
      = (Inr (status_from sample_ca), Some ''stored'')"
    by (simp add: ca_generate_def ca_load_def)
  have r: "ca_remove True Done None = (Inr absent, None)" by (simp add: ca_remove_def)
  from ca_lifecycle [OF p g r, of "status_from sample_ca" CaExists] g show ?thesis
    by (simp add: sample_ca_def)
qed

end
