(* ===== verification/Redaction.thy ===== *)
theory Redaction
  imports Policy
begin

text \<open>
  Redaction of JSON request bodies (\<open>crates/engine/src/proxy/bodies.rs\<close>, \<open>redact_json\<close>,
  \<open>compile_redaction_paths\<close>, \<open>decode_pointer_segment\<close>, \<open>redact_path\<close>): the built-in policy on
  sensitive keys and the configured JSON Pointers.

  A document is the \<open>serde_json::Value\<close> the code matches on; the members of an object are kept
  in iteration order. \<open>char::to_lowercase\<close> of a non-ASCII character comes from the Unicode
  tables: it is the parameter \<open>lower\<close>, applied to the UTF-8 form of the character.
\<close>

datatype json =
    JNull
  | JBool bool
  | JNumber string
  | JString string
  | JArray "json list"
  | JObject "(string \<times> json) list"

definition redacted :: json where
  "redacted = JString ''[REDACTED]''"

section \<open>The built-in policy\<close>

definition char_to_lowercase :: "(string \<Rightarrow> string) \<Rightarrow> string \<Rightarrow> string" where
  "char_to_lowercase lower g = (case g of [c] \<Rightarrow> [to_lower c] | _ \<Rightarrow> lower g)"

definition normalize_key :: "(string \<Rightarrow> string) \<Rightarrow> string \<Rightarrow> string" where
  "normalize_key lower key =
     concat (map (char_to_lowercase lower)
       (filter (\<lambda>g. g \<notin> {''-'', ''_'', ''.''}) (utf8_chars key)))"

definition sensitive_keys :: "string list" where
  "sensitive_keys =
     [''authorization'', ''password'', ''passwd'', ''token'', ''accesstoken'',
      ''refreshtoken'', ''apikey'', ''secret'', ''clientsecret'', ''cookie'', ''session'']"

definition sensitive_key :: "(string \<Rightarrow> string) \<Rightarrow> string \<Rightarrow> bool" where
  "sensitive_key lower key \<longleftrightarrow> normalize_key lower key \<in> set sensitive_keys"

lemma size_member: "(k, v) \<in> set ms \<Longrightarrow> size v < Suc (size_list (size_prod (\<lambda>_. 0) size) ms)"
  by (induction ms) auto

function redact_json :: "(string \<Rightarrow> string) \<Rightarrow> json \<Rightarrow> json" where
  "redact_json lower (JObject ms) =
     JObject (map (\<lambda>(k, v). (k, if sensitive_key lower k then redacted else redact_json lower v)) ms)"
| "redact_json lower (JArray vs) = JArray (map (redact_json lower) vs)"
| "redact_json lower JNull = JNull"
| "redact_json lower (JBool b) = JBool b"
| "redact_json lower (JNumber n) = JNumber n"
| "redact_json lower (JString s) = JString s"
  by pat_completeness auto
termination
  by (relation "measure (\<lambda>(_, v). size v)")
     (auto dest: size_member simp: less_Suc_eq_le size_list_estimation')

section \<open>Configured paths\<close>

datatype redaction_path_error = TooManyPaths | NotAPointer | BadPointerEscape

fun decode_pointer_segment :: "string \<Rightarrow> redaction_path_error + string" where
  "decode_pointer_segment [] = Inr []"
| "decode_pointer_segment (c # cs) =
     (if c \<noteq> CHR ''~'' then and_then (decode_pointer_segment cs) (\<lambda>d. Inr (c # d))
      else case cs of
        [] \<Rightarrow> Inl BadPointerEscape
      | e # rest \<Rightarrow>
          (if e = CHR ''0'' then and_then (decode_pointer_segment rest) (\<lambda>d. Inr (CHR ''~'' # d))
           else if e = CHR ''1'' then and_then (decode_pointer_segment rest) (\<lambda>d. Inr (CHR ''/'' # d))
           else Inl BadPointerEscape))"

definition compile_path :: "string \<Rightarrow> redaction_path_error + string list" where
  "compile_path raw =
     (let path = str_trim raw in
      if 512 < length path \<or> \<not> prefix ''/'' path then Inl NotAPointer
      else collect_results decode_pointer_segment (split_on (CHR ''/'') (drop 1 path)))"

definition compile_redaction_paths ::
  "string list \<Rightarrow> redaction_path_error + string list list" where
  "compile_redaction_paths paths =
     (if 64 < length paths then Inl TooManyPaths
      else collect_results compile_path (filter (\<lambda>p. str_trim p \<noteq> []) paths))"

text \<open>\<open>str::parse::<usize>\<close>: an optional plus sign, digits, no overflow.\<close>

definition parse_usize :: "string \<Rightarrow> nat option" where
  "parse_usize s =
     (let d = (case s of [] \<Rightarrow> [] | c # cs \<Rightarrow> if c = CHR ''+'' then cs else s);
          v = foldl (\<lambda>a c. a * 10 + (byte_val c - 48)) 0 d
      in if d = [] \<or> \<not> list_all ascii_digit d \<or> 2 ^ 64 \<le> v then None else Some v)"

fun redact_path :: "string list \<Rightarrow> json \<Rightarrow> json" where
  "redact_path [] v = redacted"
| "redact_path (segment # remaining) (JObject ms) =
     (if segment = ''*'' then JObject (map (\<lambda>(k, v). (k, redact_path remaining v)) ms)
      else JObject (map (\<lambda>(k, v). (k, if k = segment then redact_path remaining v else v)) ms))"
| "redact_path (segment # remaining) (JArray vs) =
     (if segment = ''*'' then JArray (map (redact_path remaining) vs)
      else case parse_usize segment of
        None \<Rightarrow> JArray vs
      | Some index \<Rightarrow>
          (if index < length vs then JArray (vs[index := redact_path remaining (vs ! index)])
           else JArray vs))"
| "redact_path (segment # remaining) v = v"

text \<open>What \<open>store_redacted_json\<close> does to a document before it is written.\<close>

definition redact_document :: "(string \<Rightarrow> string) \<Rightarrow> string list list \<Rightarrow> json \<Rightarrow> json" where
  "redact_document lower paths v = fold redact_path paths (redact_json lower v)"

section \<open>Specification: the values a path selects\<close>

fun path_select :: "string list \<Rightarrow> json \<Rightarrow> json list" where
  "path_select [] v = [v]"
| "path_select (segment # remaining) (JObject ms) =
     concat (map (\<lambda>(k, v). if segment = ''*'' \<or> k = segment then path_select remaining v else []) ms)"
| "path_select (segment # remaining) (JArray vs) =
     (if segment = ''*'' then concat (map (path_select remaining) vs)
      else case parse_usize segment of
        None \<Rightarrow> []
      | Some index \<Rightarrow> if index < length vs then path_select remaining (vs ! index) else [])"
| "path_select (segment # remaining) v = []"

text \<open>No object, at any depth, holds anything but the marker under a sensitive key.\<close>

function clean :: "(string \<Rightarrow> string) \<Rightarrow> json \<Rightarrow> bool" where
  "clean lower (JObject ms) =
     list_all (\<lambda>(k, v). if sensitive_key lower k then v = redacted else clean lower v) ms"
| "clean lower (JArray vs) = list_all (clean lower) vs"
| "clean lower JNull = True"
| "clean lower (JBool b) = True"
| "clean lower (JNumber n) = True"
| "clean lower (JString s) = True"
  by pat_completeness auto
termination
  by (relation "measure (\<lambda>(_, v). size v)")
     (auto dest: size_member simp: less_Suc_eq_le size_list_estimation')

lemma redact_path_redacted [simp]: "redact_path p redacted = redacted"
  by (cases p) (simp_all add: redacted_def)

lemma redact_path_leaf:
  "redact_path q JNull = (if q = [] then redacted else JNull)"
  "redact_path q (JBool b) = (if q = [] then redacted else JBool b)"
  "redact_path q (JNumber n) = (if q = [] then redacted else JNumber n)"
  "redact_path q (JString s) = (if q = [] then redacted else JString s)"
  by (cases q; simp)+

lemma path_select_redacted [simp]: "path_select (s # p) redacted = []"
  by (simp add: redacted_def)

lemma clean_redacted [simp]: "clean lower redacted"
  by (simp add: redacted_def)

lemma clean_redact_json: "clean lower (redact_json lower v)"
  by (induction lower v rule: redact_json.induct) (auto simp: list_all_iff)

lemma clean_redact_path: "clean lower v \<Longrightarrow> clean lower (redact_path p v)"
proof (induction p v rule: redact_path.induct)
  case (2 segment remaining ms)
  then show ?case by (fastforce simp: list_all_iff split: if_splits)
next
  case (3 segment remaining vs)
  then show ?case
    by (auto simp: list_all_iff split: option.splits dest!: set_update_subset_insert [THEN subsetD])
qed auto

lemma path_select_redact_path: "v \<in> set (path_select p (redact_path p j)) \<Longrightarrow> v = redacted"
proof (induction p j rule: redact_path.induct)
  case (2 segment remaining ms)
  then show ?case by (fastforce split: if_splits)
next
  case (3 segment remaining vs)
  then show ?case by (auto split: if_splits option.splits)
qed auto

text \<open>One path step leaves an element of a container alone or goes on inside it.\<close>

lemma redact_path_JArray:
  "\<exists>vs'. redact_path (t # q) (JArray vs) = JArray vs' \<and> length vs' = length vs
     \<and> (\<forall>i < length vs. vs' ! i = vs ! i \<or> vs' ! i = redact_path q (vs ! i))"
  by (auto simp: nth_list_update split: option.splits)

lemma redact_path_JObject:
  "\<exists>f. redact_path (t # q) (JObject ms) = JObject (map (\<lambda>(k, v). (k, f k v)) ms)
     \<and> (\<forall>k v. f k v = v \<or> f k v = redact_path q v)"
proof (cases "t = ''*''")
  case True
  then show ?thesis by (intro exI [of _ "\<lambda>k v. redact_path q v"]) simp
next
  case False
  then show ?thesis by (intro exI [of _ "\<lambda>k v. if k = t then redact_path q v else v"]) simp
qed

text \<open>A later path never restores what an earlier one removed.\<close>

lemma path_select_stays_redacted:
  assumes "\<forall>v \<in> set (path_select p j). v = redacted"
  shows "\<forall>v \<in> set (path_select p (redact_path q j)). v = redacted"
  using assms
proof (induction p j arbitrary: q rule: path_select.induct)
  case (1 v)
  then show ?case by simp
next
  case (2 segment remaining ms)
  show ?case
  proof (cases q)
    case Nil
    then show ?thesis by (simp add: redacted_def)
  next
    case (Cons t q')
    obtain f where f: "redact_path q (JObject ms) = JObject (map (\<lambda>(k, v). (k, f k v)) ms)"
      and f_cases: "\<And>k v. f k v = v \<or> f k v = redact_path q' v"
      using redact_path_JObject [of t q' ms] Cons by auto
    have "\<forall>u \<in> set (path_select remaining (f k v)). u = redacted"
      if "(k, v) \<in> set ms" "segment = ''*'' \<or> k = segment" for k v
    proof -
      from "2.prems" that have *: "\<forall>u \<in> set (path_select remaining v). u = redacted" by force
      with "2.IH" [OF that(1) refl that(2)] f_cases [of k v] show ?thesis by metis
    qed
    with f show ?thesis by auto
  qed
next
  case (3 segment remaining vs)
  show ?case
  proof (cases q)
    case Nil
    then show ?thesis by (simp add: redacted_def)
  next
    case (Cons t q')
    obtain vs' where vs': "redact_path q (JArray vs) = JArray vs'" "length vs' = length vs"
      and vs'_cases: "\<And>i. i < length vs \<Longrightarrow> vs' ! i = vs ! i \<or> vs' ! i = redact_path q' (vs ! i)"
      using redact_path_JArray [of t q' vs] Cons by auto
    show ?thesis
    proof (cases "segment = ''*''")
      case True
      have "\<forall>u \<in> set (path_select remaining (vs' ! i)). u = redacted" if "i < length vs" for i
      proof -
        from "3.prems" True that have "\<forall>u \<in> set (path_select remaining (vs ! i)). u = redacted"
          by auto
        with "3.IH"(1) [OF True, of "vs ! i"] vs'_cases [OF that] that show ?thesis
          by (metis nth_mem)
      qed
      with True vs' show ?thesis by (auto simp: in_set_conv_nth [of _ vs'])
    next
      case False
      show ?thesis
      proof (cases "parse_usize segment")
        case None
        with False vs' show ?thesis by simp
      next
        case (Some i)
        with "3.prems" False have "i < length vs \<Longrightarrow>
            \<forall>u \<in> set (path_select remaining (vs ! i)). u = redacted" by simp
        with "3.IH"(2) [OF False Some] vs'_cases [of i] have "i < length vs \<Longrightarrow>
            \<forall>u \<in> set (path_select remaining (vs' ! i)). u = redacted" by metis
        with Some False vs' show ?thesis by simp
      qed
    qed
  qed
qed (auto simp: redact_path_leaf split: if_splits)

lemma fold_redact_path_clean: "clean lower v \<Longrightarrow> clean lower (fold redact_path ps v)"
  by (induction ps arbitrary: v) (auto simp: clean_redact_path)

lemma fold_redact_path_stays:
  "\<forall>v \<in> set (path_select p j). v = redacted \<Longrightarrow>
   \<forall>v \<in> set (path_select p (fold redact_path ps j)). v = redacted"
  by (induction ps arbitrary: j) (auto dest: path_select_stays_redacted)

lemma fold_redact_path_selects:
  "p \<in> set ps \<Longrightarrow> v \<in> set (path_select p (fold redact_path ps j)) \<Longrightarrow> v = redacted"
proof (induction ps arbitrary: j)
  case Nil
  then show ?case by simp
next
  case (Cons q ps)
  show ?case
  proof (cases "p = q")
    case True
    have "\<forall>v \<in> set (path_select q (redact_path q j)). v = redacted"
      by (blast dest: path_select_redact_path)
    from fold_redact_path_stays [OF this] Cons.prems True show ?thesis by simp
  next
    case False
    with Cons show ?thesis by simp
  qed
qed

section \<open>Nothing else changes\<close>

text \<open>
  A location names a member or an element at every level. A scalar stays as it was unless a
  key on the way to it is sensitive or a configured path addresses it or an ancestor.
\<close>

datatype location = Key string | Index nat

fun json_at :: "location list \<Rightarrow> json \<Rightarrow> json option" where
  "json_at [] v = Some v"
| "json_at (Key k # l) (JObject ms) =
     (case map_of ms k of None \<Rightarrow> None | Some v \<Rightarrow> json_at l v)"
| "json_at (Index i # l) (JArray vs) = (if i < length vs then json_at l (vs ! i) else None)"
| "json_at (x # l) v = None"

fun segment_names :: "string \<Rightarrow> location \<Rightarrow> bool" where
  "segment_names s (Key k) \<longleftrightarrow> s = ''*'' \<or> s = k"
| "segment_names s (Index i) \<longleftrightarrow> s = ''*'' \<or> parse_usize s = Some i"

fun path_covers :: "string list \<Rightarrow> location list \<Rightarrow> bool" where
  "path_covers [] l \<longleftrightarrow> True"
| "path_covers (s # p) [] \<longleftrightarrow> False"
| "path_covers (s # p) (x # l) \<longleftrightarrow> segment_names s x \<and> path_covers p l"

definition scalar :: "json \<Rightarrow> bool" where
  "scalar v \<longleftrightarrow> (case v of JArray _ \<Rightarrow> False | JObject _ \<Rightarrow> False | _ \<Rightarrow> True)"

definition crosses_sensitive :: "(string \<Rightarrow> string) \<Rightarrow> location list \<Rightarrow> bool" where
  "crosses_sensitive lower l \<longleftrightarrow>
     list_ex (\<lambda>x. case x of Key k \<Rightarrow> sensitive_key lower k | Index i \<Rightarrow> False) l"

lemma map_of_map_val: "map_of (map (\<lambda>(k, v). (k, f k v)) ms) k = map_option (f k) (map_of ms k)"
  by (induction ms) auto

lemma redact_json_scalar: "scalar v \<Longrightarrow> redact_json lower v = v"
  by (cases v) (auto simp: scalar_def)

lemma redact_json_frame:
  "json_at l v = Some u \<Longrightarrow> scalar u \<Longrightarrow> \<not> crosses_sensitive lower l
   \<Longrightarrow> json_at l (redact_json lower v) = Some u"
proof (induction l v rule: json_at.induct)
  case (1 v)
  then show ?case by (simp add: redact_json_scalar)
next
  case (2 k l ms)
  then show ?case
    by (auto simp: crosses_sensitive_def
        map_of_map_val [of "\<lambda>k v. if sensitive_key lower k then redacted else redact_json lower v"]
        split: option.splits)
next
  case (3 i l vs)
  then show ?case by (auto simp: crosses_sensitive_def split: if_splits)
qed auto

lemma redact_path_frame:
  "json_at l v = Some u \<Longrightarrow> scalar u \<Longrightarrow> \<not> path_covers p l \<Longrightarrow> json_at l (redact_path p v) = Some u"
proof (induction l v arbitrary: p rule: json_at.induct)
  case (1 v)
  then show ?case by (cases p; cases v) (auto simp: scalar_def)
next
  case (2 k l ms)
  then obtain v where v: "map_of ms k = Some v" "json_at l v = Some u" by (auto split: option.splits)
  from "2.prems" obtain s q where p: "p = s # q" by (cases p) auto
  have rec: "json_at l (redact_path q v) = Some u" if "s = ''*'' \<or> s = k"
    using "2.IH" [OF v(1) v(2)] "2.prems" p that by auto
  show ?case
  proof (cases "s = ''*''")
    case True
    with p v rec show ?thesis by (simp add: map_of_map_val [of "\<lambda>k v. redact_path q v"])
  next
    case False
    with p v rec show ?thesis
      by (simp add: map_of_map_val [of "\<lambda>k v. if k = s then redact_path q v else v"])
  qed
next
  case (3 i l vs)
  then have i: "i < length vs" "json_at l (vs ! i) = Some u" by (auto split: if_splits)
  from "3.prems" obtain s q where p: "p = s # q" by (cases p) auto
  have rec: "json_at l (redact_path q (vs ! i)) = Some u" if "s = ''*'' \<or> parse_usize s = Some i"
    using "3.IH" [OF i(1) i(2)] "3.prems" p that by auto
  show ?case
    using p i rec by (auto simp: nth_list_update split: option.splits)
qed auto

lemma fold_redact_path_frame:
  "json_at l v = Some u \<Longrightarrow> scalar u \<Longrightarrow> \<forall>p \<in> set ps. \<not> path_covers p l
   \<Longrightarrow> json_at l (fold redact_path ps v) = Some u"
  by (induction ps arbitrary: v) (auto simp: redact_path_frame)

section \<open>Pointer segments\<close>

text \<open>The escaping of RFC 6901: \<open>~0\<close> for a tilde and \<open>~1\<close> for a slash.\<close>

fun escape_pointer_segment :: "string \<Rightarrow> string" where
  "escape_pointer_segment [] = []"
| "escape_pointer_segment (c # cs) =
     (if c = CHR ''~'' then ''~0'' else if c = CHR ''/'' then ''~1'' else [c])
     @ escape_pointer_segment cs"

lemma decode_escape: "decode_pointer_segment (escape_pointer_segment s) = Inr s"
  by (induction s rule: escape_pointer_segment.induct) auto

lemma escape_decode:
  "decode_pointer_segment s = Inr d \<Longrightarrow> CHR ''/'' \<notin> set s \<Longrightarrow> escape_pointer_segment d = s"
proof (induction s arbitrary: d rule: decode_pointer_segment.induct)
  case 1
  then show ?case by simp
next
  case (2 c cs)
  show ?case
  proof (cases "c = CHR ''~''")
    case False
    with "2.prems" obtain d' where "decode_pointer_segment cs = Inr d'" and "d = c # d'"
      by (auto simp: result_simps)
    with "2.IH"(1) [OF False] False "2.prems"(2) show ?thesis by auto
  next
    case True
    with "2.prems"(1) obtain e rest d' where cs: "cs = e # rest"
      and d': "decode_pointer_segment rest = Inr d'"
      and e: "(e = CHR ''0'' \<and> d = CHR ''~'' # d') \<or> (e = CHR ''1'' \<and> d = CHR ''/'' # d')"
      by (auto simp: result_simps split: list.splits if_splits)
    from "2.prems"(2) cs have "CHR ''/'' \<notin> set rest" by simp
    moreover have "decode_pointer_segment rest = Inr d' \<Longrightarrow> CHR ''/'' \<notin> set rest
        \<Longrightarrow> escape_pointer_segment d' = rest"
      using e "2.IH"(2) [of e rest d'] "2.IH"(3) [of e rest d'] True cs by auto
    ultimately show ?thesis using True cs d' e by auto
  qed
qed

lemma collect_decode_escape:
  "collect_results decode_pointer_segment (map escape_pointer_segment segs) = Inr segs"
  by (induction segs) (simp_all add: decode_escape)

lemma escape_no_slash: "CHR ''/'' \<notin> set (escape_pointer_segment s)"
  by (induction s) auto

section \<open>Properties\<close>

text \<open>
  C24: the document written for inspection is clean: under a sensitive key, at any depth, stands
  nothing but the marker, and every value a configured path selects is the marker, whatever the
  other paths are and in whatever order they are applied.
\<close>

theorem redact_document_complete:
  "clean lower (redact_document lower paths v)
   \<and> (\<nexists>p u. p \<in> set paths \<and> u \<in> set (path_select p (redact_document lower paths v)) \<and> u \<noteq> redacted)"
  unfolding redact_document_def
  using fold_redact_path_clean [OF clean_redact_json] fold_redact_path_selects by blast

text \<open>
  C25: redaction removes nothing else: a scalar reached without crossing a sensitive key and
  covered by no configured path is written unchanged.
\<close>

theorem redact_document_frame:
  assumes "json_at l v = Some u" and "scalar u"
    and "\<not> crosses_sensitive lower l"
    and "\<forall>p \<in> set paths. \<not> path_covers p l"
  shows "json_at l (redact_document lower paths v) = Some u"
  unfolding redact_document_def
  using fold_redact_path_frame [OF redact_json_frame [OF assms(1-3)] assms(2,4)] .

theorem redact_document_frame_witness:
  "json_at [Key ''items'', Index 0, Key ''count'']
     (redact_document id [[''items'', ''*'', ''email'']]
       (JObject [(''api_key'', JString ''k''),
         (''items'', JArray [JObject [(''email'', JString ''e''), (''count'', JNumber ''3'')]])]))
   = Some (JNumber ''3'')"
  by (rule redact_document_frame) code_simp+

text \<open>
  Decoding a pointer segment inverts RFC 6901 escaping exactly: every text is the decoding
  of its escaped form, and a segment that decodes is the escaped form of its decoding.
\<close>

lemma pointer_segment_roundtrip:
  "decode_pointer_segment (escape_pointer_segment s) = Inr s
   \<and> (CHR ''/'' \<notin> set t \<longrightarrow>
        (decode_pointer_segment t = Inr d \<longleftrightarrow> t = escape_pointer_segment d))"
  using decode_escape escape_decode by metis

lemma pointer_segment_roundtrip_witness:
  "decode_pointer_segment ''card~1number'' = Inr ''card/number''"
proof -
  have "CHR ''/'' \<notin> set ''card~1number''" and "''card~1number'' = escape_pointer_segment ''card/number''"
    by code_simp+
  with pointer_segment_roundtrip [of _ "''card~1number''" "''card/number''"] show ?thesis by blast
qed

end
