(* ===== verification/Headers.thy ===== *)
theory Headers
  imports Policy Redaction
begin

text \<open>
  Header and target handling of the proxy (\<open>crates/engine/src/proxy.rs\<close>): what a capture shows of
  a request (\<open>safe_target\<close>, \<open>safe_headers\<close>), the removal of hop-by-hop headers, the headers of a
  replaced response, and the template a request leaves for replay.

  \<open>HeaderMap\<close> and \<open>HeaderValue\<close> belong to the \<open>http\<close> crate. Its operations are the fields of
  \<open>header_api\<close>, and \<open>headers_documented\<close> is what its documentation says of them: lookups are by
  lower-case name, removal takes every value of a name, insertion replaces them.
\<close>

record 'h header_api =
  hm_iter :: "'h \<Rightarrow> (string \<times> bytes) list"
  hm_get_all :: "'h \<Rightarrow> string \<Rightarrow> bytes list"
  hm_remove :: "string \<Rightarrow> 'h \<Rightarrow> 'h"
  hm_insert :: "string \<Rightarrow> bytes \<Rightarrow> 'h \<Rightarrow> 'h"
  hv_to_str :: "bytes \<Rightarrow> string option"

definition headers_documented :: "'h header_api \<Rightarrow> bool" where
  "headers_documented A \<longleftrightarrow>
     (\<forall>h n. map snd (filter (\<lambda>p. fst p = n) (hm_iter A h)) = hm_get_all A h n)
     \<and> (\<forall>n h m. hm_get_all A (hm_remove A n h) m
           = (if m = to_ascii_lowercase n then [] else hm_get_all A h m))
     \<and> (\<forall>n v h m. hm_get_all A (hm_insert A n v h) m
           = (if m = to_ascii_lowercase n then [v] else hm_get_all A h m))"

text \<open>Association lists as an instance, for concrete evaluation.\<close>

definition visible_str :: "bytes \<Rightarrow> string option" where
  "visible_str v =
     (if list_all (\<lambda>b. (32 \<le> byte_val b \<and> byte_val b < 127) \<or> byte_val b = 9) v then Some v
      else None)"

definition list_headers :: "(string \<times> bytes) list header_api" where
  "list_headers =
     \<lparr>hm_iter = id,
      hm_get_all = (\<lambda>h n. map snd (filter (\<lambda>p. fst p = n) h)),
      hm_remove = (\<lambda>n. filter (\<lambda>p. fst p \<noteq> to_ascii_lowercase n)),
      hm_insert = (\<lambda>n v h. filter (\<lambda>p. fst p \<noteq> to_ascii_lowercase n) h @ [(to_ascii_lowercase n, v)]),
      hv_to_str = visible_str\<rparr>"

lemma list_headers_documented: "headers_documented list_headers"
proof -
  have "filter (\<lambda>p. fst p = m) (filter (\<lambda>p. fst p \<noteq> n) h) = (if m = n then [] else filter (\<lambda>p. fst p = m) h)"
    for m n :: string and h :: "(string \<times> bytes) list"
    by (induction h) auto
  then show ?thesis by (simp add: headers_documented_def list_headers_def)
qed

definition contains_key :: "'h header_api \<Rightarrow> 'h \<Rightarrow> string \<Rightarrow> bool" where
  "contains_key A h n \<longleftrightarrow> hm_get_all A h n \<noteq> []"

definition header_get :: "'h header_api \<Rightarrow> 'h \<Rightarrow> string \<Rightarrow> bytes option" where
  "header_get A h n = (case hm_get_all A h n of [] \<Rightarrow> None | v # _ \<Rightarrow> Some v)"

lemma get_all_remove:
  "headers_documented A \<Longrightarrow>
   hm_get_all A (hm_remove A n h) m = (if m = to_ascii_lowercase n then [] else hm_get_all A h m)"
  by (simp add: headers_documented_def)

lemma get_all_insert:
  "headers_documented A \<Longrightarrow>
   hm_get_all A (hm_insert A n v h) m = (if m = to_ascii_lowercase n then [v] else hm_get_all A h m)"
  by (simp add: headers_documented_def)

lemma get_all_remove_list:
  "headers_documented A \<Longrightarrow>
   hm_get_all A (fold (hm_remove A) ns h) m
     = (if m \<in> to_ascii_lowercase ` set ns then [] else hm_get_all A h m)"
  by (induction ns arbitrary: h) (auto simp: get_all_remove)

section \<open>Hop-by-hop headers\<close>

definition hop_headers :: "string list" where
  "hop_headers =
     [''connection'', ''proxy-connection'', ''keep-alive'', ''proxy-authenticate'',
      ''proxy-authorization'', ''te'', ''trailer'', ''transfer-encoding'', ''upgrade'']"

definition nominated :: "'h header_api \<Rightarrow> 'h \<Rightarrow> string list" where
  "nominated A h =
     concat (map (\<lambda>v. map str_trim (split_on (CHR '','') v))
       (List.map_filter (hv_to_str A) (hm_get_all A h ''connection'')))"

definition strip_hop_headers :: "'h header_api \<Rightarrow> 'h \<Rightarrow> 'h" where
  "strip_hop_headers A h =
     fold (hm_remove A) hop_headers (fold (hm_remove A) (nominated A h) h)"

definition stripped_name :: "'h header_api \<Rightarrow> 'h \<Rightarrow> string \<Rightarrow> bool" where
  "stripped_name A h n \<longleftrightarrow> n \<in> set hop_headers \<union> to_ascii_lowercase ` set (nominated A h)"

lemma lower_fixed:
  "list_all (\<lambda>c. \<not> ascii_upper c) s \<Longrightarrow> to_ascii_lowercase s = s"
  by (simp add: to_ascii_lowercase_def list_all_iff map_idI to_lower_fixed)

lemma lower_hop_headers: "to_ascii_lowercase ` set hop_headers = set hop_headers"
  by code_simp

lemma get_all_strip:
  "headers_documented A \<Longrightarrow>
   hm_get_all A (strip_hop_headers A h) m
     = (if stripped_name A h m then [] else hm_get_all A h m)"
  by (simp add: strip_hop_headers_def get_all_remove_list lower_hop_headers stripped_name_def)

section \<open>What a capture shows\<close>

definition shown_headers :: "string list" where
  "shown_headers =
     [''content-type'', ''content-length'', ''accept'', ''accept-encoding'', ''content-encoding'',
      ''cache-control'', ''connection'', ''transfer-encoding'']"

definition redacted_text :: string where
  "redacted_text = ''[REDACTED]''"

definition safe_headers :: "'h header_api \<Rightarrow> 'h \<Rightarrow> (string \<times> string) list" where
  "safe_headers A h =
     map (\<lambda>(name, value).
         (take_chars 128 name,
          if name \<in> set shown_headers
          then take_chars 256 (case hv_to_str A value of None \<Rightarrow> ''[binary]'' | Some s \<Rightarrow> s)
          else redacted_text))
       (take 48 (hm_iter A h))"

text \<open>The parsed request target: the accessors of \<open>hyper::Uri\<close>.\<close>

record uri =
  u_scheme :: "string option"
  u_authority :: "string option"
  u_host :: "string option"
  u_port :: "nat option"
  u_path :: string
  u_query :: "string option"
  u_path_and_query :: "string option"

definition after_at :: "string \<Rightarrow> string" where
  "after_at a = last (split_on (CHR ''@'') a)"

definition query_mark :: "uri \<Rightarrow> string" where
  "query_mark u = (if u_query u \<noteq> None then ''?[REDACTED]'' else '''')"

definition safe_target :: "string \<Rightarrow> uri \<Rightarrow> string" where
  "safe_target method u =
     (let host = after_at (case u_authority u of None \<Rightarrow> ''invalid-target'' | Some a \<Rightarrow> a) in
      if method = ''CONNECT'' then take_chars 256 host
      else take_chars 256 host @ take_chars 1024 (u_path u) @ query_mark u)"

record 'h request =
  rq_method :: string
  rq_uri :: uri
  rq_headers :: 'h
  rq_end_stream :: bool

section \<open>Replay templates\<close>

definition internal_replay_header :: string where
  "internal_replay_header = ''x-sippin-internal-replay''"

record 'h replay_template =
  rt_method :: string
  rt_uri :: uri
  rt_headers :: 'h

definition replay_removed :: "string list" where
  "replay_removed =
     [''host'', ''authorization'', ''cookie'', ''x-api-key'', ''content-length'',
      internal_replay_header]"

definition replay_template_for :: "'h header_api \<Rightarrow> 'h request \<Rightarrow> 'h replay_template option" where
  "replay_template_for A request =
     (if rq_method request \<notin> {''GET'', ''HEAD''} \<or> \<not> rq_end_stream request
         \<or> u_scheme (rq_uri request) \<noteq> Some ''http'' \<or> u_authority (rq_uri request) = None
      then None
      else Some \<lparr>rt_method = rq_method request, rt_uri = rq_uri request,
                 rt_headers = fold (hm_remove A) replay_removed
                                (strip_hop_headers A (rq_headers request))\<rparr>)"

section \<open>The head of a replaced response\<close>

text \<open>\<open>usize::to_string\<close>.\<close>

function decimal :: "nat \<Rightarrow> string" where
  "decimal n = (if n < 10 then [char_of (48 + n)] else decimal (n div 10) @ [char_of (48 + n mod 10)])"
  by pat_completeness auto
termination by (relation "measure id") auto

declare decimal.simps [simp del]

definition body_headers :: "string list" where
  "body_headers = [''content-encoding'', ''content-range'', ''etag'', ''content-md5'', ''accept-ranges'']"

definition replacement_head ::
  "'h header_api \<Rightarrow> bool \<Rightarrow> nat \<Rightarrow> bytes \<Rightarrow> 'h \<Rightarrow> 'h" where
  "replacement_head A http2 len content_type h =
     (let h1 = fold (hm_remove A) body_headers (strip_hop_headers A h);
          h2 = hm_insert A ''content-type'' content_type
                 (hm_insert A ''content-length'' (decimal len) h1)
      in if http2 then h2 else hm_insert A ''connection'' ''close'' h2)"

section \<open>Facts the properties use\<close>

lemma lower_internal: "to_ascii_lowercase ` set replay_removed = set replay_removed"
  by code_simp

lemma lower_body_headers: "to_ascii_lowercase ` set body_headers = set body_headers"
  by code_simp

lemma lower_inserted:
  "to_ascii_lowercase ''content-type'' = ''content-type''"
  "to_ascii_lowercase ''content-length'' = ''content-length''"
  "to_ascii_lowercase ''connection'' = ''connection''"
  by code_simp+

lemma inserted_distinct:
  "''content-type'' \<notin> set body_headers" "''content-length'' \<notin> set body_headers"
  "''connection'' \<in> set hop_headers"
  by code_simp+

lemma digit_value: "d < 10 \<Longrightarrow> byte_val (char_of (48 + d) :: char) - 48 = d \<and> ascii_digit (char_of (48 + d))"
  by (simp add: ascii_digit_def)

lemma decimal_digits: "list_all ascii_digit (decimal n) \<and> decimal n \<noteq> []"
proof (induction n rule: decimal.induct)
  case (1 n)
  then show ?case
    by (cases "n < 10") (simp_all add: decimal.simps [of n] digit_value)
qed

lemma decimal_value: "foldl (\<lambda>a c. a * 10 + (byte_val c - 48)) 0 (decimal n) = n"
proof (induction n rule: decimal.induct)
  case (1 n)
  show ?case
  proof (cases "n < 10")
    case True
    then show ?thesis by (simp add: decimal.simps [of n] digit_value)
  next
    case False
    with 1 show ?thesis by (simp add: decimal.simps [of n] digit_value)
  qed
qed

lemma parse_decimal: "n < 2 ^ 64 \<Longrightarrow> parse_usize (decimal n) = Some n"
proof -
  assume n: "n < 2 ^ 64"
  obtain c cs where d: "decimal n = c # cs" using decimal_digits [of n] by (cases "decimal n") auto
  with decimal_digits [of n] have "c \<noteq> CHR ''+''" by (auto simp: ascii_digit_def byte_val_def)
  with d n decimal_digits [of n] decimal_value [of n] show ?thesis
    by (auto simp: parse_usize_def Let_def)
qed

section \<open>Properties\<close>

text \<open>
  The headers forwarded by the proxy are the received ones without the hop-by-hop headers:
  the fixed list and every name nominated in any \<open>Connection\<close> value, whatever its letter case,
  have no value left, and every other header keeps all its values.
\<close>

lemma strip_hop_headers_exact:
  assumes "headers_documented A"
  shows "hm_get_all A (strip_hop_headers A h) m
    = (if m \<in> set hop_headers \<or> m \<in> to_ascii_lowercase ` set (nominated A h) then []
       else hm_get_all A h m)"
  using get_all_strip [OF assms, of h m] by (simp add: stripped_name_def)

lemma strip_hop_headers_exact_witness:
  "hm_get_all list_headers (strip_hop_headers list_headers
     [(''connection'', ''close, X-Debug''), (''x-debug'', ''1''), (''accept'', ''*'')]) ''x-debug'' = []"
proof -
  have "''x-debug'' \<in> to_ascii_lowercase ` set (nominated list_headers
     [(''connection'', ''close, X-Debug''), (''x-debug'', ''1''), (''accept'', ''*'')])"
    by code_simp
  then show ?thesis by (simp only: strip_hop_headers_exact [OF list_headers_documented] simp_thms if_True)
qed

text \<open>
  A capture shows a bounded projection of the headers that hides values by default: two
  header maps with the same names and the same values under the eight shown names give the
  same capture, so it carries no information on any other value; at most 48 headers are kept.
\<close>

lemma safe_headers_hide_values:
  assumes "list_all2 (\<lambda>(n, v) (n', v'). n = n' \<and> (n \<in> set shown_headers \<longrightarrow> v = v'))
             (hm_iter A h) (hm_iter A h')"
  shows "safe_headers A h = safe_headers A h' \<and> length (safe_headers A h) \<le> 48"
proof -
  have "list_all2 (\<lambda>(n, v) (n', v'). n = n' \<and> (n \<in> set shown_headers \<longrightarrow> v = v'))
      (take 48 (hm_iter A h)) (take 48 (hm_iter A h'))"
    using assms by (rule list_all2_takeI)
  then have "safe_headers A h = safe_headers A h'"
    unfolding safe_headers_def by (induction rule: list_all2_induct) auto
  then show ?thesis by (simp add: safe_headers_def)
qed

lemma safe_headers_hide_values_witness:
  "safe_headers list_headers [(''accept'', ''*''), (''authorization'', ''Basic secret'')]
   = safe_headers list_headers [(''accept'', ''*''), (''authorization'', ''none'')]"
  using safe_headers_hide_values [of list_headers
      "[(''accept'', ''*''), (''authorization'', ''Basic secret'')]"
      "[(''accept'', ''*''), (''authorization'', ''none'')]"]
  by (simp add: list_headers_def shown_headers_def)

text \<open>
  A captured target never shows the query or the user information of a URL: only whether
  there is a query, and the part of the authority after the last \<open>@\<close>, can change it.
\<close>

lemma safe_target_hides_secrets:
  assumes "CHR ''@'' \<notin> set host"
    and "u_authority u = Some (userinfo @ ''@'' @ host)" and "u_authority u' = Some host"
    and "u_path u = u_path u'" and "(u_query u = None) = (u_query u' = None)"
  shows "safe_target method u = safe_target method u'"
proof -
  have "last (split_on (CHR ''@'') (a @ CHR ''@'' # host)) = host" for a
    using assms(1) by (simp add: split_on_sep split_on_no_sep)
  moreover have "after_at host = host" using assms(1) by (simp add: after_at_def split_on_no_sep)
  ultimately show ?thesis using assms by (simp add: safe_target_def after_at_def query_mark_def Let_def)
qed

definition sample_uri :: "string \<Rightarrow> string option \<Rightarrow> uri" where
  "sample_uri authority query =
     \<lparr>u_scheme = Some ''http'', u_authority = Some authority, u_host = Some ''a.test'', u_port = None,
      u_path = ''/p'', u_query = query, u_path_and_query = Some ''/p''\<rparr>"

lemma safe_target_hides_secrets_witness:
  "safe_target ''GET'' (sample_uri ''user:pw@a.test'' (Some ''token=1''))
   = safe_target ''GET'' (sample_uri ''a.test'' (Some ''x''))"
  by (rule safe_target_hides_secrets [of "''a.test''" _ "''user:pw''"]) (simp_all add: sample_uri_def)

text \<open>
  A request leaves a replay template only if it is a GET or HEAD without a body to an
  absolute \<open>http\<close> target, and the template carries no credential, no host, no length, no
  internal token and no hop-by-hop header; every other header is the request's.
\<close>

lemma replay_template_sanitized:
  assumes "headers_documented A" and "replay_template_for A request = Some t"
  shows "rt_method t = rq_method request \<and> rq_method request \<in> {''GET'', ''HEAD''}
    \<and> rq_end_stream request \<and> u_scheme (rt_uri t) = Some ''http'' \<and> u_authority (rt_uri t) \<noteq> None
    \<and> hm_get_all A (rt_headers t) m
      = (if m \<in> set replay_removed \<or> stripped_name A (rq_headers request) m then []
         else hm_get_all A (rq_headers request) m)"
  using assms(2)
  by (auto simp: replay_template_for_def get_all_remove_list [OF assms(1)] get_all_strip [OF assms(1)]
      lower_internal split: if_splits)

lemma replay_template_sanitized_witness:
  "\<exists>t. replay_template_for list_headers
       \<lparr>rq_method = ''GET'', rq_uri = sample_uri ''a.test'' None,
        rq_headers = [(''cookie'', ''sid=1''), (''accept'', ''*'')], rq_end_stream = True\<rparr> = Some t
     \<and> hm_get_all list_headers (rt_headers t) ''cookie'' = []"
proof -
  let ?r = "\<lparr>rq_method = ''GET'', rq_uri = sample_uri ''a.test'' None,
        rq_headers = [(''cookie'', ''sid=1''), (''accept'', ''*'')], rq_end_stream = True\<rparr>"
  obtain t where t: "replay_template_for list_headers ?r = Some t"
    by (simp add: replay_template_for_def sample_uri_def)
  moreover have "''cookie'' \<in> set replay_removed" by code_simp
  ultimately show ?thesis
    using replay_template_sanitized [OF list_headers_documented t, of "''cookie''"] by auto
qed

text \<open>
  A replaced response is framed by its own body. Its only length is the decimal length of
  the replacement (which reads back as that number), its only type the replacement's, no
  encoding, range or validator of the original survives, HTTP/1 closes the connection, and all
  headers that are neither hop-by-hop nor about the body are kept.
\<close>

lemma replacement_head_frames_body:
  assumes "headers_documented A" and "len < 2 ^ 64"
  shows "map parse_usize (hm_get_all A (replacement_head A http2 len ct h) ''content-length'') = [Some len]
    \<and> hm_get_all A (replacement_head A http2 len ct h) ''content-type'' = [ct]
    \<and> hm_get_all A (replacement_head A http2 len ct h) ''connection'' = (if http2 then [] else [''close''])
    \<and> (m \<notin> {''content-length'', ''content-type'', ''connection''} \<longrightarrow>
         hm_get_all A (replacement_head A http2 len ct h) m
           = (if m \<in> set body_headers \<or> stripped_name A h m then [] else hm_get_all A h m))"
proof -
  have strip: "stripped_name A h ''connection''"
    using inserted_distinct(3) by (simp add: stripped_name_def)
  have get: "hm_get_all A (replacement_head A http2 len ct h) n
      = (if n = ''connection'' \<and> \<not> http2 then [''close'']
         else if n = ''content-type'' then [ct]
         else if n = ''content-length'' then [decimal len]
         else if n \<in> set body_headers \<or> stripped_name A h n then [] else hm_get_all A h n)" for n
    by (simp add: replacement_head_def Let_def get_all_insert [OF assms(1)]
        get_all_remove_list [OF assms(1)] get_all_strip [OF assms(1)] lower_inserted
        lower_body_headers)
  show ?thesis unfolding get using strip parse_decimal [OF assms(2)] by simp
qed

lemma replacement_head_frames_body_witness:
  "hm_get_all list_headers (replacement_head list_headers False 12 ''text/plain''
     [(''etag'', ''x''), (''content-length'', ''99''), (''server'', ''s'')]) ''content-type''
   = [''text/plain'']"
  using replacement_head_frames_body [OF list_headers_documented, of 12] by simp

end
