(* ===== verification/Client_Auth.thy ===== *)
theory Client_Auth
  imports Headers
begin

text \<open>
  Client profiles and proxy authentication (\<open>TlsClientIdentity\<close> in
  \<open>crates/engine/src/tls_intercept.rs\<close>, \<open>ProxyClientAuth\<close> in \<open>crates/engine/src/proxy.rs\<close>).
  SHA-256 and base64 are third-party functions, the parameters \<open>sha\<close> and \<open>b64\<close>; the
  constant-time comparison is equality.
\<close>

definition profile_char :: "char \<Rightarrow> bool" where
  "profile_char b \<longleftrightarrow> ascii_alnum b \<or> b = CHR ''-'' \<or> b = CHR ''_''"

datatype profile_error = BadProfileId | BadProfileName | BadToken

record client_identity =
  ci_id :: string
  ci_name :: string

definition validate_id :: "string \<Rightarrow> profile_error + string" where
  "validate_id text =
     (let i = str_trim text in
      if i = [] \<or> 64 < length i \<or> \<not> list_all profile_char i then Inl BadProfileId else Inr i)"

definition new_client_identity :: "string \<Rightarrow> string \<Rightarrow> profile_error + client_identity" where
  "new_client_identity text name =
     and_then (validate_id text) (\<lambda>i.
       let n = str_trim name in
       if n = [] \<or> 80 < length (utf8_chars n) \<or> list_ex is_control (utf8_chars n)
       then Inl BadProfileName
       else Inr \<lparr>ci_id = i, ci_name = n\<rparr>)"

record client_auth =
  auth_profile_id :: string
  auth_token_sha256 :: bytes

definition new_client_auth ::
  "(bytes \<Rightarrow> bytes) \<Rightarrow> string \<Rightarrow> string \<Rightarrow> profile_error + client_auth" where
  "new_client_auth sha profile token =
     and_then (validate_id profile) (\<lambda>i.
       if length token < 32 \<or> 128 < length token \<or> \<not> list_all profile_char token then Inl BadToken
       else Inr \<lparr>auth_profile_id = i, auth_token_sha256 = sha token\<rparr>)"

text \<open>The credentials of a header value, or \<open>None\<close> where \<open>accepts\<close> returns early.\<close>

definition basic_credentials :: "(string \<Rightarrow> bytes option) \<Rightarrow> string \<Rightarrow> (bytes \<times> bytes) option" where
  "basic_credentials b64 value =
     (case split_once (CHR '' '') value of
        None \<Rightarrow> None
      | Some (scheme, encoded) \<Rightarrow>
          if \<not> eq_ignore_ascii_case scheme ''basic'' then None
          else Option.bind (b64 (str_trim encoded)) (split_once (CHR '':'')))"

definition accepts ::
  "'h header_api \<Rightarrow> (bytes \<Rightarrow> bytes) \<Rightarrow> (string \<Rightarrow> bytes option) \<Rightarrow> client_auth \<Rightarrow> 'h \<Rightarrow> bool" where
  "accepts A sha b64 auth h =
     (case Option.bind (header_get A h ''proxy-authorization'') (hv_to_str A) of
        None \<Rightarrow> False
      | Some value \<Rightarrow>
          (case basic_credentials b64 value of
             None \<Rightarrow> False
           | Some (profile, token) \<Rightarrow>
               profile = auth_profile_id auth \<and> sha token = auth_token_sha256 auth))"

section \<open>Properties\<close>

lemma validate_id_Inr:
  assumes "validate_id t = Inr i"
  shows "i = str_trim t" and "i \<noteq> []" and "length i \<le> 64" and "list_all profile_char i"
  using assms by (auto simp: validate_id_def Let_def split: if_splits)

lemma profile_char_no_colon: "list_all profile_char s \<Longrightarrow> CHR '':'' \<notin> set s"
  by (auto simp: list_all_iff profile_char_def ascii_alnum_def ascii_digit_def ascii_upper_def
      ascii_lower_def byte_val_def)

text \<open>
  The authentication of a configured client accepts a header exactly when it is Basic,
  decodes, and consists of the configured profile id, a colon and a token with the configured
  digest. The id cannot contain the colon, so the split is never ambiguous and the right
  credentials are never refused.
\<close>

lemma accepts_exactly_credentials:
  assumes "new_client_auth sha profile token = Inr auth"
    and "header_get A h ''proxy-authorization'' = Some raw" and "hv_to_str A raw = Some (scheme @ '' '' @ encoded)"
    and "CHR '' '' \<notin> set scheme"
  shows "accepts A sha b64 auth h \<longleftrightarrow>
    eq_ignore_ascii_case scheme ''basic''
    \<and> (\<exists>presented. b64 (str_trim encoded) = Some (auth_profile_id auth @ '':'' @ presented)
         \<and> sha presented = sha token)"
proof -
  from assms(1) have i: "list_all profile_char (auth_profile_id auth)"
    and d: "auth_token_sha256 auth = sha token"
    by (auto simp: new_client_auth_def result_simps dest: validate_id_Inr(4) split: if_splits)
  have split: "split_once (CHR '' '') (scheme @ '' '' @ encoded) = Some (scheme, encoded)"
    using assms(4) by (simp add: split_once_Some)
  have creds: "split_once (CHR '':'') d = Some (auth_profile_id auth, t)
      \<longleftrightarrow> d = auth_profile_id auth @ '':'' @ t" for d t
    using profile_char_no_colon [OF i] by (auto simp: split_once_Some)
  have acc: "accepts A sha b64 auth h \<longleftrightarrow> eq_ignore_ascii_case scheme ''basic''
      \<and> (\<exists>d p. b64 (str_trim encoded) = Some d \<and> split_once (CHR '':'') d = Some (auth_profile_id auth, p)
           \<and> sha p = sha token)"
    unfolding accepts_def assms(2) bind.bind_lunit assms(3) option.case basic_credentials_def split prod.case
    using d by (auto simp: bind_eq_Some_conv split: option.splits)
  show ?thesis unfolding acc creds by auto
qed

lemma accepts_exactly_credentials_witness:
  "accepts list_headers id (\<lambda>e. if e = ''QQ=='' then Some (''dev:'' @ replicate 32 CHR ''t'') else None)
     \<lparr>auth_profile_id = ''dev'', auth_token_sha256 = replicate 32 CHR ''t''\<rparr>
     [(''proxy-authorization'', ''BASIC QQ=='')]"
proof -
  have a: "new_client_auth id ''dev'' (replicate 32 CHR ''t'')
      = Inr \<lparr>auth_profile_id = ''dev'', auth_token_sha256 = replicate 32 CHR ''t''\<rparr>" by code_simp
  have h: "header_get list_headers [(''proxy-authorization'', ''BASIC QQ=='')] ''proxy-authorization''
      = Some ''BASIC QQ==''" by code_simp
  have s: "hv_to_str list_headers ''BASIC QQ=='' = Some (''BASIC'' @ '' '' @ ''QQ=='')" by code_simp
  have b: "eq_ignore_ascii_case ''BASIC'' ''basic''" by code_simp
  have t: "str_trim ''QQ=='' = ''QQ==''" by code_simp
  have n: "CHR '' '' \<notin> set ''BASIC''" by simp
  from accepts_exactly_credentials [OF a h s n] b t show ?thesis by simp
qed

text \<open>Without a readable header nothing is accepted; what is configured is bounded.\<close>

lemma client_auth_bounds:
  assumes "new_client_auth sha profile token = Inr auth"
  shows "auth_profile_id auth = str_trim profile \<and> auth_profile_id auth \<noteq> []
    \<and> length (auth_profile_id auth) \<le> 64 \<and> list_all profile_char (auth_profile_id auth)
    \<and> 32 \<le> length token \<and> length token \<le> 128 \<and> list_all profile_char token
    \<and> (Option.bind (header_get A h ''proxy-authorization'') (hv_to_str A) = None
        \<longrightarrow> \<not> accepts A sha b64 auth h)"
  using assms
  by (auto simp: new_client_auth_def result_simps accepts_def dest: validate_id_Inr split: if_splits)

end
