(* ===== verification/Tls_Gate.thy ===== *)
theory Tls_Gate
  imports Ca Client_Auth
begin

text \<open>
  The gate in front of HTTPS inspection and the negotiation of verified TLS connections
  (\<open>crates/engine/src/tls_intercept.rs\<close>). A gate holds the opt-in and the proof that one client
  accepted a leaf of the current authority; its readiness is computed from the authority's
  status, the client's profile and the clock (milliseconds). Handshakes belong to \<open>rustls\<close>: what
  they answer is an argument.
\<close>

section \<open>The gate\<close>

datatype readiness_state =
    Disabled | MissingCa | ExpiredCa | ClientTrustUnverified | ClientMismatch | Ready

record trust_proof =
  tp_issuer :: string
  tp_host :: string
  tp_client :: client_identity
  tp_expires_at :: nat

record gate =
  opted_in :: bool
  trust_proof :: "trust_proof option"

definition default_gate :: gate where
  "default_gate = \<lparr>opted_in = False, trust_proof = None\<rparr>"

record readiness =
  rd_state :: readiness_state
  can_inspect_development :: bool
  verified_host :: "string option"
  verified_client :: "client_identity option"
  proof_expires_at :: "nat option"

datatype inspection_denied = NotReady readiness_state | Denied_Production | Denied_Unclassified

datatype trust_error =
    InspectionDisabled | InvalidTrustLeaf | TrustTimeout | ClientRejectedCertificate

definition set_opt_in :: "bool \<Rightarrow> gate \<Rightarrow> gate" where
  "set_opt_in enabled g =
     \<lparr>opted_in = enabled, trust_proof = (if opted_in g \<noteq> enabled then None else trust_proof g)\<rparr>"

text \<open>What the downstream handshake with a certificate of the leaf answers.\<close>

datatype handshake = Leaf_Invalid | Handshake_Elapsed | Handshake_Failed | Handshake_Done

definition client_trust_handshake ::
  "issued_leaf \<Rightarrow> client_identity \<Rightarrow> handshake \<Rightarrow> trust_error + trust_proof" where
  "client_trust_handshake leaf identity answer =
     (case answer of
        Leaf_Invalid \<Rightarrow> Inl InvalidTrustLeaf
      | Handshake_Elapsed \<Rightarrow> Inl TrustTimeout
      | Handshake_Failed \<Rightarrow> Inl ClientRejectedCertificate
      | Handshake_Done \<Rightarrow>
          Inr \<lparr>tp_issuer = il_issuer leaf, tp_host = il_host leaf, tp_client = identity,
               tp_expires_at = il_expires_at leaf\<rparr>)"

definition verify_client_trust ::
  "issued_leaf \<Rightarrow> client_identity \<Rightarrow> handshake \<Rightarrow> gate \<Rightarrow> (trust_error + unit) \<times> gate" where
  "verify_client_trust leaf identity answer g =
     (if \<not> opted_in g then (Inl InspectionDisabled, g)
      else case client_trust_handshake leaf identity answer of
        Inl e \<Rightarrow> (Inl e, g\<lparr>trust_proof := None\<rparr>)
      | Inr p \<Rightarrow> (Inr (), g\<lparr>trust_proof := Some p\<rparr>))"

definition ready_state :: "gate \<Rightarrow> ca_status \<Rightarrow> string \<Rightarrow> nat \<Rightarrow> readiness_state" where
  "ready_state g ca client now =
     (if \<not> opted_in g then Disabled
      else if ca_state ca \<noteq> ''ready'' \<or> ca_fingerprint ca = None \<or> ca_expires_at ca = None
      then MissingCa
      else if (case ca_expires_at ca of None \<Rightarrow> False | Some expires \<Rightarrow> expires \<le> now) then ExpiredCa
      else if (case trust_proof g of
                 None \<Rightarrow> True
               | Some p \<Rightarrow> Some (tp_issuer p) \<noteq> ca_fingerprint ca \<or> tp_expires_at p \<le> now)
      then ClientTrustUnverified
      else if (case trust_proof g of None \<Rightarrow> False | Some p \<Rightarrow> ci_id (tp_client p) \<noteq> client)
      then ClientMismatch
      else Ready)"

definition readiness_at :: "gate \<Rightarrow> ca_status \<Rightarrow> string \<Rightarrow> nat \<Rightarrow> readiness" where
  "readiness_at g ca client now =
     (let state = ready_state g ca client now;
          p = (if state = Ready then trust_proof g else None)
      in \<lparr>rd_state = state, can_inspect_development = (state = Ready),
          verified_host = map_option tp_host p, verified_client = map_option tp_client p,
          proof_expires_at = map_option tp_expires_at p\<rparr>)"

definition gate_authorize ::
  "gate \<Rightarrow> ca_status \<Rightarrow> string \<Rightarrow> destination_class \<Rightarrow> nat \<Rightarrow> inspection_denied + unit" where
  "gate_authorize g ca client destination now =
     (let r = readiness_at g ca client now in
      if rd_state r \<noteq> Ready then Inl (NotReady (rd_state r))
      else map_error (\<lambda>e. case e of ProductionReadOnly \<Rightarrow> Denied_Production
                                  | DestinationUnclassified \<Rightarrow> Denied_Unclassified)
             (authorize destination InspectTls))"

lemma ready_state_Ready:
  "ready_state g ca client now = Ready \<longleftrightarrow>
     opted_in g \<and> ca_state ca = ''ready''
     \<and> (\<exists>p expires. trust_proof g = Some p \<and> ca_fingerprint ca = Some (tp_issuer p)
          \<and> ca_expires_at ca = Some expires \<and> now < expires \<and> now < tp_expires_at p
          \<and> ci_id (tp_client p) = client)"
  by (auto simp: ready_state_def not_le split: option.splits if_splits)


section \<open>Verified TLS connections\<close>

datatype tls_error =
    InvalidUpstreamName | InvalidLeafMaterial | HandshakeTimeout | DownstreamHandshake
  | UpstreamVerification | UnsupportedApplicationProtocol | Transport | LifetimeExceeded

definition http1_alpn :: bytes where "http1_alpn = ''http/1.1''"

definition http2_alpn :: bytes where "http2_alpn = ''h2''"

definition inspection_alpn :: "bytes list" where
  "inspection_alpn = [http2_alpn, http1_alpn]"

text \<open>
  One side of the handshake: it fails, does not end within the timeout, or is done with the
  negotiated application protocol.
\<close>

datatype negotiation = Refuses | Stalls | Agrees "bytes option"

text \<open>
  \<open>upstream\<close> is the verified handshake with the server, \<open>downstream\<close> the one with the client given
  the protocols offered to it; the second begins when the first is done. The result is the
  negotiated protocol.
\<close>

definition establish_verified_tls ::
  "bool \<Rightarrow> bool \<Rightarrow> negotiation \<Rightarrow> (bytes list \<Rightarrow> negotiation) \<Rightarrow> bytes list option
     \<Rightarrow> tls_error + bytes option" where
  "establish_verified_tls name_ok leaf_ok upstream downstream allowed =
     (if \<not> name_ok then Inl InvalidUpstreamName
      else if \<not> leaf_ok then Inl InvalidLeafMaterial
      else case upstream of
        Refuses \<Rightarrow> Inl UpstreamVerification
      | Stalls \<Rightarrow> Inl HandshakeTimeout
      | Agrees protocol \<Rightarrow>
          if (case allowed of None \<Rightarrow> False
              | Some l \<Rightarrow> \<not> (case protocol of None \<Rightarrow> False | Some p \<Rightarrow> p \<in> set l))
          then Inl UnsupportedApplicationProtocol
          else (case downstream (case protocol of None \<Rightarrow> [] | Some p \<Rightarrow> [p]) of
              Refuses \<Rightarrow> Inl DownstreamHandshake
            | Stalls \<Rightarrow> Inl HandshakeTimeout
            | Agrees chosen \<Rightarrow>
                if allowed \<noteq> None \<and> chosen \<noteq> protocol then Inl UnsupportedApplicationProtocol
                else Inr protocol))"

text \<open>
  An inspected connection speaks one protocol. When inspection establishes its two verified
  connections, server and client agreed on the same protocol, it is HTTP/2 or HTTP/1.1, and it
  was the only one offered to the client; in particular the server was verified before the
  client's handshake began. A server without an application protocol is never inspected.
\<close>

lemma inspection_protocol_agreed:
  "(\<exists>p. establish_verified_tls name_ok leaf_ok upstream downstream (Some inspection_alpn) = Inr p)
   \<longleftrightarrow> name_ok \<and> leaf_ok
     \<and> (\<exists>q. (q = ''h2'' \<or> q = ''http/1.1'') \<and> upstream = Agrees (Some q)
          \<and> downstream [q] = Agrees (Some q)
          \<and> establish_verified_tls name_ok leaf_ok upstream downstream (Some inspection_alpn)
              = Inr (Some q))"
  by (auto simp: establish_verified_tls_def inspection_alpn_def http1_alpn_def http2_alpn_def
      split: if_splits negotiation.splits option.splits)

section \<open>The transfer of a bridge\<close>

text \<open>
  \<open>copy_with_flush\<close> reads chunks until an empty one, passes each on and adds its length. An event
  is what one read returned and whether the writes after it succeeded.
\<close>

datatype copy_event = Chunk bytes bool | Read_Failed

datatype copy_outcome = Copy_Failed | Copied u64

fun copy_with_flush :: "copy_event list \<Rightarrow> u64 \<Rightarrow> copy_outcome option" where
  "copy_with_flush [] transferred = None"
| "copy_with_flush (Read_Failed # _) transferred = Some Copy_Failed"
| "copy_with_flush (Chunk bytes ok # events) transferred =
     (if bytes = [] then Some (if ok then Copied transferred else Copy_Failed)
      else if \<not> ok then Some Copy_Failed
      else copy_with_flush events (transferred + of_nat (length bytes)))"

fun delivered :: "copy_event list \<Rightarrow> bytes" where
  "delivered [] = []"
| "delivered (Read_Failed # _) = []"
| "delivered (Chunk bytes ok # events) = (if bytes = [] \<or> \<not> ok then [] else bytes @ delivered events)"

record bridge_result =
  client_to_upstream_bytes :: u64
  upstream_to_client_bytes :: u64

text \<open>\<open>None\<close> in a direction: it had not ended when the lifetime of the bridge did.\<close>

definition bridge_verified_tls ::
  "bool \<Rightarrow> bool \<Rightarrow> negotiation \<Rightarrow> (bytes list \<Rightarrow> negotiation) \<Rightarrow> copy_event list \<Rightarrow> copy_event list
     \<Rightarrow> tls_error + bridge_result" where
  "bridge_verified_tls name_ok leaf_ok upstream downstream client server =
     and_then (establish_verified_tls name_ok leaf_ok upstream downstream None) (\<lambda>_.
       case (copy_with_flush client 0, copy_with_flush server 0) of
         (Some Copy_Failed, _) \<Rightarrow> Inl Transport
       | (_, Some Copy_Failed) \<Rightarrow> Inl Transport
       | (Some (Copied n), Some (Copied m)) \<Rightarrow>
           Inr \<lparr>client_to_upstream_bytes = n, upstream_to_client_bytes = m\<rparr>
       | _ \<Rightarrow> Inl LifetimeExceeded)"

lemma copy_with_flush_counts:
  "copy_with_flush events n = Some (Copied m) \<Longrightarrow> m = n + of_nat (length (delivered events))"
  by (induction events n rule: copy_with_flush.induct) (auto split: if_splits)

lemma bridge_counts:
  assumes "bridge_verified_tls name_ok leaf_ok upstream downstream client server = Inr r"
  shows "client_to_upstream_bytes r = of_nat (length (delivered client))
    \<and> upstream_to_client_bytes r = of_nat (length (delivered server))"
  using assms copy_with_flush_counts [of client 0] copy_with_flush_counts [of server 0]
  by (auto simp: bridge_verified_tls_def and_then_Inr_iff split: option.splits copy_outcome.splits)

end
