(* ===== verification/Trust_Check.thy ===== *)
theory Trust_Check
  imports Tls_Gate
begin

text \<open>
  The local trust check (\<open>crates/engine/src/tls_trust_check.rs\<close>): one-shot endpoints whose
  handshake proves that a client trusts the authority. The manager keeps a status, the gate of
  the last successful check and the handle of the running task; \<open>tc_tasks\<close> are the spawned tasks
  that have not ended, \<open>tc_starting\<close> the handles held by calls of \<open>start\<close> that have not stored
  them yet. A step is one lock region or an \<open>await\<close> that ends.
\<close>

section \<open>Data\<close>

datatype trust_check_state = Idle | Waiting | Verified | Failed | Expired

record trust_status =
  ts_state :: trust_check_state
  ts_client :: "client_identity option"
  ts_url :: "string option"
  ts_expires_at :: "nat option"
  ts_verified_at :: "nat option"
  ts_error :: "string option"

definition idle_status :: trust_status where
  "idle_status =
     \<lparr>ts_state = Idle, ts_client = None, ts_url = None, ts_expires_at = None,
      ts_verified_at = None, ts_error = None\<rparr>"

text \<open>A task with what it was given, and its outcome once the gate is written.\<close>

datatype check_failure = Check_Expired | Check_Rejected

record check =
  ck_leaf :: issued_leaf
  ck_client :: client_identity
  ck_outcome :: "(check_failure + gate) option"

record checks =
  tc_status :: trust_status
  tc_gate :: "gate option"
  tc_running :: "nat option"
  tc_tasks :: "nat \<rightharpoonup> check"
  tc_starting :: "nat set"

definition default_checks :: checks where
  "default_checks =
     \<lparr>tc_status = idle_status, tc_gate = None, tc_running = None, tc_tasks = Map.empty,
      tc_starting = {}\<rparr>"

section \<open>The check task\<close>

datatype accept = Accept_Elapsed | Accept_Failed | Accepted

text \<open>\<open>answered\<close>: the confirmation page was written, flushed and the connection shut down.\<close>

definition run_check ::
  "issued_leaf \<Rightarrow> client_identity \<Rightarrow> accept \<Rightarrow> handshake \<Rightarrow> bool \<Rightarrow> check_failure + gate" where
  "run_check leaf client accept answer answered =
     (case accept of
        Accept_Elapsed \<Rightarrow> Inl Check_Expired
      | Accept_Failed \<Rightarrow> Inl Check_Rejected
      | Accepted \<Rightarrow>
          (case verify_client_trust leaf client answer (set_opt_in True default_gate) of
             (Inl TrustTimeout, _) \<Rightarrow> Inl Check_Expired
           | (Inl _, _) \<Rightarrow> Inl Check_Rejected
           | (Inr _, g) \<Rightarrow> if answered then Inr g else Inl Check_Rejected))"

definition outcome_status :: "check \<Rightarrow> check_failure + gate \<Rightarrow> nat \<Rightarrow> trust_status" where
  "outcome_status ck outcome now =
     (case outcome of
        Inr _ \<Rightarrow>
          \<lparr>ts_state = Verified, ts_client = Some (ck_client ck), ts_url = None,
           ts_expires_at = Some (il_expires_at (ck_leaf ck)), ts_verified_at = Some now, ts_error = None\<rparr>
      | Inl Check_Expired \<Rightarrow>
          \<lparr>ts_state = Expired, ts_client = Some (ck_client ck), ts_url = None, ts_expires_at = None,
           ts_verified_at = None,
           ts_error = Some ''The local trust check expired before it completed.''\<rparr>
      | Inl Check_Rejected \<Rightarrow>
          \<lparr>ts_state = Failed, ts_client = Some (ck_client ck), ts_url = None, ts_expires_at = None,
           ts_verified_at = None,
           ts_error = Some ''The client rejected the local CA certificate. Configure trust for that client, then retry.''\<rparr>)"

text \<open>The end of a task: the gate of a success is stored, then the status.\<close>

definition check_gate :: "nat \<Rightarrow> accept \<Rightarrow> handshake \<Rightarrow> bool \<Rightarrow> checks \<Rightarrow> checks" where
  "check_gate t accept answer answered s =
     (case tc_tasks s t of
        None \<Rightarrow> s
      | Some ck \<Rightarrow>
          if ck_outcome ck \<noteq> None then s
          else (let outcome = run_check (ck_leaf ck) (ck_client ck) accept answer answered in
            s\<lparr>tc_tasks := (tc_tasks s)(t \<mapsto> ck\<lparr>ck_outcome := Some outcome\<rparr>),
              tc_gate := (case outcome of Inr g \<Rightarrow> Some g | Inl _ \<Rightarrow> tc_gate s)\<rparr>))"

definition check_status :: "nat \<Rightarrow> nat \<Rightarrow> checks \<Rightarrow> checks" where
  "check_status t now s =
     (case tc_tasks s t of
        None \<Rightarrow> s
      | Some ck \<Rightarrow>
          (case ck_outcome ck of
             None \<Rightarrow> s
           | Some outcome \<Rightarrow>
               s\<lparr>tc_status := outcome_status ck outcome now, tc_tasks := (tc_tasks s)(t := None)\<rparr>))"

section \<open>Starting and cancelling\<close>

text \<open>
  \<open>cancel_running\<close>: the registered task is aborted and awaited. A task that has already stored
  its gate has no suspension point left and ends by itself (at time \<open>now\<close>); any other is gone.
\<close>

definition cancel_running :: "nat \<Rightarrow> checks \<Rightarrow> checks" where
  "cancel_running now s =
     (case tc_running s of
        None \<Rightarrow> s
      | Some t \<Rightarrow>
          (let s1 = check_status t now s
           in s1\<lparr>tc_running := None, tc_tasks := (tc_tasks s1)(t := None)\<rparr>))"

definition cancel_check :: "nat \<Rightarrow> checks \<Rightarrow> checks" where
  "cancel_check now s = (cancel_running now s)\<lparr>tc_gate := None, tc_status := idle_status\<rparr>"

definition duration_ok :: "nat \<Rightarrow> bool" where
  "duration_ok valid_ms \<longleftrightarrow> 5 * 1000 \<le> valid_ms \<and> valid_ms \<le> 120 * 1000"

definition waiting_status :: "client_identity \<Rightarrow> nat \<Rightarrow> nat \<Rightarrow> nat \<Rightarrow> trust_status" where
  "waiting_status client endpoint valid_ms now =
     \<lparr>ts_state = Waiting, ts_client = Some client,
      ts_url = Some (''https://localhost:'' @ decimal endpoint @ ''/''),
      ts_expires_at = Some (min (now + valid_ms) (2 ^ 64 - 1)), ts_verified_at = None, ts_error = None\<rparr>"

text \<open>The two lock regions after the endpoint is open, the second with the spawned task \<open>t\<close>.\<close>

definition show_waiting :: "client_identity \<Rightarrow> nat \<Rightarrow> nat \<Rightarrow> nat \<Rightarrow> checks \<Rightarrow> checks" where
  "show_waiting client endpoint valid_ms now s =
     s\<lparr>tc_status := waiting_status client endpoint valid_ms now\<rparr>"

definition spawn_check :: "nat \<Rightarrow> issued_leaf \<Rightarrow> client_identity \<Rightarrow> checks \<Rightarrow> checks" where
  "spawn_check t leaf client s =
     s\<lparr>tc_gate := None,
       tc_tasks := (tc_tasks s)(t \<mapsto> \<lparr>ck_leaf = leaf, ck_client = client, ck_outcome = None\<rparr>),
       tc_starting := insert t (tc_starting s)\<rparr>"

text \<open>Storing the handle drops the one stored before, which detaches its task.\<close>

definition register_check :: "nat \<Rightarrow> checks \<Rightarrow> checks" where
  "register_check t s = s\<lparr>tc_running := Some t, tc_starting := tc_starting s - {t}\<rparr>"

datatype start_error = BadDuration | CannotOpenEndpoint

text \<open>A whole call of \<open>start\<close> that no other call overlaps; \<open>endpoint\<close> is the port it got.\<close>

definition start_check ::
  "nat \<Rightarrow> issued_leaf \<Rightarrow> client_identity \<Rightarrow> nat \<Rightarrow> nat option \<Rightarrow> nat \<Rightarrow> checks
     \<Rightarrow> (start_error + trust_status) \<times> checks" where
  "start_check t leaf client valid_ms endpoint now s =
     (if \<not> duration_ok valid_ms then (Inl BadDuration, s)
      else (let s1 = cancel_running now s in
        case endpoint of
          None \<Rightarrow> (Inl CannotOpenEndpoint, s1)
        | Some e \<Rightarrow>
            (Inr (waiting_status client e valid_ms now),
             register_check t (spawn_check t leaf client (show_waiting client e valid_ms now s1)))))"

section \<open>Preflight\<close>

definition manager_readiness :: "checks \<Rightarrow> ca_status \<Rightarrow> string \<Rightarrow> nat \<Rightarrow> readiness option" where
  "manager_readiness s ca client now = map_option (\<lambda>g. readiness_at g ca client now) (tc_gate s)"

datatype preflight_state = ProxyStopped_Preflight | ClientAuthenticationRequired | Preflight readiness_state

record preflight =
  pf_state :: preflight_state
  can_enable_development :: bool
  https_inspection_active :: bool
  pf_profile_id :: "string option"
  pf_client :: "client_identity option"
  pf_proof_expires_at :: "nat option"

definition blocked :: "preflight_state \<Rightarrow> string option \<Rightarrow> preflight" where
  "blocked state client =
     \<lparr>pf_state = state, can_enable_development = False, https_inspection_active = False,
      pf_profile_id = client, pf_client = None, pf_proof_expires_at = None\<rparr>"

definition preflight_check :: "checks \<Rightarrow> ca_status \<Rightarrow> engine_status \<Rightarrow> nat \<Rightarrow> preflight" where
  "preflight_check s ca proxy now =
     (if es_phase proxy \<noteq> Running then blocked ProxyStopped_Preflight None
      else case es_client_profile_id proxy of
        None \<Rightarrow> blocked ClientAuthenticationRequired None
      | Some client \<Rightarrow>
          if ca_state ca \<noteq> ''ready'' \<or> ca_fingerprint ca = None \<or> ca_expires_at ca = None
          then blocked (Preflight MissingCa) (Some client)
          else if (case ca_expires_at ca of None \<Rightarrow> False | Some expires \<Rightarrow> expires \<le> now)
          then blocked (Preflight ExpiredCa) (Some client)
          else (case manager_readiness s ca client now of
              None \<Rightarrow> blocked (Preflight ClientTrustUnverified) (Some client)
            | Some r \<Rightarrow>
                \<lparr>pf_state = Preflight (rd_state r),
                 can_enable_development = (rd_state r = Ready),
                 https_inspection_active = (https_inspection proxy \<and> rd_state r = Ready),
                 pf_profile_id = Some client, pf_client = verified_client r,
                 pf_proof_expires_at = proof_expires_at r\<rparr>))"

end
