(* ===== verification/Transitions.thy ===== *)
theory Transitions
  imports Prelude
begin

text \<open>
  What the step relations of the components share: the critical sections of the body stores, the
  operations of the engine, the lock regions of the trust check and the steps of the application.
  \<open>run_order\<close> lifts a reflexive and transitive relation from one step to a whole run, \<open>machine\<close>
  does the same for an invariant that holds initially. Every component interprets them on its own
  steps.
\<close>

locale run_order =
  fixes step :: "'s \<Rightarrow> 's \<Rightarrow> bool"
    and related :: "'s \<Rightarrow> 's \<Rightarrow> bool"
  assumes related_refl: "related s s"
    and related_trans: "related s t \<Longrightarrow> related t u \<Longrightarrow> related s u"
    and step_related: "step s t \<Longrightarrow> related s t"
begin

lemma run_related: "step\<^sup>*\<^sup>* s t \<Longrightarrow> related s t"
  by (induction rule: rtranclp_induct) (blast intro: related_refl related_trans step_related)+

end

locale machine =
  fixes step :: "'s \<Rightarrow> 's \<Rightarrow> bool"
    and initial :: "'s \<Rightarrow> bool"
    and inv :: "'s \<Rightarrow> bool"
  assumes initial_inv: "initial s \<Longrightarrow> inv s"
    and step_inv: "step s t \<Longrightarrow> inv s \<Longrightarrow> inv t"

text \<open>An invariant orders the states: what it holds of passes it on.\<close>

sublocale machine \<subseteq> kept: run_order step "\<lambda>s t. inv s \<longrightarrow> inv t"
  by unfold_locales (auto dest: step_inv)

context machine
begin

lemma run_inv: "step\<^sup>*\<^sup>* s t \<Longrightarrow> inv s \<Longrightarrow> inv t"
  using kept.run_related by blast

lemma reached_inv: "initial s \<Longrightarrow> step\<^sup>*\<^sup>* s t \<Longrightarrow> inv t"
  using run_inv initial_inv by blast

end

end
