(* ===== verification/Trust_Properties.thy ===== *)
theory Trust_Properties
  imports Trust_Check Transitions
begin

text \<open>
  What the trust check guarantees. \<open>trust_step\<close> interleaves the lock regions of any number of
  calls and tasks; \<open>serial_step\<close> is the use by one caller at a time. The parameter is the set of
  leaves and clients checks are started with.
\<close>

named_theorems trust_runs "Runs of the trust check, one step per rule"

section \<open>Where a gate comes from\<close>

definition proved_gate :: "(issued_leaf \<times> client_identity) set \<Rightarrow> gate \<Rightarrow> bool" where
  "proved_gate I g \<longleftrightarrow> opted_in g \<and>
     (\<exists>(leaf, client) \<in> I. trust_proof g =
        Some \<lparr>tp_issuer = il_issuer leaf, tp_host = il_host leaf, tp_client = client,
              tp_expires_at = il_expires_at leaf\<rparr>)"

inductive trust_step :: "(issued_leaf \<times> client_identity) set \<Rightarrow> checks \<Rightarrow> checks \<Rightarrow> bool"
  for I :: "(issued_leaf \<times> client_identity) set" where
  step_cancel_running: "trust_step I s (cancel_running now s)"
| step_clear_gate: "trust_step I s (s\<lparr>tc_gate := None\<rparr>)"
| step_idle: "trust_step I s (s\<lparr>tc_status := idle_status\<rparr>)"
| step_waiting: "trust_step I s (show_waiting client endpoint valid_ms now s)"
| step_spawn:
    "(leaf, client) \<in> I \<Longrightarrow> tc_tasks s t = None \<Longrightarrow> t \<notin> tc_starting s \<Longrightarrow> tc_running s \<noteq> Some t
     \<Longrightarrow> trust_step I s (spawn_check t leaf client s)"
| step_register: "t \<in> tc_starting s \<Longrightarrow> trust_step I s (register_check t s)"
| step_gate: "trust_step I s (check_gate t accept answer answered s)"
| step_status: "trust_step I s (check_status t now s)"

definition trust_reachable :: "(issued_leaf \<times> client_identity) set \<Rightarrow> checks \<Rightarrow> bool" where
  "trust_reachable I s \<longleftrightarrow> (trust_step I)\<^sup>*\<^sup>* default_checks s"

lemma trust_reachable_default [trust_runs]: "trust_reachable I default_checks"
  by (simp add: trust_reachable_def)

lemma trust_reachable_step: "trust_reachable I s \<Longrightarrow> trust_step I s s' \<Longrightarrow> trust_reachable I s'"
  unfolding trust_reachable_def by (rule rtranclp.rtrancl_into_rtrancl)

lemmas trust_steps [trust_runs] =
  trust_reachable_step [OF _ step_cancel_running] trust_reachable_step [OF _ step_clear_gate]
  trust_reachable_step [OF _ step_idle] trust_reachable_step [OF _ step_waiting]
  trust_reachable_step [OF _ step_spawn] trust_reachable_step [OF _ step_register]
  trust_reachable_step [OF _ step_gate] trust_reachable_step [OF _ step_status]

definition task_ok :: "(issued_leaf \<times> client_identity) set \<Rightarrow> check \<Rightarrow> bool" where
  "task_ok I ck \<longleftrightarrow> (ck_leaf ck, ck_client ck) \<in> I"

definition checks_inv :: "(issued_leaf \<times> client_identity) set \<Rightarrow> checks \<Rightarrow> bool" where
  "checks_inv I s \<longleftrightarrow>
     (\<forall>g. tc_gate s = Some g \<longrightarrow> proved_gate I g) \<and> (\<forall>t ck. tc_tasks s t = Some ck \<longrightarrow> task_ok I ck)"

lemma run_check_Inr:
  "run_check leaf client accept answer answered = Inr g \<longleftrightarrow>
     accept = Accepted \<and> answer = Handshake_Done \<and> answered
     \<and> g = \<lparr>opted_in = True, trust_proof = Some \<lparr>tp_issuer = il_issuer leaf, tp_host = il_host leaf,
              tp_client = client, tp_expires_at = il_expires_at leaf\<rparr>\<rparr>"
  by (auto simp: run_check_def verify_client_trust_def set_opt_in_def default_gate_def
      client_trust_handshake_def split: accept.splits handshake.splits if_splits)

lemma inv_check_gate: "checks_inv I s \<Longrightarrow> checks_inv I (check_gate t accept answer answered s)"
  by (auto simp: checks_inv_def check_gate_def Let_def task_ok_def run_check_Inr proved_gate_def
      split: option.splits sum.splits)

lemma inv_check_status: "checks_inv I s \<Longrightarrow> checks_inv I (check_status t now s)"
  by (auto simp: checks_inv_def check_status_def split: option.splits)

lemma inv_cancel_running: "checks_inv I s \<Longrightarrow> checks_inv I (cancel_running now s)"
  using inv_check_status [of I s]
  by (auto simp: checks_inv_def cancel_running_def Let_def split: option.splits)

lemma inv_spawn: "checks_inv I s \<Longrightarrow> (leaf, client) \<in> I \<Longrightarrow> checks_inv I (spawn_check t leaf client s)"
  by (auto simp: checks_inv_def spawn_check_def task_ok_def)

lemma inv_other_fields:
  "checks_inv I s \<Longrightarrow> checks_inv I (s\<lparr>tc_gate := None\<rparr>)"
  "checks_inv I s \<Longrightarrow> checks_inv I (s\<lparr>tc_status := st\<rparr>)"
  "checks_inv I s \<Longrightarrow> checks_inv I (show_waiting client endpoint valid_ms now s)"
  "checks_inv I s \<Longrightarrow> checks_inv I (register_check t s)"
  by (auto simp: checks_inv_def show_waiting_def register_check_def)

lemmas trust_inv_intros =
  inv_check_gate inv_check_status inv_cancel_running inv_spawn inv_other_fields

lemma trust_step_inv: "trust_step I s s' \<Longrightarrow> checks_inv I s \<Longrightarrow> checks_inv I s'"
  by (cases rule: trust_step.cases) (auto intro: trust_inv_intros)

interpretation trust: machine "trust_step I" "\<lambda>s. s = default_checks" "checks_inv I" for I
  by unfold_locales (simp add: checks_inv_def default_checks_def, rule trust_step_inv)

lemma trust_reachable_inv: "trust_reachable I s \<Longrightarrow> checks_inv I s"
  unfolding trust_reachable_def by (rule trust.reached_inv [OF refl])

text \<open>
  Trust is never claimed without a handshake. However calls and tasks interleave, when the
  manager reports a client ready for inspection, that client completed a handshake with a leaf a
  check was started with, which the current authority issued and which has not expired.
\<close>

lemma trust_proof_of_readiness:
  assumes "trust_reachable I s" and "manager_readiness s ca client now = Some r"
    and "can_inspect_development r"
  shows "\<exists>(leaf, identity) \<in> I. ci_id identity = client \<and> ca_fingerprint ca = Some (il_issuer leaf)
    \<and> now < il_expires_at leaf \<and> verified_client r = Some identity
    \<and> verified_host r = Some (il_host leaf)"
proof -
  from assms(2) obtain g where g: "tc_gate s = Some g" and r: "r = readiness_at g ca client now"
    by (auto simp: manager_readiness_def)
  from trust_reachable_inv [OF assms(1)] g have "proved_gate I g" by (simp add: checks_inv_def)
  then obtain leaf identity where "(leaf, identity) \<in> I"
    and p: "trust_proof g = Some \<lparr>tp_issuer = il_issuer leaf, tp_host = il_host leaf,
      tp_client = identity, tp_expires_at = il_expires_at leaf\<rparr>"
    by (auto simp: proved_gate_def)
  moreover have ready: "ready_state g ca client now = Ready"
    using assms(3) by (simp add: r readiness_at_def Let_def)
  ultimately show ?thesis
    by (intro bexI [of _ "(leaf, identity)"])
      (auto simp: r readiness_at_def Let_def ready_state_Ready)
qed

text \<open>A leaf and a client, and the states of one check of them.\<close>

definition sample_leaf :: issued_leaf where
  "sample_leaf =
     \<lparr>il_certificate = ''cert'', il_private_key = ''key'', il_issuer = ''AB:CD'',
      il_host = ''localhost'', il_expires_at = 90000000\<rparr>"

definition sample_client :: client_identity where
  "sample_client = \<lparr>ci_id = ''dev'', ci_name = ''Browser''\<rparr>"

definition started :: checks where
  "started = snd (start_check 0 sample_leaf sample_client 60000 (Some 4000) 5000 default_checks)"

lemma started_reachable: "trust_reachable {(sample_leaf, sample_client)} started"
proof -
  let ?s1 = "cancel_running 5000 default_checks"
  let ?s2 = "show_waiting sample_client 4000 60000 5000 ?s1"
  have fresh: "tc_tasks ?s2 = Map.empty" "tc_starting ?s2 = {}" "tc_running ?s2 = None"
    by (simp_all add: show_waiting_def cancel_running_def default_checks_def)
  have "trust_reachable {(sample_leaf, sample_client)}
      (register_check 0 (spawn_check 0 sample_leaf sample_client ?s2))"
    by (intro trust_runs) (simp_all add: fresh spawn_check_def)
  then show ?thesis by (simp add: started_def start_check_def duration_ok_def Let_def)
qed

definition verified :: checks where
  "verified = check_gate 0 Accepted Handshake_Done True started"

lemma verified_reachable: "trust_reachable {(sample_leaf, sample_client)} verified"
  unfolding verified_def by (intro trust_runs started_reachable)

lemma verified_gate:
  "tc_gate verified = Some \<lparr>opted_in = True, trust_proof = Some \<lparr>tp_issuer = ''AB:CD'',
     tp_host = ''localhost'', tp_client = sample_client, tp_expires_at = 90000000\<rparr>\<rparr>"
  by (simp add: verified_def check_gate_def started_def start_check_def duration_ok_def
      spawn_check_def register_check_def Let_def run_check_def verify_client_trust_def
      set_opt_in_def default_gate_def client_trust_handshake_def sample_leaf_def)

section \<open>One caller at a time\<close>

inductive serial_step :: "checks \<Rightarrow> checks \<Rightarrow> bool" where
  serial_start:
    "tc_tasks s t = None \<Longrightarrow> serial_step s (snd (start_check t leaf client valid_ms endpoint now s))"
| serial_cancel: "serial_step s (cancel_check now s)"
| serial_gate: "serial_step s (check_gate t accept answer answered s)"
| serial_status: "serial_step s (check_status t now s)"

definition alone :: "checks \<Rightarrow> bool" where
  "alone s \<longleftrightarrow> dom (tc_tasks s) \<subseteq> set_option (tc_running s) \<and> tc_starting s = {}"

lemma alone_cancel_running: "alone s \<Longrightarrow> tc_tasks (cancel_running now s) = Map.empty"
  by (auto simp: alone_def cancel_running_def check_status_def Let_def fun_eq_iff dom_def
      split: option.splits)

lemma alone_intros:
  "alone s \<Longrightarrow> alone (cancel_running now s)"
  "alone s \<Longrightarrow> alone (cancel_check now s)"
  "alone s \<Longrightarrow> alone (check_gate t accept answer answered s)"
  "alone s \<Longrightarrow> alone (check_status t now s)"
  by (auto simp: alone_def cancel_check_def cancel_running_def check_status_def check_gate_def
      Let_def dom_def split: option.splits if_splits)

lemma alone_start: "alone s \<Longrightarrow> alone (snd (start_check t leaf client valid_ms endpoint now s))"
  using alone_cancel_running [of s now] alone_intros(1) [of s now]
  by (auto simp: start_check_def Let_def register_check_def spawn_check_def show_waiting_def alone_def
      split: option.splits)

interpretation serial: machine serial_step "\<lambda>s. s = default_checks" alone
proof unfold_locales
  show "alone s'" if "serial_step s s'" "alone s" for s s'
    using that by (cases rule: serial_step.cases) (auto intro: alone_intros alone_start)
qed (simp add: alone_def default_checks_def)

text \<open>
  C13: with one caller at a time, cancelling is final. Afterwards no task is left, the status is
  idle and the gate is closed, and nothing but another start changes that; a start closes the
  gate of the check before it.
\<close>

theorem cancel_is_final:
  assumes "serial_step\<^sup>*\<^sup>* default_checks s"
  shows "tc_tasks (cancel_check now s) = Map.empty
    \<and> tc_gate (cancel_check now s) = None \<and> tc_status (cancel_check now s) = idle_status
    \<and> check_gate t accept answer answered (cancel_check now s) = cancel_check now s
    \<and> check_status t later (cancel_check now s) = cancel_check now s
    \<and> (case start_check t leaf client valid_ms endpoint now s of
         (Inr st, s') \<Rightarrow> tc_gate s' = None \<and> dom (tc_tasks s') = {t} \<and> tc_status s' = st
       | (Inl _, s') \<Rightarrow> dom (tc_tasks s') \<subseteq> dom (tc_tasks s))"
proof -
  have a: "alone s" by (rule serial.reached_inv [OF refl assms])
  note gone = alone_cancel_running [OF a, of now]
  have "tc_tasks (cancel_check now s) = Map.empty" using gone by (simp add: cancel_check_def)
  then show ?thesis
    using gone
    by (auto simp: check_gate_def check_status_def cancel_check_def start_check_def Let_def
        register_check_def spawn_check_def show_waiting_def split: option.splits)
qed

theorem cancel_is_final_witness:
  "tc_gate (check_gate 0 Accepted Handshake_Done True (cancel_check 6000 started)) = None"
proof -
  have "serial_step default_checks started"
    unfolding started_def by (rule serial_start) (simp add: default_checks_def)
  then have "serial_step\<^sup>*\<^sup>* default_checks started" by (rule r_into_rtranclp)
  from cancel_is_final [OF this, of 6000 0 Accepted Handshake_Done True] show ?thesis by simp
qed

section \<open>Overlapping calls\<close>

text \<open>Two calls of \<open>start\<close>, interleaved after their first \<open>cancel_running\<close>.\<close>

definition overlapped :: "issued_leaf \<Rightarrow> client_identity \<Rightarrow> nat \<Rightarrow> checks" where
  "overlapped leaf client now =
     register_check 1 (spawn_check 1 leaf client (show_waiting client 4001 60000 now
       (register_check 0 (spawn_check 0 leaf client (show_waiting client 4000 60000 now
         (cancel_running now (cancel_running now default_checks)))))))"

lemma overlapped_reachable: "trust_reachable {(leaf, client)} (overlapped leaf client now)"
proof -
  let ?s1 = "cancel_running now (cancel_running now default_checks)"
  have fresh: "tc_tasks ?s1 = Map.empty" "tc_starting ?s1 = {}" "tc_running ?s1 = None"
    by (simp_all add: cancel_running_def default_checks_def)
  show ?thesis
    unfolding overlapped_def
    by (intro trust_runs) (simp_all add: fresh spawn_check_def register_check_def show_waiting_def)
qed


text \<open>
  A start that cannot open its endpoint has already aborted the check before it, but leaves
  that check's status: the manager goes on reporting it as waiting, with the address of an
  endpoint that is closed, although no task is left that could ever change it.
\<close>

lemma failed_start_leaves_waiting:
  assumes "duration_ok valid_ms" and "duration_ok valid_ms'"
  shows "let s = snd (start_check t leaf client valid_ms (Some endpoint) now default_checks);
      (result, s') = start_check t' leaf' client' valid_ms' None now' s
    in result = Inl CannotOpenEndpoint \<and> tc_tasks s' = Map.empty \<and> tc_running s' = None
      \<and> ts_state (tc_status s') = Waiting
      \<and> ts_url (tc_status s') = Some (''https://localhost:'' @ decimal endpoint @ ''/'')"
  using assms
  by (simp add: start_check_def Let_def cancel_running_def check_status_def register_check_def
      spawn_check_def show_waiting_def waiting_status_def default_checks_def)

lemma failed_start_leaves_waiting_witness:
  "let s = snd (start_check 0 sample_leaf sample_client 60000 (Some 4000) 5000 default_checks);
      (result, s') = start_check 1 sample_leaf sample_client 60000 None 6000 s
    in ts_state (tc_status s') = Waiting \<and> tc_tasks s' = Map.empty"
proof -
  have "duration_ok 60000" by (simp add: duration_ok_def)
  from failed_start_leaves_waiting [OF this this, of 0 sample_leaf sample_client 4000 5000 1
      sample_leaf sample_client 6000]
  show ?thesis by (simp add: Let_def case_prod_beta)
qed

section \<open>Preflight\<close>

text \<open>
  The preflight offers HTTPS inspection exactly when the proxy runs with an authenticated
  client profile and the stored gate would authorize that client for a Development destination;
  it reports inspection active only when, beyond that, the proxy was started with it.
\<close>

lemma preflight_sound:
  "(can_enable_development (preflight_check s ca proxy now) \<longleftrightarrow>
      es_phase proxy = Running
      \<and> (\<exists>client g. es_client_profile_id proxy = Some client \<and> tc_gate s = Some g
           \<and> gate_authorize g ca client Development now = Inr ()))
   \<and> (https_inspection_active (preflight_check s ca proxy now) \<longleftrightarrow>
        can_enable_development (preflight_check s ca proxy now) \<and> https_inspection proxy)
   \<and> (pf_state (preflight_check s ca proxy now) = Preflight Ready \<longleftrightarrow>
        can_enable_development (preflight_check s ca proxy now))"
proof -
  have ready: "gate_authorize g ca client Development now = Inr () \<longleftrightarrow>
      ready_state g ca client now = Ready" for g client
    by (auto simp: gate_authorize_def readiness_at_def Let_def authorize_def)
  show ?thesis
    by (auto simp: preflight_check_def blocked_def manager_readiness_def readiness_at_def Let_def
        ready ready_state_Ready split: option.splits)
qed

end
