(* ===== verification/Response_Rules.thy ===== *)
theory Response_Rules
  imports Hosts
begin

text \<open>
  Response rules and replacement bodies (\<open>crates/engine/src/proxy.rs\<close>,
  \<open>ResponseRule::compile_all\<close>, \<open>ResponseRule::matches\<close>, \<open>compile_replacement_body\<close> and the
  status check of \<open>resolve_response_breakpoint\<close>): validation of the configured rules before
  the listener starts, and the choice of the rule that applies to a response.

  The \<open>http\<close> crate validates status codes, header values and methods. It is not part of the
  repository, so its functions are the fields of \<open>http_crate\<close>; \<open>http_documented\<close> states what
  its documentation says of them.
\<close>

record http_crate =
  status_from_u16 :: "u16 \<Rightarrow> bool"
  is_success :: "u16 \<Rightarrow> bool"
  is_redirection :: "u16 \<Rightarrow> bool"
  is_client_error :: "u16 \<Rightarrow> bool"
  is_server_error :: "u16 \<Rightarrow> bool"
  header_value_from_str :: "string \<Rightarrow> bool"
  method_from_bytes :: "string \<Rightarrow> bool"

definition http_documented :: "http_crate \<Rightarrow> bool" where
  "http_documented H \<longleftrightarrow>
     (\<forall>n. status_from_u16 H n \<longleftrightarrow> 100 \<le> n \<and> n \<le> 999)
     \<and> (\<forall>n. is_success H n \<longleftrightarrow> 200 \<le> n \<and> n \<le> 299)
     \<and> (\<forall>n. is_redirection H n \<longleftrightarrow> 300 \<le> n \<and> n \<le> 399)
     \<and> (\<forall>n. is_client_error H n \<longleftrightarrow> 400 \<le> n \<and> n \<le> 499)
     \<and> (\<forall>n. is_server_error H n \<longleftrightarrow> 500 \<le> n \<and> n \<le> 599)
     \<and> (\<forall>v. header_value_from_str H v \<longleftrightarrow>
          list_all (\<lambda>b. (32 \<le> byte_val b \<and> byte_val b \<noteq> 127) \<or> byte_val b = 9) v)"

text \<open>An instance with the documented behaviour, for concrete evaluation.\<close>

definition reference_http :: http_crate where
  "reference_http =
     \<lparr>status_from_u16 = (\<lambda>n. 100 \<le> n \<and> n \<le> 999),
      is_success = (\<lambda>n. 200 \<le> n \<and> n \<le> 299),
      is_redirection = (\<lambda>n. 300 \<le> n \<and> n \<le> 399),
      is_client_error = (\<lambda>n. 400 \<le> n \<and> n \<le> 499),
      is_server_error = (\<lambda>n. 500 \<le> n \<and> n \<le> 599),
      header_value_from_str =
        list_all (\<lambda>b. (32 \<le> byte_val b \<and> byte_val b \<noteq> 127) \<or> byte_val b = 9),
      method_from_bytes = list_all ascii_upper\<rparr>"

lemma reference_http_documented: "http_documented reference_http"
  by (simp add: http_documented_def reference_http_def)

record response_rule_config =
  rc_id :: string
  rc_name :: string
  rc_enabled :: bool
  rc_host :: string
  rc_path_prefix :: string
  rc_method :: "string option"
  rc_status :: u16
  rc_body :: "string option"
  rc_content_type :: "string option"

record response_rule =
  rr_id :: string
  rr_name :: string
  rr_host :: host_pattern
  rr_path_prefix :: string
  rr_method :: "string option"
  rr_status :: u16
  rr_body :: "bytes option"
  rr_content_type :: "string option"

datatype replacement_error = ContentTypeWithoutBody | ReplacementTooLarge | BadContentType

datatype rule_error =
    TooManyRules
  | BadRuleId
  | BadRuleName
  | BadRulePath
  | RuleMethodNotUppercase
  | RuleMethodInvalid
  | BadRuleStatus
  | BodyForbiddenStatus
  | RuleReplacement replacement_error
  | RuleHost host_error

section \<open>Replacement bodies and statuses\<close>

definition max_replacement :: nat where
  "max_replacement = 64 * 1024"

definition default_content_type :: string where
  "default_content_type = ''text/plain; charset=utf-8''"

definition compile_replacement_body ::
  "http_crate \<Rightarrow> string option \<Rightarrow> string option \<Rightarrow> replacement_error + (bytes \<times> string) option"
where
  "compile_replacement_body H body content_type =
     (case body of
        None \<Rightarrow> (if content_type \<noteq> None then Inl ContentTypeWithoutBody else Inr None)
      | Some b \<Rightarrow>
          if max_replacement < length b then Inl ReplacementTooLarge
          else (let ct = (case content_type of None \<Rightarrow> default_content_type | Some t \<Rightarrow> t) in
            if str_trim ct = [] \<or> 128 < length ct \<or> CHR 0x0D \<in> set ct \<or> CHR 0x0A \<in> set ct
            then Inl BadContentType
            else if \<not> header_value_from_str H (str_trim ct) then Inl BadContentType
            else Inr (Some (b, str_trim ct))))"

text \<open>The filter both the rules and the breakpoint decision apply to a replacement status.\<close>

definition replacement_status :: "http_crate \<Rightarrow> u16 \<Rightarrow> u16 option" where
  "replacement_status H n =
     (if status_from_u16 H n
         \<and> (is_success H n \<or> is_redirection H n \<or> is_client_error H n \<or> is_server_error H n)
      then Some n else None)"

section \<open>Rules\<close>

definition rule_id_ok :: "string \<Rightarrow> bool" where
  "rule_id_ok i \<longleftrightarrow>
     i \<noteq> [] \<and> length i \<le> 128
     \<and> list_all (\<lambda>b. ascii_alnum b \<or> b = CHR ''-'' \<or> b = CHR ''_'' \<or> b = CHR ''.'') i"

definition compile_rule_method ::
  "http_crate \<Rightarrow> string option \<Rightarrow> rule_error + string option" where
  "compile_rule_method H m =
     (case m of
        None \<Rightarrow> Inr None
      | Some t \<Rightarrow>
          if t = [] \<or> 16 < length t \<or> \<not> list_all ascii_upper t then Inl RuleMethodNotUppercase
          else if \<not> method_from_bytes H t then Inl RuleMethodInvalid
          else Inr (Some t))"

definition compile_rule ::
  "http_crate \<Rightarrow> string list \<Rightarrow> response_rule_config \<Rightarrow> rule_error + response_rule" where
  "compile_rule H seen config =
     (if \<not> rule_id_ok (rc_id config) \<or> rc_id config \<in> set seen then Inl BadRuleId
      else (let name = str_trim (rc_name config) in
        if name = [] \<or> 80 < length name then Inl BadRuleName
        else if \<not> prefix ''/'' (rc_path_prefix config) \<or> 1024 < length (rc_path_prefix config)
        then Inl BadRulePath
        else and_then (compile_rule_method H (rc_method config)) (\<lambda>method.
          case replacement_status H (rc_status config) of
            None \<Rightarrow> Inl BadRuleStatus
          | Some status \<Rightarrow>
              if status = 204 \<or> status = 205 \<or> status = 304 then Inl BodyForbiddenStatus
              else and_then (map_error RuleReplacement
                     (compile_replacement_body H (rc_body config) (rc_content_type config)))
                (\<lambda>replacement. and_then (map_error RuleHost (host_compile (rc_host config)))
                (\<lambda>host. Inr
                  \<lparr>rr_id = rc_id config, rr_name = name, rr_host = host,
                   rr_path_prefix = rc_path_prefix config, rr_method = method,
                   rr_status = status, rr_body = map_option fst replacement,
                   rr_content_type = map_option snd replacement\<rparr>)))))"

fun compile_enabled ::
  "http_crate \<Rightarrow> string list \<Rightarrow> response_rule_config list \<Rightarrow> rule_error + response_rule list"
where
  "compile_enabled H seen [] = Inr []"
| "compile_enabled H seen (c # cs) =
     and_then (compile_rule H seen c) (\<lambda>r.
       and_then (compile_enabled H (rc_id c # seen) cs) (\<lambda>rs. Inr (r # rs)))"

definition compile_all ::
  "http_crate \<Rightarrow> response_rule_config list \<Rightarrow> rule_error + response_rule list" where
  "compile_all H configs =
     (if 64 < length configs then Inl TooManyRules
      else compile_enabled H [] (filter rc_enabled configs))"

definition rule_matches :: "response_rule \<Rightarrow> string \<Rightarrow> string \<Rightarrow> string \<Rightarrow> bool" where
  "rule_matches r host path method \<longleftrightarrow>
     host_matches (rr_host r) (to_ascii_lowercase host)
     \<and> prefix (rr_path_prefix r) path
     \<and> (case rr_method r of None \<Rightarrow> True | Some expected \<Rightarrow> expected = method)"

definition select_rule ::
  "response_rule list \<Rightarrow> string \<Rightarrow> string \<Rightarrow> string \<Rightarrow> response_rule option" where
  "select_rule rules host path method = find (\<lambda>r. rule_matches r host path method) rules"

section \<open>What validation guarantees\<close>

lemma replacement_status_range:
  assumes "http_documented H"
  shows "replacement_status H n = Some m \<longleftrightarrow> m = n \<and> 200 \<le> n \<and> n \<le> 599"
proof -
  have "status_from_u16 H n
      \<and> (is_success H n \<or> is_redirection H n \<or> is_client_error H n \<or> is_server_error H n)
      \<longleftrightarrow> 200 \<le> n \<and> n \<le> 599"
    using assms unfolding http_documented_def by (auto simp: word_le_nat_alt)
  then show ?thesis unfolding replacement_status_def by auto
qed

lemma replacement_status_None:
  "http_documented H \<Longrightarrow> replacement_status H n = None \<longleftrightarrow> n < 200 \<or> 599 < n"
  using replacement_status_range [of H n n] replacement_status_range [of H n "the (replacement_status H n)"]
  by (cases "replacement_status H n") (auto simp: not_le)

lemma compile_replacement_body_Inr:
  assumes "compile_replacement_body H body ct = Inr (Some (b, t))"
  shows "body = Some b \<and> length b \<le> max_replacement \<and> t \<noteq> [] \<and> header_value_from_str H t"
  using assms
  by (auto simp: compile_replacement_body_def Let_def split: option.splits if_splits)

lemma compile_replacement_body_None:
  "compile_replacement_body H body ct = Inr None \<longleftrightarrow> body = None \<and> ct = None"
  by (auto simp: compile_replacement_body_def Let_def split: option.splits if_splits)

definition rule_ok :: "response_rule \<Rightarrow> bool" where
  "rule_ok r \<longleftrightarrow>
     rule_id_ok (rr_id r) \<and> wf_pattern (rr_host r)
     \<and> rr_name r \<noteq> [] \<and> length (rr_name r) \<le> 80
     \<and> prefix ''/'' (rr_path_prefix r) \<and> length (rr_path_prefix r) \<le> 1024
     \<and> 200 \<le> rr_status r \<and> rr_status r \<le> 599
     \<and> rr_status r \<notin> {204, 205, 304}
     \<and> (rr_body r = None \<longleftrightarrow> rr_content_type r = None)
     \<and> (case rr_body r of None \<Rightarrow> True | Some b \<Rightarrow> length b \<le> max_replacement)
     \<and> (case rr_method r of None \<Rightarrow> True | Some m \<Rightarrow> list_all ascii_upper m)"

lemma compile_rule_Inr:
  assumes "compile_rule H seen config = Inr r"
  shows "rr_id r = rc_id config" and "rule_id_ok (rc_id config)" and "rc_id config \<notin> set seen"
    and "rr_name r \<noteq> [] \<and> length (rr_name r) \<le> 80"
    and "prefix ''/'' (rr_path_prefix r) \<and> length (rr_path_prefix r) \<le> 1024"
    and "compile_rule_method H (rc_method config) = Inr (rr_method r)"
    and "replacement_status H (rc_status config) = Some (rr_status r)"
    and "rr_status r \<notin> {204, 205, 304}"
    and "host_compile (rc_host config) = Inr (rr_host r)"
    and "\<exists>rep. compile_replacement_body H (rc_body config) (rc_content_type config) = Inr rep
           \<and> rr_body r = map_option fst rep \<and> rr_content_type r = map_option snd rep"
  using assms unfolding compile_rule_def Let_def result_simps not_less
  by (auto simp only: not_less de_Morgan_disj insert_iff empty_iff response_rule.select_convs
      sum.inject not_not simp_thms)

lemma compile_rule_ok:
  assumes "http_documented H" and r: "compile_rule H seen config = Inr r"
  shows "rule_ok r"
proof -
  note c = compile_rule_Inr [OF r]
  from c(10) obtain rep where
    rep: "compile_replacement_body H (rc_body config) (rc_content_type config) = Inr rep"
    and body: "rr_body r = map_option fst rep" "rr_content_type r = map_option snd rep" by blast
  have "rr_body r = None \<longleftrightarrow> rr_content_type r = None" using body by simp
  moreover have "case rr_body r of None \<Rightarrow> True | Some b \<Rightarrow> length b \<le> max_replacement"
    using rep body by (cases rep) (auto dest: compile_replacement_body_Inr)
  moreover have "case rr_method r of None \<Rightarrow> True | Some m \<Rightarrow> list_all ascii_upper m"
    using c(6) by (auto simp: compile_rule_method_def split: option.splits if_splits)
  moreover have "200 \<le> rr_status r \<and> rr_status r \<le> 599"
    using c(7) replacement_status_range [OF assms(1)] by simp
  ultimately show ?thesis
    using c(1,2,4,5,8) host_compile_wf [OF c(9)] unfolding rule_ok_def by simp
qed

lemma compile_enabled_ok:
  assumes "http_documented H"
  shows "compile_enabled H seen cs = Inr rs \<Longrightarrow>
    list_all rule_ok rs \<and> map rr_id rs = map rc_id cs
    \<and> distinct (map rc_id cs) \<and> set (map rc_id cs) \<inter> set seen = {}"
proof (induction cs arbitrary: seen rs)
  case Nil
  then show ?case by simp
next
  case (Cons c cs)
  then obtain r rs' where r: "compile_rule H seen c = Inr r"
    and rs': "compile_enabled H (rc_id c # seen) cs = Inr rs'" and rs: "rs = r # rs'"
    by (auto simp: and_then_Inr_iff)
  from Cons.IH [OF rs'] compile_rule_ok [OF assms r] compile_rule_Inr(1,3) [OF r] rs
  show ?case by auto
qed

lemma select_rule_Some_iff:
  "select_rule rules host path method = Some r \<longleftrightarrow>
     (\<exists>before after. rules = before @ r # after \<and> rule_matches r host path method
        \<and> (\<forall>q \<in> set before. \<not> rule_matches q host path method))"
  unfolding select_rule_def by (rule find_Some_iff_split)

section \<open>Properties\<close>

text \<open>
  C40: every rule that passes validation is well-formed: a safe unique identifier, a bounded
  name and path prefix, a final status from 200 to 599 that may carry a body, and a replacement
  body of at most 64 KiB that always comes with a content type. At most 64 rules pass, one for
  each enabled configuration, in the configured order.
\<close>

theorem compile_all_sound:
  assumes "http_documented H" and "compile_all H configs = Inr rules"
  shows "list_all rule_ok rules \<and> distinct (map rr_id rules) \<and> length rules \<le> 64
    \<and> map rr_id rules = map rc_id (filter rc_enabled configs)"
proof -
  from assms(2) have len: "length configs \<le> 64"
    and rules: "compile_enabled H [] (filter rc_enabled configs) = Inr rules"
    by (auto simp: compile_all_def split: if_splits)
  from compile_enabled_ok [OF assms(1) rules]
  have "list_all rule_ok rules" and ids: "map rr_id rules = map rc_id (filter rc_enabled configs)"
    and "distinct (map rc_id (filter rc_enabled configs))" by auto
  moreover from ids have "length rules = length (filter rc_enabled configs)"
    by (metis length_map)
  moreover have "length (filter rc_enabled configs) \<le> 64"
    using len by (meson length_filter_le le_trans)
  ultimately show ?thesis by simp
qed

theorem compile_all_sound_witness:
  "\<exists>rules. compile_all reference_http
     [\<lparr>rc_id = ''r1'', rc_name = ''Down'', rc_enabled = True, rc_host = ''localhost'',
       rc_path_prefix = ''/api'', rc_method = Some ''GET'', rc_status = 503,
       rc_body = Some ''down'', rc_content_type = None\<rparr>,
      \<lparr>rc_id = ''r1'', rc_name = ''Off'', rc_enabled = False, rc_host = ''localhost'',
       rc_path_prefix = ''/'', rc_method = None, rc_status = 204,
       rc_body = None, rc_content_type = None\<rparr>] = Inr rules
     \<and> list_all rule_ok rules \<and> map rr_id rules = [''r1'']"
  (is "\<exists>rules. compile_all _ ?cs = _ \<and> _")
proof -
  let ?r = "\<lparr>rr_id = ''r1'', rr_name = ''Down'', rr_host = Exact ''localhost'',
      rr_path_prefix = ''/api'', rr_method = Some ''GET'', rr_status = 503,
      rr_body = Some ''down'', rr_content_type = Some ''text/plain; charset=utf-8''\<rparr>"
  have c: "compile_all reference_http ?cs = Inr [?r]" by code_simp
  from compile_all_sound [OF reference_http_documented c] c show ?thesis by auto
qed

text \<open>
  The rule applied to a response is the first one in configuration order whose host, path
  prefix and method match; no rule is applied only when none matches.
\<close>

lemma select_rule_first_match:
  "(select_rule rules host path method = Some r \<longleftrightarrow>
      (\<exists>before after. rules = before @ r # after \<and> rule_matches r host path method
         \<and> (\<forall>q \<in> set before. \<not> rule_matches q host path method)))
   \<and> (select_rule rules host path method = None \<longleftrightarrow>
      (\<forall>q \<in> set rules. \<not> rule_matches q host path method))"
  by (intro conjI select_rule_Some_iff) (auto simp: select_rule_def find_None_iff')

lemma select_rule_first_match_witness:
  "\<exists>r. select_rule
     [\<lparr>rr_id = ''a'', rr_name = ''A'', rr_host = Suffix ''dev'', rr_path_prefix = ''/x'',
       rr_method = None, rr_status = 500, rr_body = None, rr_content_type = None\<rparr>,
      \<lparr>rr_id = ''b'', rr_name = ''B'', rr_host = Exact ''api.dev'', rr_path_prefix = ''/'',
       rr_method = None, rr_status = 501, rr_body = None, rr_content_type = None\<rparr>]
     ''API.dev'' ''/y'' ''GET'' = Some r \<and> rr_id r = ''b''"
  (is "\<exists>r. select_rule [?a, ?b] _ _ _ = Some r \<and> _")
proof -
  have "\<not> rule_matches ?a ''API.dev'' ''/y'' ''GET''" and "rule_matches ?b ''API.dev'' ''/y'' ''GET''"
    by code_simp+
  then have "\<exists>before after. [?a, ?b] = before @ ?b # after \<and> rule_matches ?b ''API.dev'' ''/y'' ''GET''
      \<and> (\<forall>q \<in> set before. \<not> rule_matches q ''API.dev'' ''/y'' ''GET'')"
    by (intro exI [of _ "[?a]"] exI [of _ "[]"]) simp
  with select_rule_first_match [of "[?a, ?b]" "''API.dev''" "''/y''" "''GET''" ?b]
  show ?thesis by auto
qed

end
