(* ===== verification/Body_Search.thy ===== *)
theory Body_Search
  imports Prelude
begin

text \<open>
  Search in a recorded body (\<open>crates/engine/src/proxy/bodies/inspect.rs\<close>, \<open>scan\<close>): a linear
  Knuth-Morris-Pratt scan of at most \<open>SCAN_BYTES\<close> bytes, read in pages, that reports either a
  match or the offset from which the next scan has to start so that no match is lost.

  Indexing past the end of a slice panics, so every index goes through \<open>nth_opt\<close>, and the inner
  \<open>while\<close> loops on the failure table, which stop only for a correct table, are a
  \<open>partial_function (option)\<close>: \<open>None\<close> is a panic or a loop that does not end. The lemmas show
  that neither happens.
\<close>

definition page_size :: nat where
  "page_size = 64 * 1024"

definition scan_bytes :: nat where
  "scan_bytes = 4 * 1024 * 1024"

definition nth_opt :: "'a list \<Rightarrow> nat \<Rightarrow> 'a option" where
  "nth_opt xs i = (if i < length xs then Some (xs ! i) else None)"

lemma nth_opt_simps [simp]:
  "i < length xs \<Longrightarrow> nth_opt xs i = Some (xs ! i)"
  by (simp add: nth_opt_def)

text \<open>\<open>while matched > 0 && b != needle[matched] { matched = prefix[matched - 1]; }\<close>\<close>

partial_function (option) fall_back :: "'a list \<Rightarrow> nat list \<Rightarrow> 'a \<Rightarrow> nat \<Rightarrow> nat option" where
  "fall_back needle table b matched =
     (if matched = 0 then Some 0
      else Option.bind (nth_opt needle matched) (\<lambda>c.
        if b \<noteq> c
        then Option.bind (nth_opt table (matched - 1)) (\<lambda>m. fall_back needle table b m)
        else Some matched))"

declare fall_back.simps [code]

text \<open>The loop followed by \<open>if b == needle[matched] { matched += 1; }\<close>.\<close>

definition advance :: "'a list \<Rightarrow> nat list \<Rightarrow> 'a \<Rightarrow> nat \<Rightarrow> nat option" where
  "advance needle table b matched =
     Option.bind (fall_back needle table b matched) (\<lambda>m.
       Option.bind (nth_opt needle m) (\<lambda>c. Some (if b = c then Suc m else m)))"

fun table_loop :: "'a list \<Rightarrow> nat list \<Rightarrow> nat \<Rightarrow> nat list \<Rightarrow> nat list option" where
  "table_loop needle [] matched table = Some table"
| "table_loop needle (index # rest) matched table =
     Option.bind (nth_opt needle index) (\<lambda>b.
       Option.bind (advance needle table b matched) (\<lambda>m.
         if index < length table then table_loop needle rest m (table[index := m]) else None))"

definition failure_table :: "'a list \<Rightarrow> nat list option" where
  "failure_table needle =
     table_loop needle [1..<length needle] 0 (replicate (length needle) 0)"

record search_step =
  found :: "nat option"
  next_offset :: nat
  scanned_to :: nat
  search_done :: bool

datatype scan_error = SearchCancelled | CannotReadRange

datatype chunk_result = Hit nat | Continue nat nat

text \<open>The bytes of one buffer: position and matched length after it, or the first hit.\<close>

fun scan_chunk :: "'a list \<Rightarrow> nat list \<Rightarrow> 'a list \<Rightarrow> nat \<Rightarrow> nat \<Rightarrow> chunk_result option" where
  "scan_chunk needle table [] position matched = Some (Continue position matched)"
| "scan_chunk needle table (b # bs) position matched =
     Option.bind (advance needle table b matched) (\<lambda>m.
       if m = length needle then Some (Hit (Suc position))
       else scan_chunk needle table bs (Suc position) m)"

text \<open>
  The read loop. \<open>src\<close> is what the reader still holds; \<open>cancelled\<close> answers the check made
  before the buffer that starts at a position is read.
\<close>

function scan_loop ::
  "'a list \<Rightarrow> nat list \<Rightarrow> (nat \<Rightarrow> bool) \<Rightarrow> nat \<Rightarrow> 'a list \<Rightarrow> nat \<Rightarrow> nat
   \<Rightarrow> (scan_error + chunk_result) option" where
  "scan_loop needle table cancelled stop src position matched =
     (if stop \<le> position then Some (Inr (Continue position matched))
      else if cancelled position then Some (Inl SearchCancelled)
      else (let count = min page_size (stop - position) in
        if length src < count then Some (Inl CannotReadRange)
        else case scan_chunk needle table (take count src) position matched of
          None \<Rightarrow> None
        | Some (Hit p) \<Rightarrow> Some (Inr (Hit p))
        | Some (Continue p m) \<Rightarrow>
            scan_loop needle table cancelled stop (drop count src) (position + count) m))"
  by pat_completeness auto
termination
  by (relation "measure (\<lambda>(_, _, _, stop, _, position, _). stop - position)")
     (auto simp: page_size_def)

declare scan_loop.simps [simp del]

definition scan_stop :: "nat \<Rightarrow> nat \<Rightarrow> nat" where
  "scan_stop start stop_at = min stop_at (min (start + scan_bytes) (2 ^ 64 - 1))"

definition scan ::
  "'a list \<Rightarrow> 'a list \<Rightarrow> nat \<Rightarrow> nat \<Rightarrow> (nat \<Rightarrow> bool) \<Rightarrow> (scan_error + search_step) option" where
  "scan src needle start end cancelled =
     Option.bind (failure_table needle) (\<lambda>table.
       let stop = scan_stop start end in
       case scan_loop needle table cancelled stop src start 0 of
         None \<Rightarrow> None
       | Some (Inl e) \<Rightarrow> Some (Inl e)
       | Some (Inr (Hit position)) \<Rightarrow>
           Some (Inr \<lparr>found = Some (position - length needle),
                      next_offset = position - length needle + 1,
                      scanned_to = position, search_done = True\<rparr>)
       | Some (Inr (Continue position matched)) \<Rightarrow>
           Some (Inr \<lparr>found = None,
                      next_offset = (if stop = end then end else position - matched),
                      scanned_to = stop, search_done = (stop = end)\<rparr>))"

section \<open>The automaton behind the failure table\<close>

text \<open>
  \<open>longest n t m\<close>: the first \<open>m\<close> symbols of the needle are the longest prefix of it that ends
  the text \<open>t\<close>.
\<close>

definition longest :: "'a list \<Rightarrow> 'a list \<Rightarrow> nat \<Rightarrow> bool" where
  "longest n t m \<longleftrightarrow>
     m \<le> length n \<and> suffix (take m n) t
     \<and> (\<forall>k. m < k \<and> k \<le> length n \<longrightarrow> \<not> suffix (take k n) t)"

text \<open>Entry \<open>j\<close> of the table describes the needle scanned from its second symbol.\<close>

definition table_upto :: "'a list \<Rightarrow> nat list \<Rightarrow> nat \<Rightarrow> bool" where
  "table_upto n table i \<longleftrightarrow>
     length table = length n \<and> (\<forall>j < i. longest n (drop 1 (take (Suc j) n)) (table ! j))"

lemma longest_Nil: "longest n [] 0"
  by (auto simp: longest_def)

lemma longest_le_text: "longest n t m \<Longrightarrow> m \<le> length t"
  by (auto simp: longest_def dest: suffix_length_le)

lemma suffix_snoc_take:
  assumes "j < length n"
  shows "suffix (take (Suc j) n) (t @ [b]) \<longleftrightarrow> n ! j = b \<and> suffix (take j n) t"
  using assms by (auto simp: take_Suc_conv_app_nth)

text \<open>Two prefixes of the needle that end the same text end each other.\<close>

lemma suffix_take_drop1:
  assumes "suffix (take m n) t" and "suffix (take k n) t" and "k < m" and "m \<le> length n"
  shows "suffix (take k n) (drop 1 (take m n))"
proof -
  have "suffix (take k n) (take m n)"
    using suffix_length_suffix [OF assms(2,1)] assms(3,4) by simp
  then obtain us where us: "take m n = us @ take k n" by (auto simp: suffix_def)
  with assms(3,4) have "us \<noteq> []" by (metis append_Nil length_take min.absorb2 less_irrefl
        min.absorb4 order.strict_implies_order order_less_le_trans)
  with us have "drop 1 (take m n) = tl us @ take k n" by (cases us) auto
  then show ?thesis by (auto simp: suffix_def)
qed

lemma fall_back_spec:
  assumes "table_upto n table m" and "m < length n" and "suffix (take m n) t"
    and "\<forall>k. m < k \<and> k < length n \<and> suffix (take k n) t \<longrightarrow> n ! k \<noteq> b"
  shows "\<exists>r. fall_back n table b m = Some r \<and> r \<le> m \<and> suffix (take r n) t \<and> (r = 0 \<or> n ! r = b)
    \<and> (\<forall>k. r < k \<and> k < length n \<and> suffix (take k n) t \<longrightarrow> n ! k \<noteq> b)"
  using assms
proof (induction m rule: less_induct)
  case (less m)
  show ?case
  proof (cases "m = 0 \<or> n ! m = b")
    case True
    with less.prems show ?thesis by (auto simp: fall_back.simps)
  next
    case False
    let ?m' = "table ! (m - 1)"
    have "m - 1 < m" using False by simp
    with less.prems(1) have l: "longest n (drop 1 (take m n)) ?m'"
      and len: "length table = length n"
      unfolding table_upto_def by (force, simp)
    have m': "?m' < m"
      using longest_le_text [OF l] False less.prems(2) by (simp; linarith)
    have sfx: "suffix (take ?m' n) t"
    proof -
      from l have "suffix (take ?m' n) (drop 1 (take m n))" by (simp add: longest_def)
      also have "suffix (drop 1 (take m n)) (take m n)" by (rule suffix_drop)
      also note less.prems(3)
      finally show ?thesis .
    qed
    have none: "\<forall>k. ?m' < k \<and> k < length n \<and> suffix (take k n) t \<longrightarrow> n ! k \<noteq> b"
    proof (intro allI impI)
      fix k assume k: "?m' < k \<and> k < length n \<and> suffix (take k n) t"
      consider "k < m" | "k = m" | "m < k" by linarith
      then show "n ! k \<noteq> b"
      proof cases
        case 1
        with suffix_take_drop1 [of m n t k] less.prems(2,3) k
        have "suffix (take k n) (drop 1 (take m n))" by simp
        with l k show ?thesis by (simp add: longest_def)
      qed (use False k less.prems(4) in auto)
    qed
    have "table_upto n table ?m'" using less.prems(1) m' by (simp add: table_upto_def)
    from less.IH [OF m' this _ sfx none] m' less.prems(2) obtain r where
      "fall_back n table b ?m' = Some r \<and> r \<le> ?m' \<and> suffix (take r n) t \<and> (r = 0 \<or> n ! r = b)
       \<and> (\<forall>k. r < k \<and> k < length n \<and> suffix (take k n) t \<longrightarrow> n ! k \<noteq> b)" by force
    moreover have "fall_back n table b m = fall_back n table b ?m'"
      using False less.prems(2) len by (subst fall_back.simps) auto
    ultimately show ?thesis using m' by (intro exI [of _ r]) simp
  qed
qed

text \<open>Reading one symbol keeps the matched length the longest one.\<close>

lemma advance_spec:
  assumes tab: "table_upto n table m" and m: "m < length n" and l: "longest n t m"
  shows "\<exists>r. advance n table b m = Some r \<and> longest n (t @ [b]) r \<and> r \<le> Suc m"
proof -
  have "\<forall>k. m < k \<and> k < length n \<and> suffix (take k n) t \<longrightarrow> n ! k \<noteq> b"
    using l by (auto simp: longest_def)
  with fall_back_spec [OF tab m, of t b] l obtain r where
    r: "fall_back n table b m = Some r" "r \<le> m" "suffix (take r n) t" "r = 0 \<or> n ! r = b"
    and none: "\<forall>k. r < k \<and> k < length n \<and> suffix (take k n) t \<longrightarrow> n ! k \<noteq> b"
    by (auto simp: longest_def)
  let ?r = "if b = n ! r then Suc r else r"
  have adv: "advance n table b m = Some ?r"
    using r m by (simp add: advance_def)
  have long: "\<not> suffix (take k n) (t @ [b])" if k: "?r < k" "k \<le> length n" for k
  proof -
    obtain j where j: "k = Suc j" using k(1) by (cases k) auto
    have "r < j \<or> (r = j \<and> b \<noteq> n ! r)" using k(1) j by (auto split: if_splits)
    moreover have "j < length n" using k(2) j by simp
    ultimately show ?thesis
      using none unfolding j suffix_snoc_take [OF \<open>j < length n\<close>] by auto
  qed
  have "suffix (take ?r n) (t @ [b])"
  proof (cases "b = n ! r")
    case True
    have "r < length n" using r(2) m by simp
    with True r(3) show ?thesis by (simp only: if_True suffix_snoc_take simp_thms)
  next
    case False
    with r(4) show ?thesis by auto
  qed
  with long r m adv show ?thesis by (auto simp: longest_def)
qed

lemma table_upto_mono: "table_upto n table i \<Longrightarrow> j \<le> i \<Longrightarrow> table_upto n table j"
  by (simp add: table_upto_def)

lemma table_upto_update:
  "table_upto n table i \<Longrightarrow> i < length n \<Longrightarrow> longest n (drop 1 (take (Suc i) n)) m
   \<Longrightarrow> table_upto n (table[i := m]) (Suc i)"
  by (auto simp: table_upto_def less_Suc_eq)

lemma table_loop_spec:
  assumes "table_upto n table i" and "0 < i" and "i \<le> length n"
    and "longest n (drop 1 (take i n)) m"
  shows "\<exists>tab. table_loop n [i..<length n] m table = Some tab \<and> table_upto n tab (length n)"
  using assms
proof (induction "length n - i" arbitrary: i m table)
  case 0
  then show ?case by simp
next
  case (Suc d)
  then have i: "i < length n" by simp
  have m: "m < i" using longest_le_text [OF Suc.prems(4)] Suc.prems(2) i by simp
  have t: "drop 1 (take (Suc i) n) = drop 1 (take i n) @ [n ! i]"
    using Suc.prems(2) i by (simp add: take_Suc_conv_app_nth)
  obtain r where r: "advance n table (n ! i) m = Some r" "longest n (drop 1 (take (Suc i) n)) r"
    using advance_spec [OF table_upto_mono [OF Suc.prems(1)] _ Suc.prems(4), of "n ! i"] m i t
    by auto
  from table_upto_update [OF Suc.prems(1) i r(2)]
  have tab: "table_upto n (table[i := r]) (Suc i)" .
  have len: "length table = length n" using Suc.prems(1) by (simp add: table_upto_def)
  have "d = length n - Suc i" using Suc.hyps(2) by arith
  from Suc.hyps(1) [OF this tab _ _ r(2)] i obtain tab' where
    "table_loop n [Suc i..<length n] r (table[i := r]) = Some tab'"
    and "table_upto n tab' (length n)" by auto
  with r(1) i len show ?case by (simp add: upt_conv_Cons)
qed

lemma failure_table_spec:
  assumes "n \<noteq> []"
  shows "\<exists>tab. failure_table n = Some tab \<and> table_upto n tab (length n)"
proof -
  have 1: "drop 1 (take (Suc 0) n) = []" by (cases n) auto
  have "table_upto n (replicate (length n) 0) 1"
    using assms 1 longest_Nil [of n] by (auto simp: table_upto_def)
  with table_loop_spec [of n _ 1 0] assms 1 longest_Nil [of n] show ?thesis
    unfolding failure_table_def by (simp add: Suc_leI)
qed

section \<open>The scan\<close>

text \<open>An occurrence of the needle that starts at an offset of the body.\<close>

definition occurs_at :: "'a list \<Rightarrow> 'a list \<Rightarrow> nat \<Rightarrow> bool" where
  "occurs_at needle body p \<longleftrightarrow>
     p + length needle \<le> length body \<and> take (length needle) (drop p body) = needle"

definition first_occurrence :: "'a list \<Rightarrow> 'a list \<Rightarrow> nat \<Rightarrow> nat \<Rightarrow> nat \<Rightarrow> bool" where
  "first_occurrence needle body start end p \<longleftrightarrow>
     start \<le> p \<and> p + length needle \<le> end \<and> occurs_at needle body p
     \<and> (\<forall>q. start \<le> q \<and> q < p \<longrightarrow> \<not> occurs_at needle body q)"

text \<open>
  \<open>scanned\<close>: the scan started at \<open>start\<close> has read the body up to \<open>position\<close> without a hit, and
  \<open>matched\<close> is the longest needle prefix that ends there.
\<close>

definition read_text :: "'a list \<Rightarrow> nat \<Rightarrow> nat \<Rightarrow> 'a list" where
  "read_text body start position = take (position - start) (drop start body)"

definition scanned :: "'a list \<Rightarrow> 'a list \<Rightarrow> nat \<Rightarrow> nat \<Rightarrow> nat \<Rightarrow> bool" where
  "scanned n body start position matched \<longleftrightarrow>
     start \<le> position \<and> position \<le> length body \<and> matched < length n
     \<and> longest n (read_text body start position) matched
     \<and> (\<forall>q. start \<le> q \<and> q + length n \<le> position \<longrightarrow> \<not> occurs_at n body q)"

lemma read_text_Suc:
  "start \<le> p \<Longrightarrow> p < length body \<Longrightarrow>
   read_text body start (Suc p) = read_text body start p @ [body ! p]"
  by (simp add: read_text_def Suc_diff_le take_Suc_conv_app_nth)

lemma suffix_read_text:
  assumes "start \<le> q" and "q + k = p" and "p \<le> length body"
  shows "suffix xs (read_text body start p) \<Longrightarrow> length xs = k \<Longrightarrow> take k (drop q body) = xs"
    and "take k (drop q body) = xs \<Longrightarrow> suffix xs (read_text body start p)"
proof -
  have split: "read_text body start p = read_text body start q @ take k (drop q body)"
  proof -
    have "p - start = (q - start) + k" using assms by simp
    then have "read_text body start p = take (q - start) (drop start body)
        @ take k (drop (q - start) (drop start body))"
      unfolding read_text_def by (simp only: take_add)
    with assms(1) show ?thesis by (simp add: read_text_def add.commute)
  qed
  {
    assume "suffix xs (read_text body start p)" and "length xs = k"
    moreover have "length (take k (drop q body)) = k" using assms by simp
    ultimately show "take k (drop q body) = xs"
      using split by (auto simp: suffix_def append_eq_append_conv)
  }
  {
    assume "take k (drop q body) = xs"
    with split show "suffix xs (read_text body start p)" by (auto simp: suffix_def)
  }
qed

lemma occurs_at_iff_suffix:
  assumes "start \<le> q" and "q + length n \<le> length body"
  shows "occurs_at n body q \<longleftrightarrow> suffix n (read_text body start (q + length n))"
  using suffix_read_text [OF assms(1) refl assms(2), where xs = n] assms(2)
  by (auto simp: occurs_at_def)

lemma scanned_start: "n \<noteq> [] \<Longrightarrow> start \<le> length body \<Longrightarrow> scanned n body start start 0"
  by (cases n) (auto simp: scanned_def read_text_def longest_Nil)

text \<open>An occurrence not yet ruled out starts within the matched prefix.\<close>

lemma scanned_no_earlier:
  assumes s: "scanned n body start p m" and q: "start \<le> q" "q < p - m"
  shows "\<not> occurs_at n body q"
proof
  assume occ: "occurs_at n body q"
  show False
  proof (cases "q + length n \<le> p")
    case True
    with s q occ show False by (auto simp: scanned_def)
  next
    case False
    let ?k = "p - q"
    have k: "m < ?k" "?k < length n" using q False by auto
    from s have p: "p \<le> length body" by (simp add: scanned_def)
    have "take ?k (drop q body) = take ?k n"
    proof -
      from occ have "take (length n) (drop q body) = n" by (simp add: occurs_at_def)
      then have "take ?k n = take ?k (take (length n) (drop q body))" by simp
      with k show ?thesis by (simp add: min_def)
    qed
    then have "suffix (take ?k n) (read_text body start p)"
      using suffix_read_text(2) [OF q(1) _ p, of ?k] q by simp
    with k s show False by (auto simp: scanned_def longest_def)
  qed
qed

lemma scanned_step:
  assumes tab: "table_upto n table (length n)" and s: "scanned n body start p m"
    and p: "p < length body"
  shows "\<exists>r. advance n table (body ! p) m = Some r
     \<and> (if r = length n then first_occurrence n body start (Suc p) (Suc p - length n)
        else scanned n body start (Suc p) r)"
proof -
  from s have m: "m < length n" and l: "longest n (read_text body start p) m" and sp: "start \<le> p"
    by (auto simp: scanned_def)
  have "table_upto n table m" using tab m by (simp add: table_upto_def)
  from advance_spec [OF this m l] obtain r where
    r: "advance n table (body ! p) m = Some r"
    and lr: "longest n (read_text body start (Suc p)) r"
    using sp p by (auto simp: read_text_Suc)
  have before: "\<not> occurs_at n body q" if "start \<le> q" "q + length n \<le> p" for q
    using s that by (auto simp: scanned_def)
  have "if r = length n then first_occurrence n body start (Suc p) (Suc p - length n)
      else scanned n body start (Suc p) r"
  proof (cases "r = length n")
    case True
    let ?q = "Suc p - length n"
    from lr True have len: "length n \<le> Suc p - start"
      by (auto simp: read_text_def dest!: longest_le_text)
    then have q: "start \<le> ?q" "?q + length n = Suc p" using m by auto
    have "occurs_at n body ?q"
      using occurs_at_iff_suffix [of start ?q n body] q p lr True by (simp add: longest_def)
    moreover have "\<not> occurs_at n body q'" if "start \<le> q'" "q' < ?q" for q'
      using before [of q'] that q by simp
    ultimately show ?thesis using q True by (auto simp: first_occurrence_def)
  next
    case False
    have r_less: "r < length n" using lr False by (simp add: longest_def)
    have "\<not> occurs_at n body q" if "start \<le> q" "q + length n \<le> Suc p" for q
    proof (cases "q + length n = Suc p")
      case True
      have "\<not> suffix n (read_text body start (Suc p))"
        using lr r_less by (auto simp: longest_def dest: spec [of _ "length n"])
      with occurs_at_iff_suffix [of start q n body] that(1) True p show ?thesis by simp
    qed (use before that in auto)
    with sp p r_less lr False show ?thesis by (simp add: scanned_def)
  qed
  with r show ?thesis by blast
qed

text \<open>One buffer: the scan either hits the first occurrence or goes on to the buffer's end.\<close>

lemma scan_chunk_spec:
  assumes "table_upto n table (length n)"
  shows "scanned n body start p m \<Longrightarrow> bs = take (length bs) (drop p body) \<Longrightarrow>
    p + length bs \<le> length body \<Longrightarrow>
    (\<exists>q. scan_chunk n table bs p m = Some (Hit q) \<and> q \<le> p + length bs
       \<and> first_occurrence n body start q (q - length n) \<and> length n \<le> q)
    \<or> (\<exists>r. scan_chunk n table bs p m = Some (Continue (p + length bs) r)
       \<and> scanned n body start (p + length bs) r)"
proof (induction bs arbitrary: p m)
  case Nil
  then show ?case by simp
next
  case (Cons b bs)
  from Cons.prems(3) have p: "p < length body" by simp
  from Cons.prems(2) p have b: "b = body ! p" and bs: "bs = take (length bs) (drop (Suc p) body)"
    by (simp_all add: Cons_nth_drop_Suc [OF p, symmetric])
  from scanned_step [OF assms Cons.prems(1) p] obtain r where
    r: "advance n table b m = Some r" and
    cont: "if r = length n then first_occurrence n body start (Suc p) (Suc p - length n)
           else scanned n body start (Suc p) r" using b by auto
  show ?case
  proof (cases "r = length n")
    case True
    with cont have f: "first_occurrence n body start (Suc p) (Suc p - length n)" by simp
    then have "length n \<le> Suc p" by (auto simp: first_occurrence_def)
    with r True f show ?thesis by simp
  next
    case False
    with cont have "scanned n body start (Suc p) r" by simp
    from Cons.IH [OF this bs] Cons.prems(3) False r show ?thesis by auto
  qed
qed

lemma first_occurrence_widen:
  "first_occurrence n body start q p \<Longrightarrow> q \<le> stop \<Longrightarrow> first_occurrence n body start stop p"
  by (auto simp: first_occurrence_def)

text \<open>The outcome of the read loop, when it is not cancelled and the range is readable.\<close>

definition scan_outcome ::
  "'a list \<Rightarrow> 'a list \<Rightarrow> nat \<Rightarrow> nat \<Rightarrow> (scan_error + chunk_result) option \<Rightarrow> bool" where
  "scan_outcome n body start stop res \<longleftrightarrow>
     (\<exists>q. res = Some (Inr (Hit q)) \<and> length n \<le> q \<and> q \<le> stop
        \<and> first_occurrence n body start stop (q - length n))
     \<or> (\<exists>r. res = Some (Inr (Continue stop r)) \<and> scanned n body start stop r)"

lemma scan_loop_spec:
  assumes tab: "table_upto n table (length n)" and "\<And>p. \<not> cancelled p"
    and "stop \<le> length body"
  shows "scanned n body start p m \<Longrightarrow> p \<le> stop \<Longrightarrow>
    scan_outcome n body start stop (scan_loop n table cancelled stop (drop p body) p m)"
proof (induction "stop - p" arbitrary: p m rule: less_induct)
  case less
  show ?case
  proof (cases "stop \<le> p")
    case True
    with less.prems show ?thesis by (simp add: scan_loop.simps scan_outcome_def)
  next
    case False
    define count where "count = min page_size (stop - p)"
    let ?bs = "take count (drop p body)"
    have count: "count \<le> length body - p" "0 < count" "count \<le> stop - p"
      using False assms(3) by (auto simp: page_size_def count_def)
    then have len: "length ?bs = count" by simp
    then have bs: "?bs = take (length ?bs) (drop p body)" "p + length ?bs \<le> length body"
      using assms(3) False count by auto
    have unfold: "scan_loop n table cancelled stop (drop p body) p m =
        (case scan_chunk n table ?bs p m of
           None \<Rightarrow> None
         | Some (Hit q) \<Rightarrow> Some (Inr (Hit q))
         | Some (Continue q r) \<Rightarrow>
             scan_loop n table cancelled stop (drop count (drop p body)) (p + count) r)"
    proof -
      have "\<not> length (drop p body) < count" using count(1) by simp
      with False assms(2) [of p] show ?thesis
        by (subst scan_loop.simps) (simp only: Let_def if_False count_def [symmetric])
    qed
    from scan_chunk_spec [OF tab less.prems(1) bs] consider
        (hit) q where "scan_chunk n table ?bs p m = Some (Hit q)" "q \<le> p + count"
          "first_occurrence n body start q (q - length n)" "length n \<le> q"
      | (more) r where "scan_chunk n table ?bs p m = Some (Continue (p + count) r)"
          "scanned n body start (p + count) r"
      using len by auto
    then show ?thesis
    proof cases
      case hit
      have "q \<le> stop" using hit(2) False count(3) by simp
      with hit first_occurrence_widen [OF hit(3) this] unfold show ?thesis
        by (simp add: scan_outcome_def)
    next
      case more
      have "scan_outcome n body start stop
          (scan_loop n table cancelled stop (drop (p + count) body) (p + count) r)"
        by (rule less.hyps) (use more(2) count False in auto)
      with more(1) unfold show ?thesis by (simp add: add.commute)
    qed
  qed
qed

section \<open>Properties\<close>

lemma scan_result:
  assumes n: "n \<noteq> []" and body: "start \<le> end" "end \<le> length body" "end < 2 ^ 64"
    and "\<forall>p. \<not> cancelled p"
  shows "\<exists>step. scan (drop start body) n start end cancelled = Some (Inr step)
     \<and> scanned_to step \<le> scan_stop start end
     \<and> (case found step of
          Some p \<Rightarrow> first_occurrence n body start (scan_stop start end) p
            \<and> next_offset step = Suc p \<and> search_done step
        | None \<Rightarrow> (\<forall>q. start \<le> q \<and> q < next_offset step \<and> q + length n \<le> end
              \<longrightarrow> \<not> occurs_at n body q)
            \<and> (search_done step \<longleftrightarrow> scan_stop start end = end)
            \<and> (search_done step \<longrightarrow> next_offset step = end)
            \<and> (\<not> search_done step \<longrightarrow> start + scan_bytes < next_offset step + length n
                 \<and> next_offset step \<le> end))"
proof -
  let ?stop = "scan_stop start end"
  from failure_table_spec [OF n] obtain tab where
    tab: "failure_table n = Some tab" "table_upto n tab (length n)" by blast
  have stop: "start \<le> ?stop" "?stop \<le> end" using body by (auto simp: scan_stop_def)
  then have "?stop \<le> length body" using body(2) by simp
  from scan_loop_spec [OF tab(2) _ this scanned_start [OF n] stop(1)] body assms(5)
  have out: "scan_outcome n body start ?stop
      (scan_loop n tab cancelled ?stop (drop start body) start 0)" by simp
  from out consider
      (hit) q where "scan_loop n tab cancelled ?stop (drop start body) start 0 = Some (Inr (Hit q))"
        "q \<le> ?stop" "first_occurrence n body start ?stop (q - length n)"
    | (none) r where
        "scan_loop n tab cancelled ?stop (drop start body) start 0 = Some (Inr (Continue ?stop r))"
        "scanned n body start ?stop r"
    by (auto simp: scan_outcome_def)
  then show ?thesis
  proof cases
    case hit
    then show ?thesis using tab(1) by (simp add: scan_def Let_def)
  next
    case none
    let ?step = "\<lparr>found = None, next_offset = if ?stop = end then end else ?stop - r,
      scanned_to = ?stop, search_done = (?stop = end)\<rparr>"
    have s: "scan (drop start body) n start end cancelled = Some (Inr ?step)"
      using none tab(1) by (simp add: scan_def Let_def)
    have early: "\<not> occurs_at n body q"
      if "start \<le> q" "q < next_offset ?step" "q + length n \<le> end" for q
    proof (cases "?stop = end")
      case True
      with that none(2) show ?thesis by (auto simp: scanned_def)
    next
      case False
      with that scanned_no_earlier [OF none(2) that(1)] show ?thesis by simp
    qed
    have "start + scan_bytes < next_offset ?step + length n \<and> next_offset ?step \<le> end"
      if "?stop \<noteq> end"
    proof -
      have "?stop = start + scan_bytes"
        using that body(3) by (auto simp: scan_stop_def min_def split: if_splits)
      moreover have "r < length n" "r \<le> ?stop"
        using none(2) longest_le_text [of n "read_text body start ?stop" r]
        by (auto simp: scanned_def read_text_def)
      ultimately show ?thesis using that stop(2) by (simp; linarith)
    qed
    with s early show ?thesis by (intro exI [of _ ?step]) simp
  qed
qed

text \<open>
  What a scan from \<open>start\<close> owes its client: a hit is the first occurrence; without a hit no
  occurrence inside the range starts before the offset handed to the next scan, and a scan that
  is not the last one moves on.
\<close>

definition step_ok :: "'a list \<Rightarrow> 'a list \<Rightarrow> nat \<Rightarrow> nat \<Rightarrow> search_step \<Rightarrow> bool" where
  "step_ok n body start end step \<longleftrightarrow>
     (case found step of
        Some p \<Rightarrow> first_occurrence n body start end p \<and> next_offset step = Suc p \<and> search_done step
      | None \<Rightarrow>
          (\<forall>q. start \<le> q \<and> q < next_offset step \<and> q + length n \<le> end \<longrightarrow> \<not> occurs_at n body q)
          \<and> (if search_done step then next_offset step = end
             else start < next_offset step \<and> next_offset step \<le> end))"

text \<open>
  C26: on a recorded range a scan that is not cancelled returns, without panic or endless loop,
  and meets \<open>step_ok\<close>.
\<close>

theorem scan_correct:
  assumes "n \<noteq> []" and "length n \<le> 4096" and "start \<le> end" and "end \<le> length body"
    and "end < 2 ^ 64" and "\<forall>p. \<not> cancelled p"
  shows "\<exists>step. scan (drop start body) n start end cancelled = Some (Inr step)
     \<and> step_ok n body start end step"
proof -
  from scan_result [OF assms(1,3-6)] obtain step where
    step: "scan (drop start body) n start end cancelled = Some (Inr step)" and
    spec: "case found step of
          Some p \<Rightarrow> first_occurrence n body start (scan_stop start end) p
            \<and> next_offset step = Suc p \<and> search_done step
        | None \<Rightarrow> (\<forall>q. start \<le> q \<and> q < next_offset step \<and> q + length n \<le> end
              \<longrightarrow> \<not> occurs_at n body q)
            \<and> (search_done step \<longleftrightarrow> scan_stop start end = end)
            \<and> (search_done step \<longrightarrow> next_offset step = end)
            \<and> (\<not> search_done step \<longrightarrow> start + scan_bytes < next_offset step + length n
                 \<and> next_offset step \<le> end)" by blast
  have "scan_stop start end \<le> end" by (simp add: scan_stop_def)
  moreover have "start < next_offset step" if "start + scan_bytes < next_offset step + length n"
    using that assms(2) by (simp add: scan_bytes_def)
  ultimately have "step_ok n body start end step"
    using spec by (cases "found step") (auto simp: step_ok_def intro: first_occurrence_widen)
  with step show ?thesis by blast
qed

theorem scan_correct_witness:
  "\<exists>step. scan (drop 1 ''abababa'') ''ababa'' 1 7 (\<lambda>_. False) = Some (Inr step)
     \<and> step_ok ''ababa'' ''abababa'' 1 7 step"
  by (rule scan_correct) simp_all

text \<open>
  A client repeats the scan from \<open>next_offset\<close> until it is done, as the integration tests do.
  \<open>fuel\<close> bounds the number of scans.
\<close>

fun search_all :: "nat \<Rightarrow> 'a list \<Rightarrow> 'a list \<Rightarrow> nat \<Rightarrow> nat \<Rightarrow> (nat option) option" where
  "search_all 0 body n start end = None"
| "search_all (Suc fuel) body n start end =
     (case scan (drop start body) n start end (\<lambda>_. False) of
        Some (Inr step) \<Rightarrow>
          (if search_done step then Some (found step)
           else search_all fuel body n (next_offset step) end)
      | _ \<Rightarrow> None)"

definition search_result_ok :: "'a list \<Rightarrow> 'a list \<Rightarrow> nat \<Rightarrow> nat \<Rightarrow> nat option \<Rightarrow> bool" where
  "search_result_ok n body start end r \<longleftrightarrow>
     (case r of
        Some p \<Rightarrow> first_occurrence n body start end p
      | None \<Rightarrow> (\<forall>q. start \<le> q \<and> q + length n \<le> end \<longrightarrow> \<not> occurs_at n body q))"

lemma step_ok_last:
  assumes "step_ok n body start end step" and "search_done step" and "n \<noteq> []"
  shows "search_result_ok n body start end (found step)"
proof (cases "found step")
  case None
  have "q < end" if "q + length n \<le> end" for q using that assms(3) by (cases n) auto
  with None assms show ?thesis by (auto simp: step_ok_def search_result_ok_def)
qed (use assms in \<open>auto simp: step_ok_def search_result_ok_def\<close>)

lemma search_result_shift:
  assumes "search_result_ok n body next end r" and "start < next"
    and early: "\<And>q. start \<le> q \<Longrightarrow> q < next \<Longrightarrow> q + length n \<le> end \<Longrightarrow> \<not> occurs_at n body q"
  shows "search_result_ok n body start end r"
proof (cases r)
  case None
  have "\<not> occurs_at n body q" if "start \<le> q" "q + length n \<le> end" for q
    using that assms None by (cases "q < next") (auto simp: search_result_ok_def)
  with None show ?thesis by (simp add: search_result_ok_def)
next
  case (Some p)
  with assms(1) have p: "first_occurrence n body next end p" by (simp add: search_result_ok_def)
  have "\<not> occurs_at n body q" if "start \<le> q" "q < p" for q
    using that p early [of q] by (cases "q < next") (auto simp: first_occurrence_def)
  with Some p assms(2) show ?thesis by (auto simp: search_result_ok_def first_occurrence_def)
qed

text \<open>
  C27: repeating the scan finds the first occurrence of the needle in the range, also one that
  crosses buffers or scans, or reports that there is none; as many scans as the range has bytes,
  plus one, are always enough.
\<close>

theorem search_all_correct:
  assumes "n \<noteq> []" and "length n \<le> 4096" and "end \<le> length body" and "end < 2 ^ 64"
    and "start \<le> end" and "end - start < fuel"
  shows "\<exists>r. search_all fuel body n start end = Some r \<and> search_result_ok n body start end r"
  using assms(5,6)
proof (induction fuel arbitrary: start)
  case 0
  then show ?case by simp
next
  case (Suc fuel)
  from scan_correct [OF assms(1,2) Suc.prems(1) assms(3,4), of "\<lambda>_. False"] obtain step where
    step: "scan (drop start body) n start end (\<lambda>_. False) = Some (Inr step)"
    and ok: "step_ok n body start end step" by auto
  show ?case
  proof (cases "search_done step")
    case True
    with step step_ok_last [OF ok True assms(1)] show ?thesis by simp
  next
    case False
    with ok have early: "\<And>q. start \<le> q \<Longrightarrow> q < next_offset step \<Longrightarrow> q + length n \<le> end
        \<Longrightarrow> \<not> occurs_at n body q" and prog: "start < next_offset step" "next_offset step \<le> end"
      by (auto simp: step_ok_def split: option.splits)
    have "end - next_offset step < fuel" using prog Suc.prems by linarith
    from Suc.IH [OF prog(2) this] obtain r where
      r: "search_all fuel body n (next_offset step) end = Some r"
      and ok': "search_result_ok n body (next_offset step) end r" by auto
    from search_result_shift [OF ok' prog(1) early] r step False show ?thesis by simp
  qed
qed

theorem search_all_correct_witness:
  "\<exists>r. search_all 9 ''prefix-needle'' ''needle'' 5 13 = Some r
     \<and> search_result_ok ''needle'' ''prefix-needle'' 5 13 r"
  by (rule search_all_correct) simp_all

end
