(* ===== verification/Body_Store.thy ===== *)
theory Body_Store
  imports Redaction Body_Search "HOL-Library.AList"
begin

text \<open>
  The disk-backed body store (\<open>crates/engine/src/proxy/bodies.rs\<close>, and the store's part of
  \<open>bodies/inspect.rs\<close>). \<open>session\<close> is the state the request store and the response store of one
  engine share: the byte count \<open>used\<close> of the disk budget, the analysis permits, and the entries.
  An entry lives at an address as long as some \<open>Arc\<close> refers to it, in a map or in a running task;
  each store maps capture ids to addresses. Files are their contents. Every function is one
  critical section of the code (a lock region or one atomic operation), so that the step relation
  of \<open>Body_Budget\<close> can interleave them.
\<close>

section \<open>State\<close>

datatype body_error =
    NotRecorded | NotComplete "string option" | Cleared | OpenFailed | ReadSize | OffsetExceeds
  | BodyReadFailed | DestinationFailed | InvalidJson | BudgetReached | StorageFailed string
  | SearchLength | AnalysisBusy | InvalidRange | SearchStopped scan_error | LayoutNotReady
  | LayoutCancelled | LayoutNeedsComplete | SearchPanic

text \<open>
  \<open>j_writer\<close> is the local \<open>BudgetWriter.reserved\<close> of the layout task, \<open>None\<close> when no task runs.
\<close>

record json_view =
  j_file :: "bytes option"
  j_total :: u64
  j_status :: "string \<times> string option"
  j_cancel :: bool
  j_writer :: "u64 option"

definition default_json_view :: json_view where
  "default_json_view =
     \<lparr>j_file = None, j_total = 0, j_status = (''idle'', None), j_cancel = False, j_writer = None\<rparr>"

text \<open>
  \<open>e_unwritten\<close> is the local \<open>count\<close> of the recorder task: bytes it has reserved and not yet
  added to the total, and \<open>e_recorder\<close> tells that the task has not returned. \<open>e_limit\<close> is the budget the entry was created under.
\<close>

record entry =
  e_json :: json_view
  e_limit :: u64
  e_file :: "bytes option"
  e_reserved :: u64
  e_total :: u64
  e_cancelled :: bool
  e_result :: "string \<times> string option"
  e_encoding :: string
  e_unwritten :: u64
  e_recorder :: bool

datatype side = Request_Side | Response_Side

text \<open>
  \<open>tickets\<close> are reservations of a storing task whose entry does not exist yet. \<open>lost\<close> counts the
  bytes of tickets whose task was dropped, and \<open>searches\<close> the running searches: history
  variables that no operation reads.
\<close>

record session =
  used :: u64
  permits :: nat
  heap :: "nat \<rightharpoonup> entry"
  entries :: "side \<Rightarrow> (nat \<times> nat) list"
  tickets :: "nat \<rightharpoonup> u64"
  lost :: nat
  searches :: nat

definition shared_pair :: session where
  "shared_pair =
     \<lparr>used = 0, permits = 2, heap = Map.empty, entries = (\<lambda>_. []), tickets = Map.empty,
      lost = 0, searches = 0\<rparr>"

text \<open>\<open>HashMap::get\<close> on the map of one store.\<close>

definition addr :: "side \<Rightarrow> nat \<Rightarrow> session \<Rightarrow> nat option" where
  "addr side i s = map_of (entries s side) i"

definition lookup :: "side \<Rightarrow> nat \<Rightarrow> session \<Rightarrow> entry option" where
  "lookup side i s = Option.bind (addr side i s) (heap s)"

definition upd_entry :: "nat \<Rightarrow> (entry \<Rightarrow> entry) \<Rightarrow> session \<Rightarrow> session" where
  "upd_entry a f s = (case heap s a of None \<Rightarrow> s | Some e \<Rightarrow> s\<lparr>heap := (heap s)(a \<mapsto> f e)\<rparr>)"

text \<open>\<open>fetch_update\<close> with \<open>checked_add\<close> and the limit filter, the one way to reserve bytes.\<close>

definition reserve :: "u64 \<Rightarrow> u64 \<Rightarrow> u64 \<Rightarrow> u64 option" where
  "reserve current count limit =
     (case checked_add current count of
        Some next \<Rightarrow> (if next \<le> limit then Some next else None)
      | None \<Rightarrow> None)"

section \<open>Entries\<close>

definition cancel_entry :: "entry \<Rightarrow> entry" where
  "cancel_entry e =
     e\<lparr>e_cancelled := True, e_file := None, e_json := (e_json e)\<lparr>j_file := None\<rparr>, e_reserved := 0\<rparr>"

definition entry_cancel :: "nat \<Rightarrow> session \<Rightarrow> session" where
  "entry_cancel a s =
     (case heap s a of
        None \<Rightarrow> s
      | Some e \<Rightarrow> s\<lparr>heap := (heap s)(a \<mapsto> cancel_entry e), used := used s - e_reserved e\<rparr>)"

definition finish_entry :: "string \<Rightarrow> string option \<Rightarrow> entry \<Rightarrow> entry" where
  "finish_entry state error e =
     (if fst (e_result e) = ''recording'' then e\<lparr>e_result := (state, error)\<rparr> else e)"

definition entry_finish :: "nat \<Rightarrow> string \<Rightarrow> string option \<Rightarrow> session \<Rightarrow> session" where
  "entry_finish a state error = upd_entry a (finish_entry state error)"

text \<open>\<open>Drop for Entry\<close>: the last reference is gone.\<close>

definition entry_drop :: "nat \<Rightarrow> session \<Rightarrow> session" where
  "entry_drop a s =
     (case heap s a of
        None \<Rightarrow> s
      | Some e \<Rightarrow> s\<lparr>heap := (heap s)(a := None), used := used s - e_reserved e\<rparr>)"

section \<open>Storing a complete body\<close>

definition store_reserve :: "nat \<Rightarrow> u64 \<Rightarrow> u64 \<Rightarrow> session \<Rightarrow> body_error + session" where
  "store_reserve t len limit s =
     (case reserve (used s) len limit of
        None \<Rightarrow> Inl BudgetReached
      | Some next \<Rightarrow> Inr (s\<lparr>used := next, tickets := (tickets s)(t \<mapsto> len)\<rparr>))"

definition store_failed :: "nat \<Rightarrow> session \<Rightarrow> session" where
  "store_failed t s =
     (case tickets s t of
        None \<Rightarrow> s
      | Some len \<Rightarrow> s\<lparr>used := used s - len, tickets := (tickets s)(t := None)\<rparr>)"

text \<open>The awaiting future is dropped: the blocking task's result is dropped with it.\<close>

definition store_dropped :: "nat \<Rightarrow> session \<Rightarrow> session" where
  "store_dropped t s =
     (case tickets s t of
        None \<Rightarrow> s
      | Some len \<Rightarrow> s\<lparr>tickets := (tickets s)(t := None), lost := lost s + unat len\<rparr>)"

definition complete_entry :: "bytes \<Rightarrow> u64 \<Rightarrow> string \<Rightarrow> u64 \<Rightarrow> entry" where
  "complete_entry bytes limit encoding len =
     \<lparr>e_json = default_json_view, e_limit = limit, e_file = Some bytes, e_reserved = len,
      e_total = len, e_cancelled = False, e_result = (''complete'', None),
      e_encoding = encoding, e_unwritten = 0, e_recorder = False\<rparr>"

text \<open>\<open>entries.insert\<close>: the address the id had before is returned.\<close>

definition insert_entry :: "side \<Rightarrow> nat \<Rightarrow> nat \<Rightarrow> entry \<Rightarrow> session \<Rightarrow> session" where
  "insert_entry side i a e s =
     s\<lparr>heap := (heap s)(a \<mapsto> e), entries := (entries s)(side := AList.update i a (entries s side))\<rparr>"

definition store_commit ::
  "side \<Rightarrow> nat \<Rightarrow> nat \<Rightarrow> nat \<Rightarrow> bytes \<Rightarrow> u64 \<Rightarrow> string \<Rightarrow> session \<Rightarrow> session" where
  "store_commit side i t a bytes limit encoding s =
     (case tickets s t of
        None \<Rightarrow> s
      | Some len \<Rightarrow>
          let s' = insert_entry side i a (complete_entry bytes limit encoding len)
                     (s\<lparr>tickets := (tickets s)(t := None)\<rparr>)
          in case addr side i s of
               None \<Rightarrow> s'
             | Some previous \<Rightarrow> entry_cancel previous s')"

text \<open>
  How the blocking part of a storing task ends: with a file, with an input or output error, or
  not at all because the task that awaits it is dropped.
\<close>

datatype storage = Written | Write_Error string | Task_Dropped

definition store_bytes ::
  "side \<Rightarrow> nat \<Rightarrow> nat \<Rightarrow> nat \<Rightarrow> bytes \<Rightarrow> u64 \<Rightarrow> string \<Rightarrow> storage \<Rightarrow> session
     \<Rightarrow> (body_error + unit) option \<times> session" where
  "store_bytes side i t a bytes limit encoding storage s =
     (case store_reserve t (of_nat (length bytes)) limit s of
        Inl e \<Rightarrow> (Some (Inl e), s)
      | Inr s' \<Rightarrow>
          (case storage of
             Written \<Rightarrow> (Some (Inr ()), store_commit side i t a bytes limit encoding s')
           | Write_Error m \<Rightarrow> (Some (Inl (StorageFailed m)), store_failed t s')
           | Task_Dropped \<Rightarrow> (None, store_dropped t s')))"

definition store_complete ::
  "nat \<Rightarrow> nat \<Rightarrow> nat \<Rightarrow> bytes \<Rightarrow> u64 \<Rightarrow> storage \<Rightarrow> session
     \<Rightarrow> (body_error + unit) option \<times> session" where
  "store_complete i t a bytes limit storage s =
     store_bytes Response_Side i t a bytes limit ''identity'' storage s"

text \<open>
  \<open>serde_json\<close> is the parameter \<open>parse\<close> (\<open>from_slice\<close>) and \<open>pretty\<close> (\<open>to_vec_pretty\<close>, which can
  fail); \<open>lower\<close> is \<open>char::to_lowercase\<close> outside ASCII.
\<close>

definition store_redacted_json ::
  "(bytes \<Rightarrow> json option) \<Rightarrow> (json \<Rightarrow> bytes option) \<Rightarrow> (string \<Rightarrow> string)
     \<Rightarrow> nat \<Rightarrow> nat \<Rightarrow> nat \<Rightarrow> bytes \<Rightarrow> string \<Rightarrow> u64 \<Rightarrow> string list list \<Rightarrow> storage \<Rightarrow> session
     \<Rightarrow> (body_error + unit) option \<times> session" where
  "store_redacted_json parse pretty lower i t a bytes content_type limit paths storage s =
     (case parse bytes of
        None \<Rightarrow> (Some (Inl InvalidJson), s)
      | Some v \<Rightarrow>
          (case pretty (redact_document lower paths v) of
             None \<Rightarrow> (Some (Inl (StorageFailed ''serialize'')), s)
           | Some safe \<Rightarrow>
               store_bytes Request_Side i t a safe limit (''redacted '' @ content_type) storage s))"

section \<open>Recording a streamed body\<close>

definition recording_entry :: "u64 \<Rightarrow> string \<Rightarrow> entry" where
  "recording_entry limit encoding =
     \<lparr>e_json = default_json_view, e_limit = limit, e_file = Some [], e_reserved = 0, e_total = 0,
      e_cancelled = False, e_result = (''recording'', None), e_encoding = encoding,
      e_unwritten = 0, e_recorder = True\<rparr>"

text \<open>The previous entry of the id, if any, is replaced without being cancelled.\<close>

definition record_body :: "side \<Rightarrow> nat \<Rightarrow> nat \<Rightarrow> string \<Rightarrow> u64 \<Rightarrow> session \<Rightarrow> session" where
  "record_body side i a encoding limit s = insert_entry side i a (recording_entry limit encoding) s"

definition supported_encoding :: "string \<Rightarrow> bool" where
  "supported_encoding encoding \<longleftrightarrow>
     encoding \<in> {'''', ''identity'', ''gzip'', ''deflate'', ''br''}"

text \<open>The recorder task before its loop, and its check of the cancel flag; both may return.\<close>

definition stopped :: "entry \<Rightarrow> entry" where
  "stopped e = e\<lparr>e_recorder := False\<rparr>"

definition recorder_open :: "nat \<Rightarrow> session \<Rightarrow> session" where
  "recorder_open a s =
     upd_entry a (\<lambda>e. if supported_encoding (e_encoding e) then e
                      else stopped (finish_entry ''unavailable''
                             (Some ''Unsupported Content-Encoding; response forwarding is unchanged.'') e)) s"

definition recorder_check :: "nat \<Rightarrow> session \<Rightarrow> session" where
  "recorder_check a = upd_entry a (\<lambda>e. if e_cancelled e then stopped e else e)"

text \<open>One iteration: reserve the count that was read, then write it and publish the new total.\<close>

definition recorder_reserve :: "nat \<Rightarrow> u64 \<Rightarrow> session \<Rightarrow> session" where
  "recorder_reserve a count s =
     (case heap s a of
        None \<Rightarrow> s
      | Some e \<Rightarrow>
          if e_cancelled e then upd_entry a stopped s
          else case reserve (used s) count (e_limit e) of
            None \<Rightarrow> upd_entry a (\<lambda>e. stopped
                      (e\<lparr>e_result := (''partial'', Some ''Session disk budget reached. Increase the budget before retrying; forwarding continues.'')\<rparr>)) s
          | Some next \<Rightarrow>
              s\<lparr>used := next,
                heap := (heap s)(a \<mapsto> e\<lparr>e_reserved := e_reserved e + count,
                                       e_unwritten := count\<rparr>)\<rparr>)"

definition append_file :: "bytes \<Rightarrow> entry \<Rightarrow> entry" where
  "append_file chunk e = e\<lparr>e_file := map_option (\<lambda>f. f @ chunk) (e_file e)\<rparr>"

definition recorder_write :: "nat \<Rightarrow> bytes \<Rightarrow> session \<Rightarrow> session" where
  "recorder_write a chunk =
     upd_entry a (\<lambda>e. (append_file chunk e)\<lparr>e_total := e_total e + e_unwritten e,
                                            e_unwritten := 0\<rparr>)"

definition recorder_write_failed :: "nat \<Rightarrow> bytes \<Rightarrow> session \<Rightarrow> session" where
  "recorder_write_failed a written =
     upd_entry a (\<lambda>e. stopped (finish_entry ''partial''
                       (Some ''Body storage write failed; forwarding continues.'') (append_file written e)))"

definition recorder_source_failed :: "nat \<Rightarrow> session \<Rightarrow> session" where
  "recorder_source_failed a =
     upd_entry a (\<lambda>e. stopped (finish_entry ''partial''
                       (Some ''Body decoding or transport failed.'') e))"

definition recorder_end :: "nat \<Rightarrow> session \<Rightarrow> session" where
  "recorder_end a = upd_entry a (\<lambda>e. stopped (finish_entry ''complete'' None e))"

text \<open>\<open>Drop for Tap\<close>; aborting the task only removes later steps.\<close>

definition tap_drop :: "nat \<Rightarrow> session \<Rightarrow> session" where
  "tap_drop a = entry_finish a ''partial'' (Some ''Body capture interrupted.'')"

section \<open>Removing\<close>

definition remove_body :: "side \<Rightarrow> nat \<Rightarrow> session \<Rightarrow> session" where
  "remove_body side i s =
     (let s' = s\<lparr>entries := (entries s)(side := AList.delete i (entries s side))\<rparr>
      in case addr side i s of None \<Rightarrow> s' | Some a \<Rightarrow> entry_cancel a s')"

definition clear_bodies :: "side \<Rightarrow> session \<Rightarrow> session" where
  "clear_bodies side s =
     fold (\<lambda>(_, a). entry_cancel a) (entries s side) (s\<lparr>entries := (entries s)(side := [])\<rparr>)"

section \<open>Reading\<close>

record body_info =
  i_total :: u64
  i_state :: string
  i_error :: "string option"
  i_encoding :: string

definition store_info :: "side \<Rightarrow> nat \<Rightarrow> session \<Rightarrow> body_error + body_info" where
  "store_info side i s =
     (case lookup side i s of
        None \<Rightarrow> Inl NotRecorded
      | Some e \<Rightarrow>
          Inr \<lparr>i_total = e_total e, i_state = fst (e_result e), i_error = snd (e_result e),
               i_encoding = e_encoding e\<rparr>)"

text \<open>The exported file is the second component; \<open>writable\<close> is the answer of the destination.\<close>

definition export_file :: "side \<Rightarrow> nat \<Rightarrow> bool \<Rightarrow> session \<Rightarrow> body_error + bytes" where
  "export_file side i writable s =
     (case lookup side i s of
        None \<Rightarrow> Inl NotRecorded
      | Some e \<Rightarrow>
          if fst (e_result e) \<noteq> ''complete'' then Inl (NotComplete (snd (e_result e)))
          else case e_file e of
            None \<Rightarrow> Inl Cleared
          | Some f \<Rightarrow> if writable then Inr f else Inl DestinationFailed)"

record body_page =
  p_offset :: u64
  p_total :: u64
  p_bytes :: bytes
  p_state :: string
  p_error :: "string option"
  p_encoding :: string

text \<open>\<open>seek\<close> and \<open>read_exact\<close> of the window of a page.\<close>

definition read_window :: "bytes \<Rightarrow> u64 \<Rightarrow> u64 \<Rightarrow> nat \<Rightarrow> bytes option" where
  "read_window file offset full count =
     (let n = min count (unat (full - offset))
      in if unat offset + n \<le> length file \<or> n = 0 then Some (take n (drop (unat offset) file))
         else None)"

definition store_page :: "side \<Rightarrow> nat \<Rightarrow> u64 \<Rightarrow> nat \<Rightarrow> session \<Rightarrow> body_error + body_page" where
  "store_page side i offset count s =
     (if count = 0 \<or> count > page_size then Inl ReadSize
      else case lookup side i s of
        None \<Rightarrow> Inl NotRecorded
      | Some e \<Rightarrow>
          if offset > e_total e then Inl OffsetExceeds
          else case e_file e of
            None \<Rightarrow> Inl Cleared
          | Some f \<Rightarrow>
              (case read_window f offset (e_total e) count of
                 None \<Rightarrow> Inl BodyReadFailed
               | Some bytes \<Rightarrow>
                   Inr \<lparr>p_offset = offset, p_total = e_total e, p_bytes = bytes,
                        p_state = fst (e_result e), p_error = snd (e_result e),
                        p_encoding = e_encoding e\<rparr>))"

definition json_page :: "side \<Rightarrow> nat \<Rightarrow> u64 \<Rightarrow> nat \<Rightarrow> session \<Rightarrow> body_error + body_page" where
  "json_page side i offset count s =
     (if count = 0 \<or> count > page_size then Inl ReadSize
      else case lookup side i s of
        None \<Rightarrow> Inl NotRecorded
      | Some e \<Rightarrow>
          (case j_file (e_json e) of
             None \<Rightarrow> Inl LayoutNotReady
           | Some f \<Rightarrow>
               if offset > j_total (e_json e) then Inl OffsetExceeds
               else case read_window f offset (j_total (e_json e)) count of
                 None \<Rightarrow> Inl BodyReadFailed
               | Some bytes \<Rightarrow>
                   if e_cancelled e then Inl Cleared
                   else Inr \<lparr>p_offset = offset, p_total = j_total (e_json e), p_bytes = bytes,
                             p_state = ''complete'', p_error = None,
                             p_encoding = ''JSON layout''\<rparr>))"

text \<open>
  \<open>search\<close>: the checks before and inside the blocking task, on one state; the permit is taken
  and given back.
\<close>

definition search_body ::
  "side \<Rightarrow> nat \<Rightarrow> bytes \<Rightarrow> u64 \<Rightarrow> u64 \<Rightarrow> session \<Rightarrow> body_error + search_step" where
  "search_body side i needle start end s =
     (if needle = [] \<or> length needle > 4096 then Inl SearchLength
      else case lookup side i s of
        None \<Rightarrow> Inl NotRecorded
      | Some e \<Rightarrow>
          if permits s = 0 then Inl AnalysisBusy
          else if start > end \<or> end > e_total e then Inl InvalidRange
          else case e_file e of
            None \<Rightarrow> Inl Cleared
          | Some f \<Rightarrow>
              (case scan (drop (unat start) f) needle (unat start) (unat end) (\<lambda>_. e_cancelled e) of
                 None \<Rightarrow> Inl SearchPanic
               | Some (Inl err) \<Rightarrow> Inl (SearchStopped err)
               | Some (Inr step) \<Rightarrow> Inr step))"

section \<open>JSON layout requests\<close>

definition start_layout :: "entry \<Rightarrow> entry" where
  "start_layout e =
     e\<lparr>e_json := (e_json e)\<lparr>j_cancel := False, j_status := (''building'', None),
                            j_writer := Some 0\<rparr>\<rparr>"

definition open_json_view ::
  "side \<Rightarrow> nat \<Rightarrow> bool \<Rightarrow> bool \<Rightarrow> session \<Rightarrow> (body_error + string \<times> string option) \<times> session" where
  "open_json_view side i start cancel s =
     (case addr side i s of
        None \<Rightarrow> (Inl NotRecorded, s)
      | Some a \<Rightarrow>
          (case heap s a of
             None \<Rightarrow> (Inl NotRecorded, s)
           | Some e \<Rightarrow>
               if fst (e_result e) \<noteq> ''complete'' then (Inl LayoutNeedsComplete, s)
               else if cancel then
                 (Inr (j_status (e_json e)),
                  upd_entry a (\<lambda>e. e\<lparr>e_json := (e_json e)\<lparr>j_cancel := True\<rparr>\<rparr>) s)
               else if \<not> start then (Inr (j_status (e_json e)), s)
               else if fst (j_status (e_json e)) \<in> {''building'', ''ready''} then
                 (Inr (j_status (e_json e)), s)
               else if permits s = 0 then (Inl AnalysisBusy, s)
               else (Inr (''building'', None),
                     upd_entry a start_layout (s\<lparr>permits := permits s - 1\<rparr>))))"

text \<open>\<open>BudgetWriter::write\<close>: the reservation; the bytes go to the layout's own file.\<close>

definition layout_write :: "nat \<Rightarrow> u64 \<Rightarrow> session \<Rightarrow> body_error + session" where
  "layout_write a count s =
     (case heap s a of
        None \<Rightarrow> Inl Cleared
      | Some e \<Rightarrow>
          if e_cancelled e \<or> j_cancel (e_json e) then Inl LayoutCancelled
          else case j_writer (e_json e) of
            None \<Rightarrow> Inl LayoutCancelled
          | Some own \<Rightarrow>
              (case reserve (used s) count (e_limit e) of
                 None \<Rightarrow> Inl BudgetReached
               | Some next \<Rightarrow>
                   Inr (s\<lparr>used := next,
                          heap := (heap s)(a \<mapsto> e\<lparr>e_reserved := e_reserved e + count,
                            e_json := (e_json e)\<lparr>j_writer := Some (own + count)\<rparr>\<rparr>)\<rparr>)))"

text \<open>\<open>Drop for BudgetWriter\<close> without \<open>keep\<close>, and the same release of a cancelled outcome.\<close>

definition layout_release :: "nat \<Rightarrow> session \<Rightarrow> session" where
  "layout_release a s =
     (case heap s a of
        None \<Rightarrow> s
      | Some e \<Rightarrow>
          (case j_writer (e_json e) of
             None \<Rightarrow> s
           | Some own \<Rightarrow>
               let e' = e\<lparr>e_json := (e_json e)\<lparr>j_writer := Some 0\<rparr>\<rparr> in
               if e_cancelled e then s\<lparr>heap := (heap s)(a \<mapsto> e')\<rparr>
               else s\<lparr>used := used s - own,
                      heap := (heap s)(a \<mapsto> e'\<lparr>e_reserved := e_reserved e - own\<rparr>)\<rparr>))"

text \<open>The end of the layout task: the permit is returned with either status.\<close>

definition layout_ready :: "nat \<Rightarrow> bytes \<Rightarrow> session \<Rightarrow> session" where
  "layout_ready a out s =
     (case heap s a of
        None \<Rightarrow> s
      | Some e \<Rightarrow>
          (case j_writer (e_json e) of
             None \<Rightarrow> s
           | Some own \<Rightarrow>
               s\<lparr>permits := permits s + 1,
                 heap := (heap s)(a \<mapsto> e\<lparr>e_json := (e_json e)\<lparr>j_file := Some out, j_total := own,
                   j_status := (''ready'', None), j_writer := None\<rparr>\<rparr>)\<rparr>))"

definition layout_failed :: "nat \<Rightarrow> string \<Rightarrow> session \<Rightarrow> session" where
  "layout_failed a message s =
     (case heap s a of
        None \<Rightarrow> s
      | Some e \<Rightarrow>
          (case j_writer (e_json e) of
             None \<Rightarrow> s
           | Some own \<Rightarrow>
               s\<lparr>permits := permits s + 1,
                 heap := (heap s)(a \<mapsto> e\<lparr>e_json := (e_json e)\<lparr>j_status := (''error'', Some message),
                   j_writer := None\<rparr>\<rparr>)\<rparr>))"

end
