(* ===== verification/Json_Layout.thy ===== *)
theory Json_Layout
  imports Body_Store
begin

text \<open>
  The JSON layout of a recorded body (\<open>crates/engine/src/proxy/bodies/inspect.rs\<close>,
  \<open>CheckedReader\<close> and \<open>format_json\<close>): the reader that checks UTF-8 and nesting buffer by buffer,
  and the pass that rewrites the white space outside strings. \<open>serde_json\<close>'s syntax check is a
  parameter; \<open>std::str::from_utf8\<close> is modelled.
\<close>

section \<open>UTF-8 by buffers\<close>

datatype first_char = Char nat | Incomplete | Malformed

definition in_range :: "nat \<Rightarrow> nat \<Rightarrow> char \<Rightarrow> bool" where
  "in_range lo hi c \<longleftrightarrow> lo \<le> byte_val c \<and> byte_val c \<le> hi"

text \<open>\<open>from_utf8\<close> on the first character: its width, or how it fails (\<open>error_len\<close>).\<close>

definition second_ok :: "char \<Rightarrow> char \<Rightarrow> bool" where
  "second_ok c d =
     (if byte_val c = 224 then in_range 160 191 d
      else if byte_val c = 237 then in_range 128 159 d
      else if byte_val c = 240 then in_range 144 191 d
      else if byte_val c = 244 then in_range 128 143 d
      else in_range 128 191 d)"

fun continues :: "nat \<Rightarrow> nat \<Rightarrow> string \<Rightarrow> first_char" where
  "continues n width [] = (if n = 0 then Char width else Incomplete)"
| "continues n width (b # bs) =
     (if n = 0 then Char width
      else if in_range 128 191 b then continues (n - 1) width bs else Malformed)"

definition multi_byte :: "nat \<Rightarrow> char \<Rightarrow> string \<Rightarrow> first_char" where
  "multi_byte width c bs =
     (case bs of
        [] \<Rightarrow> Incomplete
      | d # ds \<Rightarrow> if second_ok c d then continues (width - 2) width ds else Malformed)"

fun utf8_head :: "string \<Rightarrow> first_char" where
  "utf8_head [] = Incomplete"
| "utf8_head (c # bs) =
     (if byte_val c < 128 then Char 1
      else if in_range 194 223 c then multi_byte 2 c bs
      else if in_range 224 239 c then multi_byte 3 c bs
      else if in_range 240 244 c then multi_byte 4 c bs
      else Malformed)"

datatype utf8_result = Valid | Ends_In string | Invalid

lemma continues_width: "continues n w bs = Char k \<Longrightarrow> k = w \<and> n \<le> length bs"
  by (induction n w bs rule: continues.induct) (auto split: if_splits)

lemma utf8_head_width: "utf8_head bs = Char n \<Longrightarrow> 0 < n \<and> n \<le> length bs"
  by (cases bs) (auto simp: multi_byte_def dest!: continues_width split: if_splits list.splits)

function utf8_scan :: "string \<Rightarrow> utf8_result" where
  "utf8_scan bs =
     (if bs = [] then Valid
      else case utf8_head bs of
        Char n \<Rightarrow> utf8_scan (drop n bs)
      | Incomplete \<Rightarrow> Ends_In bs
      | Malformed \<Rightarrow> Invalid)"
  by pat_completeness auto
termination by (relation "measure length") (auto dest: utf8_head_width)

declare utf8_scan.simps [simp del]

section \<open>\<open>CheckedReader\<close>\<close>

record lexer =
  in_string :: bool
  escaped :: bool
  depth :: nat

definition lexer_start :: lexer where
  "lexer_start = \<lparr>in_string = False, escaped = False, depth = 0\<rparr>"

datatype layout_error = Stopped_Layout | Not_Utf8 | Too_Deep | Syntax | Layout_Cleared | No_Room

definition max_depth :: nat where "max_depth = 128"

definition in_string_step :: "char \<Rightarrow> lexer \<Rightarrow> lexer" where
  "in_string_step b st =
     (if escaped st then st\<lparr>escaped := False\<rparr>
      else if b = CHR 0x5C then st\<lparr>escaped := True\<rparr>
      else if b = CHR 0x22 then st\<lparr>in_string := False\<rparr>
      else st)"

definition check_byte :: "lexer \<Rightarrow> char \<Rightarrow> layout_error + lexer" where
  "check_byte st b =
     (if in_string st then Inr (in_string_step b st)
      else if b = CHR 0x22 then Inr (st\<lparr>in_string := True\<rparr>)
      else if b = CHR ''{'' \<or> b = CHR ''['' then
        (if depth st + 1 > max_depth then Inl Too_Deep else Inr (st\<lparr>depth := depth st + 1\<rparr>))
      else if b = CHR ''}'' \<or> b = CHR '']'' then Inr (st\<lparr>depth := depth st - 1\<rparr>)
      else Inr st)"

fun check_bytes :: "lexer \<Rightarrow> bytes \<Rightarrow> layout_error + lexer" where
  "check_bytes st [] = Inr st"
| "check_bytes st (b # bs) = and_then (check_byte st b) (\<lambda>st'. check_bytes st' bs)"

text \<open>One \<open>read\<close>: the bytes it delivers are \<open>chunk\<close>, none of them at the end of the file.\<close>

definition checked_read ::
  "bool \<Rightarrow> string \<times> lexer \<Rightarrow> bytes \<Rightarrow> layout_error + string \<times> lexer" where
  "checked_read cancelled st chunk =
     (if cancelled then Inl Stopped_Layout
      else case utf8_scan (fst st @ chunk) of
        Invalid \<Rightarrow> Inl Not_Utf8
      | Ends_In tail \<Rightarrow>
          if chunk = [] then Inl Not_Utf8
          else and_then (check_bytes (snd st) chunk) (\<lambda>lex. Inr (tail, lex))
      | Valid \<Rightarrow> and_then (check_bytes (snd st) chunk) (\<lambda>lex. Inr ([], lex)))"

fun read_chunks ::
  "(nat \<Rightarrow> bool) \<Rightarrow> string \<times> lexer \<Rightarrow> bytes list \<Rightarrow> layout_error + string \<times> lexer" where
  "read_chunks cancelled st [] = checked_read (cancelled 0) st []"
| "read_chunks cancelled st (c # cs) =
     and_then (checked_read (cancelled (Suc (length cs))) st c)
       (\<lambda>st'. read_chunks cancelled st' cs)"

section \<open>The layout pass\<close>

definition indent :: "nat \<Rightarrow> bytes" where
  "indent d = replicate (d * 2) (CHR '' '')"

definition newline :: char where "newline = CHR 0x0A"

definition json_space :: "char \<Rightarrow> bool" where
  "json_space b \<longleftrightarrow> b = CHR '' '' \<or> b = newline \<or> b = CHR 0x0D \<or> b = CHR 0x09"

text \<open>One byte of the loop: what is written, and the new state; \<open>None\<close> is the underflow of
  \<open>depth -= 1\<close>.\<close>

definition layout_byte :: "lexer \<Rightarrow> char \<Rightarrow> (bytes \<times> lexer) option" where
  "layout_byte st b =
     (if in_string st then Some ([b], in_string_step b st)
      else if b = CHR 0x22 then Some ([b], st\<lparr>in_string := True\<rparr>)
      else if b = CHR ''{'' \<or> b = CHR ''['' then
        Some ([b, newline] @ indent (depth st + 1), st\<lparr>depth := depth st + 1\<rparr>)
      else if b = CHR ''}'' \<or> b = CHR '']'' then
        (if depth st = 0 then None
         else Some ([newline] @ indent (depth st - 1) @ [b], st\<lparr>depth := depth st - 1\<rparr>))
      else if b = CHR '','' then Some ([b, newline] @ indent (depth st), st)
      else if b = CHR '':'' then Some ([b, CHR '' ''], st)
      else if json_space b then Some ([], st)
      else Some ([b], st))"

fun layout_from :: "lexer \<Rightarrow> bytes \<Rightarrow> (bytes \<times> lexer) option" where
  "layout_from st [] = Some ([], st)"
| "layout_from st (b # bs) =
     Option.bind (layout_byte st b) (\<lambda>(out, st').
       Option.bind (layout_from st' bs) (\<lambda>(rest, st''). Some (out @ rest, st'')))"

definition layout :: "bytes \<Rightarrow> bytes option" where
  "layout bs = map_option fst (layout_from lexer_start bs)"

text \<open>
  \<open>format_json\<close>, run to its end: \<open>serde\<close> is the syntax check of \<open>serde_json\<close>, \<open>chunks\<close> the
  buffers the file is read in, \<open>room\<close> what the budget and the limit leave. \<open>None\<close> is the
  panic of the layout pass.
\<close>

definition format_json ::
  "(bytes \<Rightarrow> bool) \<Rightarrow> bytes list option \<Rightarrow> (nat \<Rightarrow> bool) \<Rightarrow> nat \<Rightarrow> (layout_error + bytes \<times> nat) option" where
  "format_json serde file cancelled room =
     (case file of
        None \<Rightarrow> Some (Inl Layout_Cleared)
      | Some chunks \<Rightarrow>
          (case read_chunks cancelled ([], lexer_start) chunks of
             Inl e \<Rightarrow> Some (Inl e)
           | Inr _ \<Rightarrow>
               if \<not> serde (concat chunks) then Some (Inl Syntax)
               else case layout (concat chunks) of
                 None \<Rightarrow> None
               | Some out \<Rightarrow>
                   if length out > room then Some (Inl No_Room)
                   else Some (Inr (out, length out))))"

section \<open>What the layout preserves\<close>

text \<open>\<open>squeeze\<close> drops the white space outside strings: what is left is the document.\<close>

definition squeeze_byte :: "lexer \<Rightarrow> char \<Rightarrow> bytes \<times> lexer" where
  "squeeze_byte st b =
     (if in_string st then ([b], in_string_step b st)
      else if b = CHR 0x22 then ([b], st\<lparr>in_string := True\<rparr>)
      else if json_space b then ([], st)
      else ([b], st))"

fun squeeze_from :: "lexer \<Rightarrow> bytes \<Rightarrow> bytes" where
  "squeeze_from st [] = []"
| "squeeze_from st (b # bs) =
     (let (out, st') = squeeze_byte st b in out @ squeeze_from st' bs)"

definition squeeze :: "bytes \<Rightarrow> bytes" where
  "squeeze = squeeze_from lexer_start"

text \<open>Both passes agree on the string state, which does not depend on the depth.\<close>

definition same_string :: "lexer \<Rightarrow> lexer \<Rightarrow> bool" where
  "same_string s t \<longleftrightarrow> in_string s = in_string t \<and> escaped s = escaped t"

lemma same_string_refl [simp]: "same_string s s"
  by (simp add: same_string_def)

lemma same_string_depth [simp]: "same_string (s\<lparr>depth := d\<rparr>) t = same_string s t"
  by (simp add: same_string_def)

lemma squeeze_from_cong: "same_string s t \<Longrightarrow> squeeze_from s bs = squeeze_from t bs"
proof (induction bs arbitrary: s t)
  case (Cons b bs)
  have "fst (squeeze_byte s b) = fst (squeeze_byte t b)"
    and "same_string (snd (squeeze_byte s b)) (snd (squeeze_byte t b))"
    using Cons.prems by (auto simp: squeeze_byte_def same_string_def in_string_step_def)
  with Cons.IH show ?case by (auto simp: split_beta Let_def)
qed simp

lemma squeeze_spaces:
  "\<not> in_string st \<Longrightarrow> list_all json_space ws \<Longrightarrow> squeeze_from st (ws @ bs) = squeeze_from st bs"
  by (induction ws) (auto simp: squeeze_byte_def json_space_def newline_def)

lemma json_space_indent [simp]: "list_all json_space (indent d)"
  by (simp add: indent_def list_all_iff json_space_def)

lemma json_space_newline [simp]: "json_space newline" "json_space (CHR '' '')"
  by (simp_all add: json_space_def)

text \<open>What is written for one byte: the byte unless it is white space, between white space.\<close>

definition framed :: "lexer \<Rightarrow> char \<Rightarrow> bytes \<Rightarrow> lexer \<Rightarrow> bool" where
  "framed st b out st' \<longleftrightarrow>
     (\<exists>pre post. out = pre @ fst (squeeze_byte st b) @ post
        \<and> list_all json_space pre \<and> list_all json_space post
        \<and> (pre = [] \<or> \<not> in_string st) \<and> (post = [] \<or> \<not> in_string st')
        \<and> same_string st' (snd (squeeze_byte st b)))"

lemma framedI:
  "out = pre @ fst (squeeze_byte st b) @ post \<Longrightarrow> list_all json_space pre \<Longrightarrow> list_all json_space post
   \<Longrightarrow> pre = [] \<or> \<not> in_string st \<Longrightarrow> post = [] \<or> \<not> in_string st'
   \<Longrightarrow> same_string st' (snd (squeeze_byte st b)) \<Longrightarrow> framed st b out st'"
  unfolding framed_def by blast

lemma layout_byte_framed:
  assumes "layout_byte st b = Some (out, st')"
  shows "framed st b out st'"
proof -
  consider (str) "in_string st" | (quote) "\<not> in_string st" "b = CHR 0x22"
    | (opens) "\<not> in_string st" "b = CHR ''{'' \<or> b = CHR ''[''"
    | (closes) "\<not> in_string st" "b = CHR ''}'' \<or> b = CHR '']''"
    | (comma) "\<not> in_string st" "b = CHR '',''" | (colon) "\<not> in_string st" "b = CHR '':''"
    | (space) "\<not> in_string st" "json_space b"
    | (other) "\<not> in_string st" "b \<noteq> CHR 0x22" "\<not> json_space b" "b \<noteq> CHR ''{''" "b \<noteq> CHR ''[''"
        "b \<noteq> CHR ''}''" "b \<noteq> CHR '']''" "b \<noteq> CHR '',''" "b \<noteq> CHR '':''"
    by blast
  then show ?thesis
  proof cases
    case str
    with assms show ?thesis
      by (intro framedI [of _ "[]" _ _ "[]"]) (auto simp: layout_byte_def squeeze_byte_def)
  next
    case quote
    with assms show ?thesis
      by (intro framedI [of _ "[]" _ _ "[]"]) (auto simp: layout_byte_def squeeze_byte_def)
  next
    case opens
    with assms have "out = [b] @ newline # indent (depth st + 1)" "st' = st\<lparr>depth := depth st + 1\<rparr>"
      by (auto simp: layout_byte_def)
    with opens show ?thesis
      by (intro framedI [of _ "[]" _ _ "newline # indent (depth st + 1)"])
        (auto simp: squeeze_byte_def json_space_def newline_def)
  next
    case closes
    with assms have "out = (newline # indent (depth st - 1)) @ [b]" "st' = st\<lparr>depth := depth st - 1\<rparr>"
      by (auto simp: layout_byte_def split: if_splits)
    with closes show ?thesis
      by (intro framedI [of _ "newline # indent (depth st - 1)" _ _ "[]"])
        (auto simp: squeeze_byte_def json_space_def newline_def)
  next
    case comma
    with assms have "out = [b] @ newline # indent (depth st)" "st' = st"
      by (auto simp: layout_byte_def)
    with comma show ?thesis
      by (intro framedI [of _ "[]" _ _ "newline # indent (depth st)"])
        (auto simp: squeeze_byte_def json_space_def newline_def)
  next
    case colon
    with assms have "out = [b] @ [CHR '' '']" "st' = st"
      by (auto simp: layout_byte_def)
    with colon show ?thesis
      by (intro framedI [of _ "[]" _ _ "[CHR '' '']"])
        (auto simp: squeeze_byte_def json_space_def newline_def)
  next
    case space
    with assms have "out = []" "st' = st"
      by (auto simp: layout_byte_def json_space_def newline_def)
    with space show ?thesis
      by (intro framedI [of _ "[]" _ _ "[]"]) (auto simp: squeeze_byte_def json_space_def newline_def)
  next
    case other
    with assms show ?thesis
      by (intro framedI [of _ "[]" _ _ "[]"]) (auto simp: layout_byte_def squeeze_byte_def)
  qed
qed

lemma squeeze_byte_space: "fst (squeeze_byte st b) = [] \<or> fst (squeeze_byte st b) = [b]"
  by (simp add: squeeze_byte_def)

lemma squeeze_framed:
  assumes "framed st b out st'"
  shows "squeeze_from st (out @ rest) = fst (squeeze_byte st b) @ squeeze_from st' rest"
proof -
  from assms obtain pre post where out: "out = pre @ fst (squeeze_byte st b) @ post"
    and ws: "list_all json_space pre" "list_all json_space post"
    and pre: "pre = [] \<or> \<not> in_string st" and post: "post = [] \<or> \<not> in_string st'"
    and same: "same_string st' (snd (squeeze_byte st b))"
    unfolding framed_def by blast
  have drop_post: "squeeze_from st' (post @ rest) = squeeze_from st' rest"
    using post squeeze_spaces [OF _ ws(2)] by auto
  have "squeeze_from st (pre @ xs) = squeeze_from st xs" for xs
    using pre squeeze_spaces [OF _ ws(1)] by auto
  then have "squeeze_from st (out @ rest) = squeeze_from st (fst (squeeze_byte st b) @ post @ rest)"
    by (simp add: out)
  also have "\<dots> = fst (squeeze_byte st b) @ squeeze_from st' (post @ rest)"
  proof (cases "fst (squeeze_byte st b) = []")
    case True
    then have "same_string st' st"
      using same by (auto simp: squeeze_byte_def split: if_splits)
    with True squeeze_from_cong show ?thesis by (metis append_Nil)
  next
    case False
    then have "fst (squeeze_byte st b) = [b]" using squeeze_byte_space by blast
    moreover have "squeeze_from (snd (squeeze_byte st b)) xs = squeeze_from st' xs" for xs
      using same by (intro squeeze_from_cong) (simp add: same_string_def)
    ultimately show ?thesis by (simp add: split_beta)
  qed
  finally show ?thesis by (simp add: drop_post)
qed

lemma squeeze_framed_source:
  "framed st b out st' \<Longrightarrow> squeeze_from st (b # bs) = fst (squeeze_byte st b) @ squeeze_from st' bs"
  using squeeze_from_cong [of "snd (squeeze_byte st b)" st' bs]
  by (auto simp: framed_def same_string_def split_beta)

lemma squeeze_layout_from:
  "layout_from st bs = Some (out, st') \<Longrightarrow> squeeze_from st out = squeeze_from st bs"
proof (induction bs arbitrary: st out)
  case (Cons b bs)
  then obtain o1 st1 o2 where l: "layout_byte st b = Some (o1, st1)"
    and r: "layout_from st1 bs = Some (o2, st')" and out: "out = o1 @ o2"
    by (auto simp: bind_eq_Some_conv)
  from layout_byte_framed [OF l] Cons.IH [OF r] show ?case
    unfolding out by (simp only: squeeze_framed squeeze_framed_source)
qed simp

section \<open>The layout depends on the document only\<close>

lemma layout_byte_space:
  "\<not> in_string st \<Longrightarrow> json_space b \<Longrightarrow> layout_byte st b = Some ([], st)"
  by (auto simp: layout_byte_def json_space_def newline_def)

lemma layout_from_squeeze:
  "same_string st t \<Longrightarrow> layout_from st (squeeze_from t bs) = layout_from st bs"
proof (induction bs arbitrary: st t)
  case (Cons b bs)
  show ?case
  proof (cases "\<not> in_string st \<and> json_space b")
    case True
    with Cons show ?thesis
      by (auto simp: squeeze_byte_def same_string_def layout_byte_space json_space_def newline_def)
  next
    case False
    with Cons.prems have b: "fst (squeeze_byte t b) = [b]"
      by (auto simp: squeeze_byte_def same_string_def)
    have "layout_from st' (squeeze_from (snd (squeeze_byte t b)) bs) = layout_from st' bs"
      if l: "layout_byte st b = Some (out, st')" for out st'
    proof (rule Cons.IH)
      have "same_string st' (snd (squeeze_byte st b))"
        using layout_byte_framed [OF l] by (auto simp: framed_def)
      with Cons.prems show "same_string st' (snd (squeeze_byte t b))"
        by (auto simp: same_string_def squeeze_byte_def in_string_step_def)
    qed
    then show ?thesis
      using b by (cases "layout_byte st b") (auto simp: split_beta)
  qed
qed simp

lemma layout_squeeze: "layout (squeeze bs) = layout bs"
  by (simp add: layout_def squeeze_def layout_from_squeeze)

lemma squeeze_layout: "layout bs = Some out \<Longrightarrow> squeeze out = squeeze bs"
  by (auto simp: layout_def squeeze_def squeeze_layout_from)

lemma layout_fixed: "layout bs = Some out \<Longrightarrow> layout out = Some out"
  using layout_squeeze [of out] layout_squeeze [of bs] squeeze_layout [of bs out] by simp

section \<open>Bracketed texts\<close>

text \<open>
  What the layout pass needs of the syntax check: strings end and brackets match outside them.
  Every JSON text has this form.
\<close>

definition structural :: "char \<Rightarrow> bool" where
  "structural b \<longleftrightarrow> b = CHR 0x22 \<or> b = CHR ''{'' \<or> b = CHR ''['' \<or> b = CHR ''}'' \<or> b = CHR '']''"

inductive string_tail :: "bytes \<Rightarrow> bool" where
  close_quote: "string_tail [CHR 0x22]"
| escape: "string_tail bs \<Longrightarrow> string_tail (CHR 0x5C # c # bs)"
| plain: "string_tail bs \<Longrightarrow> c \<noteq> CHR 0x22 \<Longrightarrow> c \<noteq> CHR 0x5C \<Longrightarrow> string_tail (c # bs)"

inductive bracketed :: "bytes \<Rightarrow> bool" where
  empty: "bracketed []"
| other: "\<not> structural b \<Longrightarrow> bracketed bs \<Longrightarrow> bracketed (b # bs)"
| string_lit: "string_tail s \<Longrightarrow> bracketed bs \<Longrightarrow> bracketed (CHR 0x22 # s @ bs)"
| array: "bracketed inner \<Longrightarrow> bracketed bs \<Longrightarrow> bracketed (CHR ''['' # inner @ CHR '']'' # bs)"
| object: "bracketed inner \<Longrightarrow> bracketed bs \<Longrightarrow> bracketed (CHR ''{'' # inner @ CHR ''}'' # bs)"

definition outside :: "nat \<Rightarrow> lexer" where
  "outside d = \<lparr>in_string = False, escaped = False, depth = d\<rparr>"

definition inside :: "nat \<Rightarrow> lexer" where
  "inside d = \<lparr>in_string = True, escaped = False, depth = d\<rparr>"

lemma layout_from_append:
  "layout_from st a = Some (out, st') \<Longrightarrow>
   layout_from st (a @ b) = map_option (\<lambda>(rest, st''). (out @ rest, st'')) (layout_from st' b)"
proof (induction a arbitrary: st out)
  case Nil
  then show ?case by (simp add: option.map_ident split_def)
next
  case (Cons x a)
  then obtain o1 st1 o2 where x: "layout_byte st x = Some (o1, st1)"
    and r: "layout_from st1 a = Some (o2, st')" and out: "out = o1 @ o2"
    by (auto simp: bind_eq_Some_conv)
  from x Cons.IH [OF r] show ?case
    by (cases "layout_from st' b") (auto simp: out)
qed

definition lays_out :: "lexer \<Rightarrow> bytes \<Rightarrow> lexer \<Rightarrow> bool" where
  "lays_out st bs st' \<longleftrightarrow> (\<exists>out. layout_from st bs = Some (out, st'))"

lemma lays_out_Nil: "lays_out st [] st"
  by (simp add: lays_out_def)

lemma lays_out_append: "lays_out st a st' \<Longrightarrow> lays_out st' b st'' \<Longrightarrow> lays_out st (a @ b) st''"
  by (auto simp: lays_out_def layout_from_append)

lemma lays_out_Cons:
  "layout_byte st c = Some (out, st') \<Longrightarrow> lays_out st' bs st'' \<Longrightarrow> lays_out st (c # bs) st''"
  by (auto simp: lays_out_def)

lemma layout_byte_inside:
  "layout_byte (inside d) c
     = Some ([c], if c = CHR 0x5C then (inside d)\<lparr>escaped := True\<rparr>
                  else if c = CHR 0x22 then outside d else inside d)"
  by (simp add: layout_byte_def inside_def outside_def in_string_step_def)

lemma layout_byte_escaped: "layout_byte ((inside d)\<lparr>escaped := True\<rparr>) c = Some ([c], inside d)"
  by (simp add: layout_byte_def inside_def in_string_step_def)

lemma string_tail_lays_out: "string_tail bs \<Longrightarrow> lays_out (inside d) bs (outside d)"
proof (induction rule: string_tail.induct)
  case close_quote
  show ?case by (intro lays_out_Cons [OF layout_byte_inside]) (simp add: lays_out_Nil)
next
  case (escape bs c)
  from lays_out_Cons [OF layout_byte_escaped escape.IH, of c]
  show ?case by (intro lays_out_Cons [OF layout_byte_inside]) simp
next
  case (plain bs c)
  then show ?case by (intro lays_out_Cons [OF layout_byte_inside]) simp
qed

lemma bracketed_lays_out: "bracketed bs \<Longrightarrow> lays_out (outside d) bs (outside d)"
proof (induction arbitrary: d rule: bracketed.induct)
  case empty
  show ?case by (rule lays_out_Nil)
next
  case (other b bs)
  then have "\<exists>out. layout_byte (outside d) b = Some (out, outside d)"
    by (simp add: layout_byte_def outside_def structural_def)
  with other.IH show ?case by (auto intro: lays_out_Cons)
next
  case (string_lit s bs)
  have "layout_byte (outside d) (CHR 0x22) = Some ([CHR 0x22], inside d)"
    by (simp add: layout_byte_def outside_def inside_def)
  with string_lit show ?case
    by (intro lays_out_Cons [of _ _ _ "inside d"] lays_out_append [OF string_tail_lays_out]) auto
next
  case (array inner bs)
  obtain o1 o2 where "layout_byte (outside d) (CHR ''['') = Some (o1, outside (Suc d))"
    and "layout_byte (outside (Suc d)) (CHR '']'') = Some (o2, outside d)"
    by (simp add: layout_byte_def outside_def)
  with array.IH show ?case by (intro lays_out_Cons lays_out_append)
next
  case (object inner bs)
  obtain o1 o2 where "layout_byte (outside d) (CHR ''{'') = Some (o1, outside (Suc d))"
    and "layout_byte (outside (Suc d)) (CHR ''}'') = Some (o2, outside d)"
    by (simp add: layout_byte_def outside_def)
  with object.IH show ?case by (intro lays_out_Cons lays_out_append)
qed

lemma bracketed_layout: "bracketed bs \<Longrightarrow> \<exists>out. layout bs = Some out"
  using bracketed_lays_out [of bs 0]
  by (auto simp: layout_def lays_out_def lexer_start_def outside_def)

section \<open>Reading in buffers\<close>

lemma continues_append:
  "continues n w a \<noteq> Incomplete \<Longrightarrow> continues n w (a @ b) = continues n w a"
proof (induction n w a rule: continues.induct)
  case (1 n width)
  then show ?case by (cases b) (simp_all split: if_splits)
next
  case (2 n width d bs)
  then show ?case by (simp split: if_splits)
qed

lemma multi_byte_append:
  "multi_byte w c a \<noteq> Incomplete \<Longrightarrow> multi_byte w c (a @ b) = multi_byte w c a"
  by (cases a) (auto simp: multi_byte_def continues_append)

lemma utf8_head_append: "utf8_head a \<noteq> Incomplete \<Longrightarrow> utf8_head (a @ b) = utf8_head a"
  by (cases a) (simp_all add: multi_byte_append split: if_splits)

lemma utf8_scan_Nil [simp]: "utf8_scan [] = Valid"
  by (simp add: utf8_scan.simps)

text \<open>Only the unfinished tail of what was read matters for what follows.\<close>

lemma utf8_scan_append:
  "utf8_scan (a @ b) =
     (case utf8_scan a of Valid \<Rightarrow> utf8_scan b | Ends_In t \<Rightarrow> utf8_scan (t @ b) | Invalid \<Rightarrow> Invalid)"
proof (induction a rule: utf8_scan.induct)
  case (1 a)
  show ?case
  proof (cases "a = []")
    case False
    show ?thesis
    proof (cases "utf8_head a")
      case (Char n)
      from utf8_head_width [OF this] have "drop n (a @ b) = drop n a @ b" by simp
      with "1.IH" [OF False Char] Char False show ?thesis
        by (simp add: utf8_scan.simps [of a] utf8_scan.simps [of "a @ b"] utf8_head_append)
    next
      case Incomplete
      with False show ?thesis by (simp add: utf8_scan.simps [of a])
    next
      case Malformed
      with False show ?thesis
        by (simp add: utf8_scan.simps [of a] utf8_scan.simps [of "a @ b"] utf8_head_append)
    qed
  qed simp
qed

lemma utf8_scan_tail:
  assumes "utf8_scan a = Ends_In t"
  shows "t \<noteq> [] \<and> utf8_scan t = Ends_In t"
  using assms
proof (induction a rule: utf8_scan.induct)
  case (1 a)
  show ?case
  proof (cases "a = []")
    case True
    with "1.prems" show ?thesis by simp
  next
    case False
    show ?thesis
    proof (cases "utf8_head a")
      case (Char n)
      with "1.prems" "1.IH" [OF False Char] False show ?thesis by (simp add: utf8_scan.simps [of a])
    next
      case Incomplete
      then have "utf8_scan a = Ends_In a" using False by (simp add: utf8_scan.simps [of a])
      with "1.prems" False show ?thesis by simp
    next
      case Malformed
      with "1.prems" False show ?thesis by (simp add: utf8_scan.simps [of a])
    qed
  qed
qed

lemma check_bytes_append:
  "check_bytes st (a @ b) = and_then (check_bytes st a) (\<lambda>st'. check_bytes st' b)"
proof (induction a arbitrary: st)
  case (Cons x a)
  then show ?case by (cases "check_byte st x") simp_all
qed simp

text \<open>\<open>tail\<close> stands for everything read before it.\<close>

lemma read_chunks_ok:
  assumes "list_all (\<lambda>c. c \<noteq> []) cs"
    and "tail = [] \<or> utf8_scan tail = Ends_In tail"
  shows "is_ok (read_chunks (\<lambda>_. False) (tail, lx) cs)
    \<longleftrightarrow> utf8_scan (tail @ concat cs) = Valid \<and> is_ok (check_bytes lx (concat cs))"
  using assms
proof (induction cs arbitrary: tail lx)
  case Nil
  then show ?case by (auto simp: checked_read_def)
next
  case (Cons c cs)
  show ?case
  proof (cases "utf8_scan (tail @ c)")
    case Valid
    with Cons.IH [of "[]"] Cons.prems(1) show ?thesis
      by (cases "check_bytes lx c")
        (simp_all add: checked_read_def utf8_scan_append [of "tail @ c", simplified]
          check_bytes_append)
  next
    case (Ends_In t)
    with utf8_scan_tail [OF Ends_In] Cons.IH [of t] Cons.prems(1) show ?thesis
      by (cases "check_bytes lx c")
        (simp_all add: checked_read_def utf8_scan_append [of "tail @ c", simplified]
          check_bytes_append)
  next
    case Invalid
    then show ?thesis
      by (simp add: checked_read_def utf8_scan_append [of "tail @ c", simplified])
  qed
qed

section \<open>Properties\<close>

text \<open>
  The reader's verdict does not depend on how the file is cut into buffers: it accepts
  exactly the files that are UTF-8 as a whole and nested at most 128 deep outside strings.
\<close>

lemma checked_reader_chunk_independent:
  assumes "list_all (\<lambda>c. c \<noteq> []) chunks"
  shows "is_ok (read_chunks (\<lambda>_. False) ([], lexer_start) chunks)
    \<longleftrightarrow> utf8_scan (concat chunks) = Valid \<and> is_ok (check_bytes lexer_start (concat chunks))"
  using read_chunks_ok [OF assms, of "[]" lexer_start] by simp

lemma checked_reader_chunk_independent_witness:
  "is_ok (read_chunks (\<lambda>_. False) ([], lexer_start) [[CHR 0x22, CHR 0xC3], [CHR 0xA9, CHR 0x22]])
    \<longleftrightarrow> utf8_scan [CHR 0x22, CHR 0xC3, CHR 0xA9, CHR 0x22] = Valid
      \<and> is_ok (check_bytes lexer_start [CHR 0x22, CHR 0xC3, CHR 0xA9, CHR 0x22])"
  using checked_reader_chunk_independent [of "[[CHR 0x22, CHR 0xC3], [CHR 0xA9, CHR 0x22]]"] by simp

text \<open>
  C33: a layout that succeeds shows the recorded document and nothing else: outside strings it
  differs from the body in white space only, laying it out again changes nothing, it fits the
  budget, and the body was valid UTF-8. With a syntax check that accepts only texts with
  matching brackets and closed strings, the pass never underflows its depth counter.
\<close>

theorem format_json_correct:
  assumes "\<forall>bs. serde bs \<longrightarrow> bracketed bs"
    and "list_all (\<lambda>c. c \<noteq> []) chunks"
  shows "\<exists>r. format_json serde (Some chunks) (\<lambda>_. False) room = Some r
    \<and> (case r of
         Inr (out, n) \<Rightarrow> n = length out \<and> n \<le> room
           \<and> squeeze out = squeeze (concat chunks) \<and> layout out = Some out
           \<and> utf8_scan (concat chunks) = Valid
       | Inl _ \<Rightarrow> \<not> (serde (concat chunks) \<and> utf8_scan (concat chunks) = Valid
           \<and> is_ok (check_bytes lexer_start (concat chunks))
           \<and> map_option length (layout (concat chunks)) \<in> Some ` {..room}))"
proof (cases "read_chunks (\<lambda>_. False) ([], lexer_start) chunks")
  case (Inl e)
  then have "\<not> is_ok (read_chunks (\<lambda>_. False) ([], lexer_start) chunks)" by simp
  with read_chunks_ok [OF assms(2), of "[]" lexer_start]
  have "\<not> (utf8_scan (concat chunks) = Valid \<and> is_ok (check_bytes lexer_start (concat chunks)))"
    by simp
  with Inl show ?thesis by (auto simp: format_json_def)
next
  case (Inr st)
  then have "is_ok (read_chunks (\<lambda>_. False) ([], lexer_start) chunks)" by simp
  with read_chunks_ok [OF assms(2)] have utf8: "utf8_scan (concat chunks) = Valid" by fastforce
  show ?thesis
  proof (cases "serde (concat chunks)")
    case False
    with Inr show ?thesis by (simp add: format_json_def)
  next
    case True
    with assms(1) obtain out where out: "layout (concat chunks) = Some out"
      using bracketed_layout by blast
    show ?thesis
    proof (cases "length out \<le> room")
      case True
      with \<open>serde (concat chunks)\<close> Inr out utf8 squeeze_layout [OF out] layout_fixed [OF out]
      show ?thesis by (simp add: format_json_def)
    next
      case False
      with \<open>serde (concat chunks)\<close> Inr out show ?thesis
        by (auto simp: format_json_def)
    qed
  qed
qed

text \<open>A syntax check for the witness: it accepts the literal \<open>[1]\<close> only.\<close>

definition toy_serde :: "bytes \<Rightarrow> bool" where
  "toy_serde bs \<longleftrightarrow> bs = ''[1]''"

lemma toy_serde_bracketed: "\<forall>bs. toy_serde bs \<longrightarrow> bracketed bs"
proof -
  have "bracketed (CHR ''['' # ''1'' @ CHR '']'' # [])"
    by (intro bracketed.intros) (simp_all add: structural_def)
  then show ?thesis by (simp add: toy_serde_def)
qed

theorem format_json_correct_witness:
  "squeeze (''['' @ [newline] @ ''  1'' @ [newline] @ '']'') = squeeze ''[1]''"
proof -
  let ?out = "''['' @ [newline] @ ''  1'' @ [newline] @ '']''"
  have r: "format_json toy_serde (Some [''['', ''1]'']) (\<lambda>_. False) 100 = Some (Inr (?out, 7))"
    by code_simp
  have ne: "list_all (\<lambda>c. c \<noteq> []) [''['', ''1]'']" by simp
  from format_json_correct [OF toy_serde_bracketed ne, of 100] r show ?thesis by auto
qed

end
