(* ===== verification/Engine.thy ===== *)
theory Engine
  imports Client_Auth Response_Rules Json_Layout
begin

text \<open>
  The proxy engine's shared state and its operations (\<open>ProxyEngine\<close>, \<open>Exchange\<close> and
  \<open>begin_exchange\<close> of \<open>crates/engine/src/proxy.rs\<close>). \<open>engine\<close> is the \<open>State\<close> behind the mutex, with
  the two body stores as one \<open>session\<close>; each function is one lock region or a call made of
  consecutive ones. Hash maps are association lists with distinct keys, the traffic deque is a
  list with the oldest capture first, ids and revisions are naturals (the code's 64-bit counters
  only ever add one). A oneshot channel is the flag that its receiver still waits.
\<close>

section \<open>Data\<close>

text \<open>The text of an error shown with a capture: a fixed message or the store's error.\<close>

datatype body_note = Message string | Store_Error body_error

record capture =
  cap_id :: nat
  cap_kind :: string
  cap_method :: string
  cap_target :: string
  cap_class :: destination_class
  cap_profile :: "string option"
  cap_started_at :: nat
  cap_status :: "u16 option"
  cap_phase :: string
  cap_duration_ms :: nat
  cap_request_bytes :: u64
  cap_response_bytes :: u64
  cap_request_headers :: "(string \<times> string) list"
  cap_response_headers :: "(string \<times> string) list"
  cap_error :: "string option"
  cap_request_body_state :: string
  cap_request_body_error :: "body_note option"
  cap_response_body_error :: "body_note option"
  cap_breakpoint_state :: string
  cap_original_status :: "u16 option"
  cap_replay_of :: "nat option"
  cap_rule_id :: "string option"
  cap_rule_name :: "string option"

record replay_authorization =
  ra_origin_id :: nat
  ra_profile :: "string option"

record 'h engine =
  revision :: nat
  next_id :: nat
  status :: engine_status
  traffic :: "capture list"
  limit :: nat
  bodies :: session
  capture_bodies :: bool
  body_budget :: u64
  redaction_paths :: "string list list"
  classifier :: destination_classifier
  break_on_responses :: bool
  response_rules :: "response_rule list"
  breakpoints :: "(nat \<times> bool) list"
  replay_templates :: "(nat \<times> 'h replay_template) list"
  replay_tokens :: "(string \<times> replay_authorization) list"

definition default_engine :: "'h engine" where
  "default_engine =
     \<lparr>revision = 0, next_id = 1, status = default_engine_status, traffic = [], limit = 200,
      bodies = shared_pair, capture_bodies = False, body_budget = 0, redaction_paths = [],
      classifier = default_classifier, break_on_responses = False, response_rules = [],
      breakpoints = [], replay_templates = [], replay_tokens = []\<rparr>"

datatype engine_error =
    ProxyStopped | CaptureGone | ReplayNotDevelopment | NotCompleted | NoTemplate | RulesForbidReplay
  | NoRandom | ReplayTransfer string | BadReplacementStatus | BadReplacement replacement_error
  | BreakpointGone | BreakpointClosed | BadDirection | BodyNote body_note | AlreadyRunning
  | InvalidLimits | InspectionNeedsAuth | BadRedactionPath redaction_path_error
  | BadHostRule host_error | BadResponseRule rule_error | CannotListen

section \<open>Captures\<close>

definition find_capture :: "nat \<Rightarrow> capture list \<Rightarrow> capture option" where
  "find_capture i = find (\<lambda>c. cap_id c = i)"

text \<open>\<open>iter_mut().find(..)\<close> and an update of what it finds.\<close>

fun update_capture :: "nat \<Rightarrow> (capture \<Rightarrow> capture) \<Rightarrow> capture list \<Rightarrow> capture list" where
  "update_capture i f [] = []"
| "update_capture i f (c # cs) = (if cap_id c = i then f c # cs else c # update_capture i f cs)"

definition bump :: "'h engine \<Rightarrow> 'h engine" where
  "bump st = st\<lparr>revision := revision st + 1\<rparr>"

definition exchange_update :: "nat \<Rightarrow> (capture \<Rightarrow> capture) \<Rightarrow> 'h engine \<Rightarrow> 'h engine" where
  "exchange_update i f st = st\<lparr>traffic := update_capture i f (traffic st)\<rparr>"

definition finish_capture :: "string option \<Rightarrow> nat \<Rightarrow> capture \<Rightarrow> capture" where
  "finish_capture error elapsed c =
     (if cap_phase c \<noteq> ''pending'' then c
      else c\<lparr>cap_phase := if error \<noteq> None then ''error'' else ''complete'',
             cap_duration_ms := elapsed, cap_error := error\<rparr>)"

definition exchange_finish :: "nat \<Rightarrow> string option \<Rightarrow> nat \<Rightarrow> 'h engine \<Rightarrow> 'h engine" where
  "exchange_finish i error elapsed st = bump (exchange_update i (finish_capture error elapsed) st)"

text \<open>\<open>Drop for Exchange\<close>.\<close>

definition exchange_drop :: "nat \<Rightarrow> nat \<Rightarrow> 'h engine \<Rightarrow> 'h engine" where
  "exchange_drop i elapsed =
     exchange_finish i (Some ''Transfer interrupted, cancelled or timed out.'') elapsed"

section \<open>Beginning an exchange\<close>

text \<open>What is dropped with an evicted capture.\<close>

definition forget :: "nat \<Rightarrow> 'h engine \<Rightarrow> 'h engine" where
  "forget i st =
     st\<lparr>breakpoints := AList.delete i (breakpoints st),
        replay_templates := AList.delete i (replay_templates st),
        bodies := remove_body Response_Side i (remove_body Request_Side i (bodies st))\<rparr>"

definition count_evicted :: "'h engine \<Rightarrow> 'h engine" where
  "count_evicted st = st\<lparr>status := (status st)\<lparr>evicted_captures := evicted_captures (status st) + 1\<rparr>\<rparr>"

definition evict_oldest :: "'h engine \<Rightarrow> 'h engine" where
  "evict_oldest st =
     count_evicted (case traffic st of [] \<Rightarrow> st | c # cs \<Rightarrow> forget (cap_id c) (st\<lparr>traffic := cs\<rparr>))"

definition new_capture ::
  "'h header_api \<Rightarrow> nat \<Rightarrow> 'h request \<Rightarrow> destination_class \<Rightarrow> string option \<Rightarrow> nat option \<Rightarrow> nat
     \<Rightarrow> capture" where
  "new_capture A i request class profile origin now =
     \<lparr>cap_id = i, cap_kind = (if rq_method request = ''CONNECT'' then ''tunnel'' else ''http''),
      cap_method = rq_method request, cap_target = safe_target (rq_method request) (rq_uri request),
      cap_class = class, cap_profile = profile, cap_started_at = now, cap_status = None,
      cap_phase = ''pending'', cap_duration_ms = 0, cap_request_bytes = 0, cap_response_bytes = 0,
      cap_request_headers = safe_headers A (rq_headers request), cap_response_headers = [],
      cap_error = None, cap_request_body_state = ''disabled'', cap_request_body_error = None,
      cap_response_body_error = None, cap_breakpoint_state = ''none'', cap_original_status = None,
      cap_replay_of = origin, cap_rule_id = None, cap_rule_name = None\<rparr>"

definition set_captures :: "'h engine \<Rightarrow> 'h engine" where
  "set_captures st = st\<lparr>status := (status st)\<lparr>captures := length (traffic st)\<rparr>\<rparr>"

definition begin_exchange ::
  "'h header_api \<Rightarrow> 'h request \<Rightarrow> destination_class \<Rightarrow> string option \<Rightarrow> nat option \<Rightarrow> nat
     \<Rightarrow> 'h engine \<Rightarrow> nat \<times> 'h engine" where
  "begin_exchange A request class profile origin now st =
     (let i = next_id st;
          st1 = st\<lparr>next_id := i + 1\<rparr>;
          st2 = (if length (traffic st1) = limit st1 then evict_oldest st1 else st1);
          st3 = st2\<lparr>traffic := traffic st2 @ [new_capture A i request class profile origin now]\<rparr>;
          st4 = (case replay_template_for A request of
                   None \<Rightarrow> st3
                 | Some t \<Rightarrow> st3\<lparr>replay_templates := AList.update i t (replay_templates st3)\<rparr>)
      in (i, bump (set_captures st4)))"

section \<open>Start, stop, clear\<close>

record tls_interception =
  ti_profile_id :: string

record proxy_config =
  pc_port :: u16
  capture_limit :: nat
  connection_limit :: nat
  request_timeout_ms :: nat
  tunnel_timeout_ms :: nat
  pc_capture_bodies :: bool
  body_disk_budget :: u64
  request_redaction_paths :: "string list"
  development_hosts :: "string list"
  production_hosts :: "string list"
  pc_client_auth :: "client_auth option"
  pc_tls_interception :: "tls_interception option"
  pc_break_on_responses :: bool
  pc_response_rules :: "response_rule_config list"

definition default_config :: proxy_config where
  "default_config =
     \<lparr>pc_port = 8080, capture_limit = 200, connection_limit = 64, request_timeout_ms = 30000,
      tunnel_timeout_ms = 300000, pc_capture_bodies = False,
      body_disk_budget = 10 * 1024 * 1024 * 1024, request_redaction_paths = [],
      development_hosts = [], production_hosts = [], pc_client_auth = None,
      pc_tls_interception = None, pc_break_on_responses = False, pc_response_rules = []\<rparr>"

definition limits_ok :: "proxy_config \<Rightarrow> bool" where
  "limits_ok c \<longleftrightarrow>
     \<not> (capture_limit c = 0 \<or> capture_limit c > 1000
        \<or> connection_limit c = 0 \<or> connection_limit c > 256
        \<or> request_timeout_ms c = 0 \<or> request_timeout_ms c > 300 * 1000
        \<or> tunnel_timeout_ms c = 0 \<or> tunnel_timeout_ms c > 3600 * 1000
        \<or> body_disk_budget c = 0)"

definition inspection_auth_ok :: "proxy_config \<Rightarrow> bool" where
  "inspection_auth_ok c \<longleftrightarrow>
     (case pc_tls_interception c of
        None \<Rightarrow> True
      | Some tls \<Rightarrow> map_option auth_profile_id (pc_client_auth c) = Some (ti_profile_id tls))"

text \<open>The loop that shrinks the traffic to the new limit.\<close>

function truncate_traffic :: "'h engine \<Rightarrow> 'h engine" where
  "truncate_traffic st =
     (if limit st < length (traffic st) then truncate_traffic (evict_oldest st) else st)"
  by pat_completeness auto

lemma evict_oldest_fields [simp]:
  "traffic (evict_oldest st) = tl (traffic st)"
  "limit (evict_oldest st) = limit st" "next_id (evict_oldest st) = next_id st"
  "revision (evict_oldest st) = revision st"
  "replay_tokens (evict_oldest st) = replay_tokens st"
  by (simp_all add: evict_oldest_def count_evicted_def forget_def split: list.splits)

termination truncate_traffic
  by (relation "measure (\<lambda>st. length (traffic st))") auto

declare truncate_traffic.simps [simp del]

text \<open>\<open>bound\<close> is the address the listener got, \<open>None\<close> when binding fails.\<close>

definition validate_config ::
  "http_crate \<Rightarrow> proxy_config \<Rightarrow>
     engine_error + string list list \<times> destination_classifier \<times> response_rule list" where
  "validate_config H c =
     (if \<not> limits_ok c then Inl InvalidLimits
      else if \<not> inspection_auth_ok c then Inl InspectionNeedsAuth
      else and_then (map_error BadRedactionPath (compile_redaction_paths (request_redaction_paths c))) (\<lambda>paths.
           and_then (map_error BadHostRule (classifier_compile (development_hosts c) (production_hosts c))) (\<lambda>cls.
           and_then (map_error BadResponseRule (compile_all H (pc_response_rules c))) (\<lambda>rules.
             Inr (paths, cls, rules)))))"

definition install_config ::
  "proxy_config \<Rightarrow> string \<times> nat \<Rightarrow> string list list \<times> destination_classifier \<times> response_rule list
     \<Rightarrow> 'h engine \<Rightarrow> 'h engine" where
  "install_config c address compiled st =
     (let (paths, cls, rules) = compiled;
          st1 = truncate_traffic (st\<lparr>limit := capture_limit c, capture_bodies := pc_capture_bodies c,
                  body_budget := body_disk_budget c, redaction_paths := paths, classifier := cls,
                  break_on_responses := pc_break_on_responses c, response_rules := rules\<rparr>);
          st2 = set_captures st1
      in bump (st2\<lparr>status := (status st2)\<lparr>es_phase := Running, listen_address := address,
                 es_client_profile_id := map_option auth_profile_id (pc_client_auth c),
                 https_inspection := (pc_tls_interception c \<noteq> None)\<rparr>\<rparr>))"

definition start_engine ::
  "http_crate \<Rightarrow> proxy_config \<Rightarrow> (string \<times> nat) option \<Rightarrow> bool \<Rightarrow> 'h engine
     \<Rightarrow> engine_error + 'h engine" where
  "start_engine H c bound running st =
     (if running then Inl AlreadyRunning
      else and_then (validate_config H c) (\<lambda>compiled.
           case bound of
             None \<Rightarrow> Inl CannotListen
           | Some address \<Rightarrow> Inr (install_config c address compiled st)))"

text \<open>The end of the listener task, which \<open>stop\<close> awaits; a connection over the limit.\<close>

definition listener_end :: "'h engine \<Rightarrow> 'h engine" where
  "listener_end st =
     bump (st\<lparr>status := (status st)\<lparr>es_phase := Stopped, es_client_profile_id := None,
                                  https_inspection := False\<rparr>\<rparr>)"

definition reject_connection :: "'h engine \<Rightarrow> 'h engine" where
  "reject_connection st =
     bump (st\<lparr>status := (status st)\<lparr>rejected_connections := rejected_connections (status st) + 1\<rparr>\<rparr>)"

definition clear_engine :: "'h engine \<Rightarrow> 'h engine" where
  "clear_engine st =
     bump (st\<lparr>breakpoints := [], replay_templates := [], replay_tokens := [], traffic := [],
             bodies := clear_bodies Response_Side (clear_bodies Request_Side (bodies st)),
             status := (status st)\<lparr>captures := 0, evicted_captures := 0\<rparr>\<rparr>)"

record snapshot =
  sn_revision :: nat
  sn_status :: engine_status
  sn_traffic :: "capture list"

definition take_snapshot :: "'h engine \<Rightarrow> snapshot" where
  "take_snapshot st = \<lparr>sn_revision = revision st, sn_status = status st, sn_traffic = rev (traffic st)\<rparr>"

section \<open>Breakpoints\<close>

record breakpoint_decision =
  bd_status :: "u16 option"
  bd_body :: "bytes option"
  bd_content_type :: "string option"

definition compile_decision ::
  "http_crate \<Rightarrow> u16 option \<Rightarrow> string option \<Rightarrow> string option \<Rightarrow> engine_error + breakpoint_decision" where
  "compile_decision H wanted body content_type =
     (case (wanted, Option.bind wanted (replacement_status H)) of
        (Some _, None) \<Rightarrow> Inl BadReplacementStatus
      | (_, chosen) \<Rightarrow>
          and_then (map_error BadReplacement (compile_replacement_body H body content_type)) (\<lambda>r.
            Inr \<lparr>bd_status = chosen, bd_body = map_option fst r, bd_content_type = map_option snd r\<rparr>))"

text \<open>The decision is what the waiting exchange receives.\<close>

definition resolve_breakpoint ::
  "http_crate \<Rightarrow> nat \<Rightarrow> u16 option \<Rightarrow> string option \<Rightarrow> string option \<Rightarrow> 'h engine
     \<Rightarrow> (engine_error + breakpoint_decision) \<times> 'h engine" where
  "resolve_breakpoint H i wanted body content_type st =
     (case compile_decision H wanted body content_type of
        Inl e \<Rightarrow> (Inl e, st)
      | Inr d \<Rightarrow>
          (case map_of (breakpoints st) i of
             None \<Rightarrow> (Inl BreakpointGone, st)
           | Some waiting \<Rightarrow>
               (if waiting then Inr d else Inl BreakpointClosed,
                st\<lparr>breakpoints := AList.delete i (breakpoints st)\<rparr>)))"

section \<open>Bodies of captures\<close>

record export_preview =
  ep_id :: nat
  ep_direction :: string
  ep_bytes :: u64
  ep_state :: string
  ep_encoding :: string
  ep_redacted :: bool
  ep_warning :: string
  ep_file_name :: string

definition direction_side :: "string \<Rightarrow> side option" where
  "direction_side d =
     (if d = ''request'' then Some Request_Side
      else if d = ''response'' then Some Response_Side else None)"

definition side_error :: "side \<Rightarrow> capture \<Rightarrow> body_note option" where
  "side_error side c =
     (case side of Request_Side \<Rightarrow> cap_request_body_error c
                 | Response_Side \<Rightarrow> cap_response_body_error c)"

definition export_warning :: "bool \<Rightarrow> string" where
  "export_warning safe =
     (if safe
      then ''This exports the redacted JSON inspection copy, not the original request bytes. Review custom fields before sharing it.''
      else ''This response body is unredacted and may contain credentials or personal data. Review it before sharing.'')"

definition body_export_preview :: "nat \<Rightarrow> string \<Rightarrow> 'h engine \<Rightarrow> engine_error + export_preview" where
  "body_export_preview i direction st =
     (case find_capture i (traffic st) of
        None \<Rightarrow> Inl CaptureGone
      | Some c \<Rightarrow>
          (case direction_side direction of
             None \<Rightarrow> Inl BadDirection
           | Some side \<Rightarrow>
               (case side_error side c of
                  Some e \<Rightarrow> Inl (BodyNote e)
                | None \<Rightarrow>
                    (case store_info side i (bodies st) of
                       Inl e \<Rightarrow> Inl (BodyNote (Store_Error e))
                     | Inr info \<Rightarrow>
                         if i_state info \<noteq> ''complete''
                         then Inl (BodyNote (Store_Error (NotComplete (i_error info))))
                         else Inr \<lparr>ep_id = i, ep_direction = direction, ep_bytes = i_total info,
                           ep_state = i_state info, ep_encoding = i_encoding info,
                           ep_redacted = (side = Request_Side),
                           ep_warning = export_warning (side = Request_Side),
                           ep_file_name = ''sippin-'' @ decimal i @ ''-'' @ direction @ ''.''
                             @ (if side = Request_Side then ''json'' else ''bin'')\<rparr>))))"

definition export_body :: "nat \<Rightarrow> string \<Rightarrow> bool \<Rightarrow> 'h engine \<Rightarrow> engine_error + bytes" where
  "export_body i direction writable st =
     and_then (body_export_preview i direction st) (\<lambda>_.
       case direction_side direction of
         None \<Rightarrow> Inl BadDirection
       | Some side \<Rightarrow>
           map_error (\<lambda>e. BodyNote (Store_Error e)) (export_file side i writable (bodies st)))"

text \<open>\<open>request_body_page\<close> and \<open>response_body_page\<close>; the JSON and search calls have no guard.\<close>

definition capture_page ::
  "side \<Rightarrow> nat \<Rightarrow> u64 \<Rightarrow> nat \<Rightarrow> 'h engine \<Rightarrow> engine_error + body_page" where
  "capture_page side i offset count st =
     (case find_capture i (traffic st) of
        None \<Rightarrow> Inl CaptureGone
      | Some c \<Rightarrow>
          (case side_error side c of
             Some e \<Rightarrow> Inl (BodyNote e)
           | None \<Rightarrow> map_error (\<lambda>e. BodyNote (Store_Error e)) (store_page side i offset count (bodies st))))"

section \<open>Replay\<close>

text \<open>The checks of \<open>replay\<close> under one lock.\<close>

definition replay_check ::
  "nat \<Rightarrow> 'h engine \<Rightarrow> engine_error + 'h replay_template \<times> replay_authorization" where
  "replay_check i st =
     (if es_phase (status st) \<noteq> Running then Inl ProxyStopped
      else case find_capture i (traffic st) of
        None \<Rightarrow> Inl CaptureGone
      | Some c \<Rightarrow>
          if \<not> is_ok (authorize (cap_class c) Replay) then Inl ReplayNotDevelopment
          else if cap_phase c \<noteq> ''complete'' then Inl NotCompleted
          else case map_of (replay_templates st) i of
            None \<Rightarrow> Inl NoTemplate
          | Some t \<Rightarrow>
              if \<not> is_ok (authorize (classify (classifier st)
                         (case u_host (rt_uri t) of None \<Rightarrow> '''' | Some h \<Rightarrow> h)) Replay)
              then Inl RulesForbidReplay
              else Inr (t, \<lparr>ra_origin_id = i, ra_profile = cap_profile c\<rparr>))"

text \<open>\<open>token\<close> is the encoded random value, \<open>None\<close> when the system has none.\<close>

definition replay_begin ::
  "nat \<Rightarrow> string option \<Rightarrow> 'h engine \<Rightarrow> engine_error + 'h replay_template \<times> 'h engine" where
  "replay_begin i token st =
     and_then (replay_check i st) (\<lambda>(t, auth).
       case token of
         None \<Rightarrow> Inl NoRandom
       | Some k \<Rightarrow> Inr (t, st\<lparr>replay_tokens := AList.update k auth (replay_tokens st)\<rparr>))"

definition replay_end :: "string \<Rightarrow> 'h engine \<Rightarrow> 'h engine" where
  "replay_end token st = st\<lparr>replay_tokens := AList.delete token (replay_tokens st)\<rparr>"

text \<open>The start of \<open>handle\<close>: a token is good for one request.\<close>

definition claim_token :: "string option \<Rightarrow> 'h engine \<Rightarrow> replay_authorization option \<times> 'h engine" where
  "claim_token token st =
     (case token of
        None \<Rightarrow> (None, st)
      | Some k \<Rightarrow> (map_of (replay_tokens st) k,
                   st\<lparr>replay_tokens := AList.delete k (replay_tokens st)\<rparr>))"

end
