(* ===== verification/Forward.thy ===== *)
theory Forward
  imports Engine
begin

text \<open>
  The path of one exchange through the proxy (\<open>handle\<close>, \<open>forward\<close>, \<open>forward_with_sender\<close>,
  \<open>connect_upstream\<close>, \<open>RequestBody\<close>, \<open>ObservedBody\<close> of \<open>crates/engine/src/proxy.rs\<close>; the guards of
  \<open>establish\<close> and \<open>forward_intercepted_https\<close> of \<open>proxy/tunnel.rs\<close>). Network and parser results are
  arguments; each function is one lock region of the shared state, or a run of them without an
  \<open>await\<close> between. Statuses are numbers, messages of refusals are kept.
\<close>

type_synonym refusal = "u16 \<times> string"

section \<open>Admission\<close>

record admission =
  ad_class :: destination_class
  ad_profile :: "string option"
  ad_replay_of :: "nat option"

definition internal_token :: "'h header_api \<Rightarrow> 'h \<Rightarrow> string option" where
  "internal_token A h = Option.bind (header_get A h internal_replay_header) (hv_to_str A)"

text \<open>
  \<open>handle\<close> up to \<open>begin_exchange\<close>: the token is claimed first, a known token stands for the
  client's credentials, and a replay is checked against the current destination rules.
\<close>

definition admit ::
  "'h header_api \<Rightarrow> (bytes \<Rightarrow> bytes) \<Rightarrow> (string \<Rightarrow> bytes option) \<Rightarrow> client_auth option \<Rightarrow> 'h request
     \<Rightarrow> 'h engine \<Rightarrow> (refusal + 'h request \<times> admission) \<times> 'h engine" where
  "admit A sha b64 auth request st =
     (let (replay, st1) = claim_token (internal_token A (rq_headers request)) st;
          request' = request\<lparr>rq_headers := hm_remove A internal_replay_header (rq_headers request)\<rparr>;
          class = classify (classifier st1) (case u_host (rq_uri request) of None \<Rightarrow> '''' | Some h \<Rightarrow> h)
      in (case (case replay of
                  Some r \<Rightarrow> Some (ra_profile r)
                | None \<Rightarrow>
                    (case auth of
                       None \<Rightarrow> Some None
                     | Some a \<Rightarrow> if accepts A sha b64 a (rq_headers request')
                                 then Some (Some (auth_profile_id a)) else None)) of
            None \<Rightarrow> Inl (407, ''Valid proxy client credentials are required.'')
          | Some profile \<Rightarrow>
              if replay \<noteq> None \<and> \<not> is_ok (authorize class Replay)
              then Inl (403, ''Replay is allowed only for Development destinations.'')
              else Inr (request', \<lparr>ad_class = class, ad_profile = profile,
                                   ad_replay_of = map_option ra_origin_id replay\<rparr>),
          st1))"

text \<open>What \<open>handle\<close> does with the outcome of the operation: an error, or the deadline.\<close>

definition refuse :: "nat \<Rightarrow> refusal \<Rightarrow> nat \<Rightarrow> 'h engine \<Rightarrow> 'h engine" where
  "refuse i r elapsed st =
     exchange_finish i (Some (snd r)) elapsed (exchange_update i (\<lambda>c. c\<lparr>cap_status := Some (fst r)\<rparr>) st)"

definition time_out :: "nat \<Rightarrow> nat \<Rightarrow> 'h engine \<Rightarrow> 'h engine" where
  "time_out i = refuse i (504, ''Upstream request timed out.'')"

section \<open>Targets\<close>

definition strip_brackets :: "string \<Rightarrow> string" where
  "strip_brackets h = trim_end_matches (CHR '']'') (trim_start_matches (CHR ''['') h)"

definition forward_target :: "'h header_api \<Rightarrow> 'h request \<Rightarrow> refusal + string \<times> nat" where
  "forward_target A request =
     (let u = rq_uri request in
      if contains_key A (rq_headers request) ''upgrade''
      then Inl (501, ''HTTP protocol upgrades are not supported. Use CONNECT for opaque tunnels.'')
      else case u_authority u of
        None \<Rightarrow> Inl (400, ''An absolute http:// target URL is required.'')
      | Some authority \<Rightarrow>
          if u_scheme u \<noteq> Some ''http'' then Inl (400, ''An absolute http:// target URL is required.'')
          else if CHR ''@'' \<in> set authority then Inl (400, ''URL credentials are not supported.'')
          else Inr (strip_brackets (case u_host u of None \<Rightarrow> '''' | Some h \<Rightarrow> h),
                    case u_port u of None \<Rightarrow> 80 | Some p \<Rightarrow> p))"

text \<open>\<open>port\<close> and \<open>host\<close> are those of the parsed authority.\<close>

definition connect_target ::
  "'h header_api \<Rightarrow> string \<Rightarrow> nat option \<Rightarrow> 'h request \<Rightarrow> refusal + string \<times> nat" where
  "connect_target A host port request =
     (let u = rq_uri request; h = rq_headers request;
          invalid = (400, ''CONNECT requires an authority-only host:port target with no request body.'')
      in case u_authority u of
           None \<Rightarrow> Inl invalid
         | Some authority \<Rightarrow>
             if u_scheme u \<noteq> None \<or> u_path_and_query u \<noteq> None \<or> CHR ''@'' \<in> set authority
             then Inl invalid
             else case port of
               None \<Rightarrow> Inl invalid
             | Some p \<Rightarrow>
                 if p = 0 then Inl invalid
                 else if contains_key A h ''transfer-encoding'' \<or> contains_key A h ''upgrade''
                   \<or> (case header_get A h ''content-length'' of
                        None \<Rightarrow> False
                      | Some v \<Rightarrow> Option.bind (hv_to_str A v) parse_usize \<noteq> Some 0)
                 then Inl invalid
                 else Inr (strip_brackets host, p))"

definition intercepted_target ::
  "'h header_api \<Rightarrow> bool \<Rightarrow> string \<Rightarrow> 'h request \<Rightarrow> refusal + string" where
  "intercepted_target A http2 authority request =
     (let u = rq_uri request;
          absolute_ok = (http2 \<and> u_scheme u = Some ''https'' \<and> u_authority u = Some authority)
      in if contains_key A (rq_headers request) ''upgrade''
         then Inl (501, ''HTTPS protocol upgrades are not supported.'')
         else if (u_scheme u \<noteq> None \<or> u_authority u \<noteq> None) \<and> \<not> absolute_ok
         then Inl (400, ''An origin-form HTTPS request target is required inside CONNECT.'')
         else Inr (take_chars 256 authority @ take_chars 1024 (u_path u) @ query_mark u))"

definition intercepted_capture ::
  "'h header_api \<Rightarrow> 'h request \<Rightarrow> string \<Rightarrow> capture \<Rightarrow> capture" where
  "intercepted_capture A request target c =
     c\<lparr>cap_kind := ''https'', cap_method := rq_method request, cap_target := target,
       cap_status := None, cap_request_headers := safe_headers A (rq_headers request),
       cap_response_headers := []\<rparr>"

text \<open>\<open>resolved\<close> is the answer of name resolution; the result is what is connected to.\<close>

definition routes_back :: "nat \<Rightarrow> ip_addr \<times> nat \<Rightarrow> bool" where
  "routes_back proxy_port a \<longleftrightarrow>
     snd a = proxy_port
     \<and> (is_loopback (to_canonical (fst a)) \<or> is_unspecified (to_canonical (fst a)))"

definition upstream_addresses ::
  "(ip_addr \<times> nat) list option \<Rightarrow> nat \<Rightarrow> refusal + (ip_addr \<times> nat) list" where
  "upstream_addresses resolved proxy_port =
     (case resolved of
        None \<Rightarrow> Inl (502, ''Upstream DNS lookup failed.'')
      | Some answers \<Rightarrow>
          (let addresses = take 16 answers in
           if addresses = [] then Inl (502, ''No upstream address found.'')
           else if list_ex (routes_back proxy_port) addresses
           then Inl (508, ''Routing a request back to this proxy is not allowed.'')
           else Inr addresses))"

section \<open>The request sent upstream\<close>

text \<open>
  \<open>path_ok\<close> and \<open>value_ok\<close> are the parsers of the \<open>http\<close> crate for a path and a header value,
  \<open>target_ok\<close> its builder of an absolute target.
\<close>

record 'h outgoing =
  og_scheme :: "string option"
  og_authority :: "string option"
  og_path :: string
  og_headers :: 'h

definition outgoing_request ::
  "'h header_api \<Rightarrow> (string \<Rightarrow> bool) \<Rightarrow> (string \<Rightarrow> string \<Rightarrow> bool) \<Rightarrow> (string \<Rightarrow> bool) \<Rightarrow> bool \<Rightarrow> string \<Rightarrow> 'h request
     \<Rightarrow> refusal + 'h outgoing" where
  "outgoing_request A path_ok target_ok value_ok http2 authority request =
     (let path = (case u_path_and_query (rq_uri request) of None \<Rightarrow> ''/'' | Some p \<Rightarrow> p) in
      if \<not> path_ok path then Inl (400, ''Invalid request path.'')
      else if http2 \<and> \<not> target_ok authority path then Inl (400, ''Invalid HTTPS request target.'')
      else if \<not> value_ok authority then Inl (400, ''Invalid target host.'')
      else Inr \<lparr>og_scheme = (if http2 then Some ''https'' else None),
                og_authority = (if http2 then Some authority else None), og_path = path,
                og_headers = hm_insert A ''host'' authority (strip_hop_headers A (rq_headers request))\<rparr>)"

text \<open>Which request bodies are captured: JSON, by the content type sent upstream.\<close>

definition request_content_type :: "'h header_api \<Rightarrow> 'h \<Rightarrow> string" where
  "request_content_type A h =
     to_ascii_lowercase (case Option.bind (header_get A h ''content-type'') (hv_to_str A) of
       None \<Rightarrow> '''' | Some t \<Rightarrow> t)"

definition json_content_type :: "string \<Rightarrow> bool" where
  "json_content_type t =
     (let kind = str_trim (hd (split_on (CHR '';'') t))
      in kind = ''application/json'' \<or> suffix ''+json'' kind)"

definition open_request_capture ::
  "bool \<Rightarrow> string \<Rightarrow> nat \<Rightarrow> 'h engine \<Rightarrow> bytes option \<times> 'h engine" where
  "open_request_capture has_body content_type i st =
     (let json = json_content_type content_type in
      ((if capture_bodies st \<and> has_body \<and> json then Some [] else None),
       (if capture_bodies st \<and> has_body \<and> \<not> json then
          exchange_update i (\<lambda>c. c\<lparr>cap_request_body_state := ''unavailable'',
            cap_request_body_error := Some (Message ''Request body was forwarded but not recorded: safe inspection currently supports JSON content types only.'')\<rparr>) st
        else if capture_bodies st \<and> has_body then
          exchange_update i (\<lambda>c. c\<lparr>cap_request_body_state := ''recording''\<rparr>) st
        else if capture_bodies st then
          exchange_update i (\<lambda>c. c\<lparr>cap_request_body_state := ''empty''\<rparr>) st
        else st)))"

section \<open>Bodies in transfer\<close>

datatype frame_event = Data bytes bool | Trailers bool | Body_End | Body_Failed | Body_Pending

definition max_request_capture :: nat where
  "max_request_capture = 1024 * 1024"

definition add_request_bytes :: "nat \<Rightarrow> capture \<Rightarrow> capture" where
  "add_request_bytes n c = c\<lparr>cap_request_bytes := cap_request_bytes c + of_nat n\<rparr>"

definition add_response_bytes :: "nat \<Rightarrow> capture \<Rightarrow> capture" where
  "add_response_bytes n c = c\<lparr>cap_response_bytes := cap_response_bytes c + of_nat n\<rparr>"

text \<open>
  \<open>ObservedBody::poll_frame\<close>: byte counts, and the end of the exchange on the response side.
  The flag of a frame is \<open>is_end_stream\<close> after it.
\<close>

definition observed_frame ::
  "bool \<Rightarrow> nat \<Rightarrow> nat \<Rightarrow> frame_event \<Rightarrow> 'h engine \<Rightarrow> 'h engine" where
  "observed_frame is_response i elapsed ev st =
     (case ev of
        Data bytes ended \<Rightarrow>
          (let st1 = exchange_update i (if is_response then add_response_bytes (length bytes)
                                        else add_request_bytes (length bytes)) st
           in if is_response \<and> ended then exchange_finish i None elapsed st1 else st1)
      | Trailers ended \<Rightarrow> if is_response \<and> ended then exchange_finish i None elapsed st else st
      | Body_End \<Rightarrow> if is_response then exchange_finish i None elapsed st else st
      | Body_Failed \<Rightarrow> exchange_finish i (Some ''Body transfer failed.'') elapsed st
      | Body_Pending \<Rightarrow> st)"

text \<open>
  \<open>RequestBody::poll_frame\<close> with its capture buffer: the new buffer, the document handed to the
  storing task, and the state.
\<close>

definition take_capture :: "bytes option \<Rightarrow> bytes option" where
  "take_capture buffer = (case buffer of None \<Rightarrow> None | Some b \<Rightarrow> if b = [] then None else Some b)"

definition request_frame ::
  "nat \<Rightarrow> nat \<Rightarrow> frame_event \<Rightarrow> bytes option \<Rightarrow> 'h engine \<Rightarrow> bytes option \<times> bytes option \<times> 'h engine" where
  "request_frame i elapsed ev buffer st =
     (let st1 = observed_frame False i elapsed ev st in
      case ev of
        Data bytes ended \<Rightarrow>
          (let (buffer', st2) =
             (case buffer of
                None \<Rightarrow> (None, st1)
              | Some b \<Rightarrow>
                  if length b + length bytes \<le> max_request_capture then (Some (b @ bytes), st1)
                  else (None, exchange_update i (\<lambda>c. c\<lparr>cap_request_body_error :=
                         Some (Message ''Request body exceeds the 1 MiB safe inspection limit; original bytes were forwarded but not recorded.'')\<rparr>) st1))
           in if ended then (None, take_capture buffer', st2) else (buffer', None, st2))
      | Trailers ended \<Rightarrow> if ended then (None, take_capture buffer, st1) else (buffer, None, st1)
      | Body_End \<Rightarrow> (None, take_capture buffer, st1)
      | Body_Failed \<Rightarrow>
          (None, None, exchange_update i (\<lambda>c. c\<lparr>cap_request_body_error :=
             Some (Message ''Request body transfer failed before it could be inspected.'')\<rparr>) st1)
      | Body_Pending \<Rightarrow> (buffer, None, st1))"

definition recorded_capture :: "nat \<Rightarrow> 'h engine \<Rightarrow> bool" where
  "recorded_capture i st \<longleftrightarrow> list_ex (\<lambda>c. cap_id c = i) (traffic st)"

text \<open>The end of the storing task of a request body, on the store's answer.\<close>

definition request_stored :: "nat \<Rightarrow> body_error + unit \<Rightarrow> 'h engine \<Rightarrow> 'h engine" where
  "request_stored i result st =
     (let st1 = bump (exchange_update i (case result of
            Inl e \<Rightarrow> (\<lambda>c. c\<lparr>cap_request_body_state := ''unavailable'',
                            cap_request_body_error := Some (Store_Error e)\<rparr>)
          | Inr _ \<Rightarrow> (\<lambda>c. c\<lparr>cap_request_body_state := ''complete''\<rparr>)) st)
      in if recorded_capture i st1 then st1
         else st1\<lparr>bodies := remove_body Request_Side i (bodies st1)\<rparr>)"

section \<open>Response rules and breakpoints\<close>

definition may_modify :: "nat \<Rightarrow> 'h engine \<Rightarrow> bool" where
  "may_modify i st =
     (case find_capture i (traffic st) of
        None \<Rightarrow> False | Some c \<Rightarrow> is_ok (authorize (cap_class c) Modify))"

definition rule_host :: "string \<Rightarrow> string" where
  "rule_host host = to_ascii_lowercase (trim_end_matches (CHR ''.'') (strip_brackets host))"

type_synonym replacement = "(bytes \<times> string option) option"

definition apply_rule ::
  "nat \<Rightarrow> string \<Rightarrow> string \<Rightarrow> string \<Rightarrow> u16 \<Rightarrow> 'h engine \<Rightarrow> u16 \<times> replacement \<times> 'h engine" where
  "apply_rule i host path method original st =
     (case (if may_modify i st then select_rule (response_rules st) (rule_host host) path method
            else None) of
        None \<Rightarrow> (original, None, st)
      | Some r \<Rightarrow>
          (rr_status r, map_option (\<lambda>b. (b, rr_content_type r)) (rr_body r),
           exchange_update i (\<lambda>c. c\<lparr>cap_original_status := Some original,
             cap_rule_id := Some (rr_id r), cap_rule_name := Some (rr_name r)\<rparr>) st))"

definition open_breakpoint :: "nat \<Rightarrow> u16 \<Rightarrow> 'h engine \<Rightarrow> bool \<times> 'h engine" where
  "open_breakpoint i current st =
     (if break_on_responses st \<and> may_modify i st then
        (True, bump (exchange_update i (\<lambda>c. c\<lparr>cap_breakpoint_state := ''waiting'',
             cap_original_status := (if cap_original_status c = None then Some current
                                     else cap_original_status c)\<rparr>)
           (st\<lparr>breakpoints := AList.update i True (breakpoints st)\<rparr>)))
      else (False, st))"

text \<open>\<open>None\<close>: 15 seconds passed, or the sender was dropped by Clear or an eviction.\<close>

definition close_breakpoint ::
  "nat \<Rightarrow> breakpoint_decision option \<Rightarrow> u16 \<times> replacement \<Rightarrow> 'h engine \<Rightarrow> u16 \<times> replacement \<times> 'h engine" where
  "close_breakpoint i decision before st =
     (let st1 = st\<lparr>breakpoints := AList.delete i (breakpoints st)\<rparr> in
      case decision of
        None \<Rightarrow> (fst before, snd before,
                 bump (exchange_update i (\<lambda>c. c\<lparr>cap_breakpoint_state := ''timed_out''\<rparr>) st1))
      | Some d \<Rightarrow>
          ((case bd_status d of None \<Rightarrow> fst before | Some s \<Rightarrow> s),
           (case bd_body d of None \<Rightarrow> snd before | Some b \<Rightarrow> Some (b, bd_content_type d)),
           bump (exchange_update i (\<lambda>c. c\<lparr>cap_breakpoint_state :=
             (if bd_status d \<noteq> None \<or> bd_body d \<noteq> None then ''modified'' else ''continued'')\<rparr>) st1)))"

text \<open>The exchange is dropped while it waits: the receiver is gone, the entry stays.\<close>

definition abandon_breakpoint :: "nat \<Rightarrow> 'h engine \<Rightarrow> 'h engine" where
  "abandon_breakpoint i st =
     st\<lparr>breakpoints := map (\<lambda>(j, waiting). (j, if j = i then False else waiting)) (breakpoints st)\<rparr>"

section \<open>The response\<close>

definition show_response :: "u16 \<Rightarrow> (string \<times> string) list \<Rightarrow> capture \<Rightarrow> capture" where
  "show_response code headers c = c\<lparr>cap_status := Some code, cap_response_headers := headers\<rparr>"

text \<open>
  A replaced response: the capture shows the final head and length, the body is stored when
  bodies are captured, and the exchange is complete. \<open>t\<close> and \<open>a\<close> are the storing task and the
  address of its entry; \<open>None\<close> when the task that awaits the storage is dropped.
\<close>

definition replace_response ::
  "'h header_api \<Rightarrow> bool \<Rightarrow> nat \<Rightarrow> u16 \<Rightarrow> bytes \<times> string option \<Rightarrow> 'h \<Rightarrow> nat \<Rightarrow> nat \<Rightarrow> storage \<Rightarrow> nat
     \<Rightarrow> 'h engine \<Rightarrow> 'h option \<times> 'h engine" where
  "replace_response A http2 i code replacement h t a storage elapsed st =
     (let ct = (case snd replacement of None \<Rightarrow> default_content_type | Some c \<Rightarrow> c);
          head = replacement_head A http2 (length (fst replacement)) ct h;
          st1 = exchange_update i (\<lambda>c. (show_response code (safe_headers A head) c)
                  \<lparr>cap_response_bytes := of_nat (length (fst replacement))\<rparr>) st
      in if \<not> capture_bodies st1 then (Some head, exchange_finish i None elapsed st1)
         else case store_complete i t a (fst replacement) (body_budget st1) storage (bodies st1) of
           (None, s) \<Rightarrow> (None, st1\<lparr>bodies := s\<rparr>)
         | (Some (Inl e), s) \<Rightarrow>
             (Some head, exchange_finish i None elapsed
               (exchange_update i (\<lambda>c. c\<lparr>cap_response_body_error := Some (Store_Error e)\<rparr>)
                 (st1\<lparr>bodies := s\<rparr>)))
         | (Some (Inr _), s) \<Rightarrow> (Some head, exchange_finish i None elapsed (st1\<lparr>bodies := s\<rparr>)))"

definition response_encoding :: "'h header_api \<Rightarrow> bool \<Rightarrow> 'h \<Rightarrow> string" where
  "response_encoding A ended h =
     (if ended then ''''
      else join_with '','' (map (\<lambda>v. to_ascii_lowercase (str_trim
             (case hv_to_str A v of None \<Rightarrow> ''unsupported'' | Some s \<Rightarrow> s)))
             (hm_get_all A h ''content-encoding'')))"

text \<open>A response that is forwarded: the head it gets, and the recording that begins with it.\<close>

definition pass_response ::
  "'h header_api \<Rightarrow> nat \<Rightarrow> u16 \<Rightarrow> 'h \<Rightarrow> bool \<Rightarrow> nat option \<Rightarrow> 'h engine \<Rightarrow> 'h \<times> 'h engine" where
  "pass_response A i code h ended a st =
     (let head = strip_hop_headers A h;
          st1 = exchange_update i (show_response code (safe_headers A h)) st
      in (head,
          if \<not> capture_bodies st1 then st1
          else case a of
            None \<Rightarrow> exchange_update i (\<lambda>c. c\<lparr>cap_response_body_error :=
                      Some (Message ''Cannot create body storage.'')\<rparr>) st1
          | Some a \<Rightarrow>
              (let s = record_body Response_Side i a (response_encoding A ended head)
                         (body_budget st1) (bodies st1)
               in st1\<lparr>bodies := if recorded_capture i st1 then s else remove_body Response_Side i s\<rparr>)))"

end
