(* ===== verification/Body_Budget.thy ===== *)
theory Body_Budget
  imports Body_Store Transitions
begin

text \<open>
  The contract of the body store: what \<open>used\<close> counts, what an entry holds, and that every
  interleaving of the store's critical sections keeps it. \<open>store_step L\<close> is one critical section
  of any task, with budgets up to \<open>L\<close>.
\<close>

section \<open>Sums over a finite map\<close>

definition map_sum :: "('v \<Rightarrow> nat) \<Rightarrow> ('k \<rightharpoonup> 'v) \<Rightarrow> nat" where
  "map_sum f m = (\<Sum>k \<in> dom m. f (the (m k)))"

lemma map_sum_empty [simp]: "map_sum f Map.empty = 0"
  by (simp add: map_sum_def)

lemma map_sum_new:
  assumes "finite (dom m)" and "m k = None"
  shows "map_sum f (m(k \<mapsto> v)) = map_sum f m + f v"
proof -
  have "(\<Sum>x \<in> dom m. f (the ((m(k \<mapsto> v)) x))) = map_sum f m"
    unfolding map_sum_def using assms(2) by (intro sum.cong) auto
  with assms show ?thesis by (simp add: map_sum_def domIff)
qed

lemma map_sum_remove:
  assumes "finite (dom m)" and "m k = Some v"
  shows "map_sum f (m(k := None)) + f v = map_sum f m"
proof -
  have "map_sum f m = f v + (\<Sum>x \<in> dom m - {k}. f (the (m x)))"
    unfolding map_sum_def using assms by (subst sum.remove [of _ k]) auto
  also have "(\<Sum>x \<in> dom m - {k}. f (the (m x))) = map_sum f (m(k := None))"
    unfolding map_sum_def by (intro sum.cong) auto
  finally show ?thesis by simp
qed

lemma map_sum_update:
  assumes "finite (dom m)" and "m k = Some v"
  shows "map_sum f (m(k \<mapsto> w)) + f v = map_sum f m + f w"
proof -
  have "map_sum f ((m(k := None))(k \<mapsto> w)) = map_sum f (m(k := None)) + f w"
    using assms(1) by (intro map_sum_new) simp_all
  with map_sum_remove [OF assms, of f] show ?thesis by simp
qed

lemma map_sum_ge: "finite (dom m) \<Longrightarrow> m k = Some v \<Longrightarrow> f v \<le> map_sum f m"
  using map_sum_remove [of m k v f] by simp

section \<open>The invariant\<close>

definition held :: "json_view \<Rightarrow> nat" where
  "held view =
     (case j_writer view of None \<Rightarrow> 0 | Some n \<Rightarrow> unat n)
     + (case j_file view of None \<Rightarrow> 0 | Some _ \<Rightarrow> unat (j_total view))"

lemma held_simps [simp]:
  "held (v\<lparr>j_cancel := b\<rparr>) = held v" "held (v\<lparr>j_status := st\<rparr>) = held v"
  by (simp_all add: held_def split: option.splits)

definition is_complete :: "entry \<Rightarrow> bool" where
  "is_complete e \<longleftrightarrow> fst (e_result e) = ''complete''"

lemma is_complete_json [simp]: "is_complete (e\<lparr>e_json := v\<rparr>) = is_complete e"
  by (simp add: is_complete_def)

text \<open>
  A live entry owns what its three users reserved: published bytes, the recorder's pending chunk,
  and the JSON layout. Its file holds at least the published bytes, exactly them while the
  recorder runs and once it is complete. A cancelled entry owns nothing.
\<close>

definition entry_ok :: "entry \<Rightarrow> bool" where
  "entry_ok e \<longleftrightarrow>
     (if e_cancelled e then e_reserved e = 0 \<and> e_file e = None
      else unat (e_reserved e) = unat (e_total e) + unat (e_unwritten e) + held (e_json e)
        \<and> (\<exists>f. e_file e = Some f \<and> unat (e_total e) \<le> length f
             \<and> (e_recorder e \<or> is_complete e \<longrightarrow> length f = unat (e_total e))))
     \<and> (is_complete e \<longrightarrow> \<not> e_recorder e \<and> e_unwritten e = 0)
     \<and> (j_writer (e_json e) \<noteq> None \<longleftrightarrow> fst (j_status (e_json e)) = ''building'')
     \<and> (j_file (e_json e) \<noteq> None \<longrightarrow> fst (j_status (e_json e)) = ''ready'')"

definition busy :: "entry \<Rightarrow> nat" where
  "busy e = (if j_writer (e_json e) = None then 0 else 1)"

definition owned :: "entry \<Rightarrow> nat" where
  "owned e = unat (e_reserved e)"

definition budget_ok :: "session \<Rightarrow> bool" where
  "budget_ok s \<longleftrightarrow>
     finite (dom (heap s)) \<and> finite (dom (tickets s))
     \<and> unat (used s) = map_sum owned (heap s) + map_sum unat (tickets s) + lost s
     \<and> permits s + map_sum busy (heap s) + searches s = 2
     \<and> (\<forall>a e. heap s a = Some e \<longrightarrow> entry_ok e)"

text \<open>Both maps point to live entries, and no entry is reachable twice.\<close>

definition maps_ok :: "session \<Rightarrow> bool" where
  "maps_ok s \<longleftrightarrow>
     (\<forall>side. distinct (map fst (entries s side)))
     \<and> (\<forall>side i a. addr side i s = Some a
          \<longrightarrow> (\<exists>e. heap s a = Some e \<and> \<not> e_cancelled e))
     \<and> (\<forall>side i side' i' a. addr side i s = Some a
          \<longrightarrow> addr side' i' s = Some a \<longrightarrow> side = side' \<and> i = i')"

definition within :: "u64 \<Rightarrow> session \<Rightarrow> bool" where
  "within L s \<longleftrightarrow> used s \<le> L \<and> (\<forall>a e. heap s a = Some e \<longrightarrow> e_limit e \<le> L)"

definition store_inv :: "u64 \<Rightarrow> session \<Rightarrow> bool" where
  "store_inv L s \<longleftrightarrow> budget_ok s \<and> maps_ok s \<and> within L s"

lemma shared_pair_inv: "store_inv L shared_pair"
  by (simp add: store_inv_def budget_ok_def maps_ok_def within_def shared_pair_def addr_def)

section \<open>Updating one entry\<close>

lemma owned_le_used: "budget_ok s \<Longrightarrow> heap s a = Some e \<Longrightarrow> unat (e_reserved e) \<le> unat (used s)"
  using map_sum_ge [of "heap s" a e owned] by (simp add: budget_ok_def owned_def)

lemma ticket_le_used: "budget_ok s \<Longrightarrow> tickets s t = Some n \<Longrightarrow> unat n \<le> unat (used s)"
  using map_sum_ge [of "tickets s" t n unat] by (simp add: budget_ok_def)

lemma budget_ok_entry: "budget_ok s \<Longrightarrow> heap s a = Some e \<Longrightarrow> entry_ok e"
  by (simp add: budget_ok_def)

lemma budget_ok_update:
  assumes "budget_ok s" and e: "heap s a = Some e" and h: "heap s' = (heap s)(a \<mapsto> e')"
    and same: "tickets s' = tickets s" "lost s' = lost s" "searches s' = searches s"
    and ok: "entry_ok e'"
    and u: "unat (used s') + unat (e_reserved e) = unat (used s) + unat (e_reserved e')"
    and p: "permits s' + busy e' = permits s + busy e"
  shows "budget_ok s'"
proof -
  have fin: "finite (dom (heap s))" using assms(1) by (simp add: budget_ok_def)
  show ?thesis
    using assms(1) ok u p map_sum_update [OF fin e, of owned e'] map_sum_update [OF fin e, of busy e']
    by (auto simp: budget_ok_def h same owned_def)
qed

lemma addr_cong: "entries s' = entries s \<Longrightarrow> addr side i s' = addr side i s"
  by (simp add: addr_def)

lemma addr_other_fields [simp]:
  "addr side i (s\<lparr>tickets := T\<rparr>) = addr side i s"
  "addr side i (s\<lparr>heap := h\<rparr>) = addr side i s"
  "addr side i (s\<lparr>used := u\<rparr>) = addr side i s"
  "addr side i (s\<lparr>permits := p\<rparr>) = addr side i s"
  "addr side i (s\<lparr>lost := l\<rparr>) = addr side i s"
  "addr side i (s\<lparr>searches := n\<rparr>) = addr side i s"
  by (simp_all add: addr_def)

lemma maps_ok_update:
  assumes "maps_ok s" and "heap s a = Some e" and "heap s' = (heap s)(a \<mapsto> e')"
    and "entries s' = entries s" and "e_cancelled e' = e_cancelled e"
  shows "maps_ok s'"
proof -
  have "addr side i s' = addr side i s" for side i using assms(4) by (rule addr_cong)
  moreover have "\<exists>d. heap s' b = Some d \<and> \<not> e_cancelled d"
    if "\<exists>d. heap s b = Some d \<and> \<not> e_cancelled d" for b
    using that assms(2,3,5) by auto
  ultimately show ?thesis using assms(1,4) unfolding maps_ok_def by simp
qed

lemma within_update:
  assumes "within L s" and "heap s a = Some e" and "heap s' = (heap s)(a \<mapsto> e')"
    and "e_limit e' = e_limit e" and "used s' \<le> L"
  shows "within L s'"
  using assms by (auto simp: within_def)

lemma reserve_Some:
  assumes "reserve current count limit = Some next"
  shows "unat next = unat current + unat count" and "next = current + count" and "next \<le> limit"
  using assms by (auto simp: reserve_def dest: checked_add_Some split: option.splits if_splits)

text \<open>An update that moves no bytes.\<close>

definition quiet :: "entry \<Rightarrow> entry \<Rightarrow> bool" where
  "quiet e e' \<longleftrightarrow> e_reserved e' = e_reserved e \<and> e_limit e' = e_limit e
     \<and> e_cancelled e' = e_cancelled e \<and> busy e' = busy e \<and> entry_ok e'"

lemma store_inv_quiet:
  assumes "store_inv L s" and "\<And>e. heap s a = Some e \<Longrightarrow> quiet e (f e)"
  shows "store_inv L (upd_entry a f s)"
proof (cases "heap s a")
  case None
  with assms(1) show ?thesis by (simp add: upd_entry_def)
next
  case (Some e)
  let ?s = "s\<lparr>heap := (heap s)(a \<mapsto> f e)\<rparr>"
  from assms(2) [OF Some] have q: "quiet e (f e)" .
  have "budget_ok ?s"
    using assms(1) Some q by (intro budget_ok_update [of s a e ?s "f e"]) (auto simp: store_inv_def quiet_def)
  moreover have "maps_ok ?s"
    using assms(1) Some q by (intro maps_ok_update [of s a e ?s "f e"]) (auto simp: store_inv_def quiet_def)
  moreover have "within L ?s"
    using assms(1) Some q
    by (intro within_update [of L s a e ?s "f e"]) (auto simp: store_inv_def quiet_def within_def)
  ultimately show ?thesis using Some by (simp add: store_inv_def upd_entry_def)
qed

section \<open>Releasing\<close>

lemma entry_ok_cancel: "entry_ok e \<Longrightarrow> entry_ok (cancel_entry e)"
  by (simp add: entry_ok_def cancel_entry_def is_complete_def)

lemma busy_cancel [simp]: "busy (cancel_entry e) = busy e"
  by (simp add: busy_def cancel_entry_def)

lemma e_reserved_cancel [simp]: "e_reserved (cancel_entry e) = 0"
  by (simp add: cancel_entry_def)

lemma budget_ok_cancel [invar_intros]: "budget_ok s \<Longrightarrow> budget_ok (entry_cancel a s)"
proof (cases "heap s a")
  case None
  then show "budget_ok s \<Longrightarrow> ?thesis" by (simp add: entry_cancel_def)
next
  case (Some e)
  assume ok: "budget_ok s"
  let ?s = "s\<lparr>heap := (heap s)(a \<mapsto> cancel_entry e), used := used s - e_reserved e\<rparr>"
  have "unat (used s - e_reserved e) = unat (used s) - unat (e_reserved e)"
    using owned_le_used [OF ok Some] by (rule unat_sub_u64)
  with ok Some have "budget_ok ?s"
    by (intro budget_ok_update [of s a e ?s "cancel_entry e"])
      (auto simp: owned_le_used intro: entry_ok_cancel budget_ok_entry)
  with Some show ?thesis by (simp add: entry_cancel_def)
qed

lemma within_cancel [invar_intros]: "budget_ok s \<Longrightarrow> within L s \<Longrightarrow> within L (entry_cancel a s)"
  using owned_le_used [of s a] unat_sub_u64 [of _ "used s"]
  by (auto simp: within_def entry_cancel_def cancel_entry_def word_le_nat_alt split: option.splits)

lemma entries_cancel [simp]: "entries (entry_cancel a s) = entries s"
  by (simp add: entry_cancel_def split: option.splits)

lemma heap_cancel: "heap (entry_cancel a s) b =
    (if b = a then map_option cancel_entry (heap s a) else heap s b)"
  by (simp add: entry_cancel_def split: option.splits)

lemma maps_ok_cancel:
  assumes "maps_ok s" and "\<And>side i. addr side i s \<noteq> Some a"
  shows "maps_ok (entry_cancel a s)"
proof -
  have h: "heap (entry_cancel a s) b = heap s b" if "addr side i s = Some b" for b side i
    using that assms(2) [of side i] by (auto simp: heap_cancel)
  have [simp]: "addr side i (entry_cancel a s) = addr side i s" for side i
    by (simp add: addr_def)
  from assms(1) h show ?thesis unfolding maps_ok_def by simp
qed

lemma budget_ok_entries [simp]: "budget_ok (s\<lparr>entries := m\<rparr>) = budget_ok s"
  by (simp add: budget_ok_def)

lemma within_entries [simp]: "within L (s\<lparr>entries := m\<rparr>) = within L s"
  by (simp add: within_def)

lemma addr_delete:
  "addr side' i' (s\<lparr>entries := (entries s)(side := AList.delete i (entries s side))\<rparr>)
     = (if side' = side \<and> i' = i then None else addr side' i' s)"
  by (simp add: addr_def AList.delete_conv)

lemma addr_insert:
  "addr side' i' (s\<lparr>heap := h, entries := (entries s)(side := AList.update i a (entries s side))\<rparr>)
     = (if side' = side \<and> i' = i then Some a else addr side' i' s)"
  by (simp add: addr_def AList.update_conv)

lemma maps_ok_delete:
  assumes "maps_ok s"
  shows "maps_ok (s\<lparr>entries := (entries s)(side := AList.delete i (entries s side))\<rparr>)"
  using assms unfolding maps_ok_def by (simp add: addr_delete AList.distinct_delete)

lemma store_inv_remove [invar_intros]:
  assumes "store_inv L s"
  shows "store_inv L (remove_body side i s)"
proof -
  let ?s = "s\<lparr>entries := (entries s)(side := AList.delete i (entries s side))\<rparr>"
  have m: "maps_ok ?s" using assms maps_ok_delete by (simp add: store_inv_def)
  have unreachable: "addr side' i' ?s \<noteq> Some a"
    if "addr side i s = Some a" for a side' i'
    using that assms unfolding store_inv_def maps_ok_def
    by (auto simp: addr_delete)
  show ?thesis
    using assms m unreachable
    by (auto simp: remove_body_def Let_def store_inv_def
        intro!: budget_ok_cancel within_cancel maps_ok_cancel split: option.splits)
qed

lemma fold_cancel_inv:
  assumes "budget_ok s" and "within L s" and "maps_ok s"
    and "\<And>i a side j. (i, a) \<in> set es \<Longrightarrow> addr side j s \<noteq> Some a"
  shows "store_inv L (fold (\<lambda>(_, a). entry_cancel a) es s)"
  using assms
proof (induction es arbitrary: s)
  case Nil
  then show ?case by (simp add: store_inv_def)
next
  case (Cons x es)
  obtain i a where x: "x = (i, a)" by (cases x)
  have un: "addr side j s \<noteq> Some a" for side j
    using Cons.prems(4) [of i a] x by simp
  have rest: "addr side j (entry_cancel a s) \<noteq> Some b" if "(i', b) \<in> set es" for i' b side j
    using Cons.prems(4) [of i' b side j] that by (simp add: addr_def)
  have "maps_ok (entry_cancel a s)" using Cons.prems(3) un by (rule maps_ok_cancel)
  from Cons.IH [OF budget_ok_cancel within_cancel this rest] Cons.prems(1,2) x show ?case by simp
qed

lemma store_inv_clear [invar_intros]:
  assumes "store_inv L s"
  shows "store_inv L (clear_bodies side s)"
  unfolding clear_bodies_def
proof (rule fold_cancel_inv)
  let ?s = "s\<lparr>entries := (entries s)(side := [])\<rparr>"
  show "budget_ok ?s" "within L ?s" using assms by (auto simp: store_inv_def)
  show "maps_ok ?s" using assms by (auto simp: store_inv_def maps_ok_def addr_def)
  fix i a side' j
  assume "(i, a) \<in> set (entries s side)"
  moreover have "distinct (map fst (entries s side))" using assms by (auto simp: store_inv_def maps_ok_def)
  ultimately have "addr side i s = Some a" by (simp add: addr_def)
  then show "addr side' j ?s \<noteq> Some a"
    using assms by (cases "side' = side") (auto simp: store_inv_def maps_ok_def addr_def)
qed

section \<open>Inserting\<close>

lemma addr_live:
  "maps_ok s \<Longrightarrow> addr side i s = Some a \<Longrightarrow> \<exists>e. heap s a = Some e \<and> \<not> e_cancelled e"
  by (auto simp: maps_ok_def)

lemma addr_inject:
  "maps_ok s \<Longrightarrow> addr side i s = Some a \<Longrightarrow> addr side' i' s = Some a \<Longrightarrow> side' = side \<and> i' = i"
  unfolding maps_ok_def by metis

lemma addr_insert_entry:
  "addr side' i' (insert_entry side i a e s)
     = (if side' = side \<and> i' = i then Some a else addr side' i' s)"
  by (simp add: insert_entry_def addr_insert)

lemma heap_insert_entry [simp]: "heap (insert_entry side i a e s) = (heap s)(a \<mapsto> e)"
  by (simp add: insert_entry_def)

lemma maps_ok_insert:
  assumes "maps_ok s" and "heap s a = None" and "\<not> e_cancelled e"
  shows "maps_ok (insert_entry side i a e s)"
proof -
  have fresh: "addr side' i' s \<noteq> Some a" for side' i'
    using addr_live [OF assms(1), of side' i' a] assms(2) by auto
  have "distinct (map fst (entries (insert_entry side i a e s) side'))" for side'
    using assms(1) by (simp add: insert_entry_def maps_ok_def AList.distinct_update)
  with assms fresh show ?thesis
    unfolding maps_ok_def by (simp add: addr_insert_entry)
qed

lemma store_inv_insert:
  assumes inv: "store_inv L s" and new: "heap s a = None"
    and e: "entry_ok e" "\<not> e_cancelled e" "busy e = 0" "e_limit e \<le> L"
    and t: "finite (dom T)" "map_sum unat T + owned e = map_sum unat (tickets s)"
  shows "store_inv L (insert_entry side i a e (s\<lparr>tickets := T\<rparr>))"
proof -
  let ?s = "s\<lparr>tickets := T\<rparr>"
  have fin: "finite (dom (heap s))" using inv by (simp add: store_inv_def budget_ok_def)
  have "budget_ok (insert_entry side i a e ?s)"
    using inv e t map_sum_new [OF fin new, of owned e] map_sum_new [OF fin new, of busy e]
    by (auto simp: store_inv_def budget_ok_def insert_entry_def)
  moreover have "maps_ok ?s" using inv by (simp add: store_inv_def maps_ok_def addr_def)
  then have "maps_ok (insert_entry side i a e ?s)"
    using new e by (intro maps_ok_insert) simp_all
  moreover have "within L (insert_entry side i a e ?s)"
    using inv e by (simp add: store_inv_def within_def insert_entry_def)
  ultimately show ?thesis by (simp add: store_inv_def)
qed

lemma entry_ok_recording: "entry_ok (recording_entry limit encoding)"
  by (simp add: entry_ok_def recording_entry_def held_def default_json_view_def is_complete_def)

lemma entry_ok_complete_entry:
  "unat n = length bytes \<Longrightarrow> entry_ok (complete_entry bytes limit encoding n)"
  by (simp add: entry_ok_def complete_entry_def held_def default_json_view_def is_complete_def)

lemma store_inv_record [invar_intros]:
  assumes "store_inv L s" and "heap s a = None" and "limit \<le> L"
  shows "store_inv L (record_body side i a encoding limit s)"
proof -
  have "store_inv L (insert_entry side i a (recording_entry limit encoding) (s\<lparr>tickets := tickets s\<rparr>))"
    using assms entry_ok_recording
    by (intro store_inv_insert)
      (auto simp: recording_entry_def busy_def owned_def default_json_view_def store_inv_def budget_ok_def)
  then show ?thesis by (simp add: record_body_def)
qed

lemma store_inv_cancel_unreachable:
  assumes "store_inv L s" and "\<And>side i. addr side i s \<noteq> Some a"
  shows "store_inv L (entry_cancel a s)"
  using assms by (auto simp: store_inv_def intro: budget_ok_cancel within_cancel maps_ok_cancel)

lemma store_inv_commit [invar_intros]:
  assumes inv: "store_inv L s" and t: "tickets s t = Some n" and "unat n = length bytes"
    and new: "heap s a = None" and "limit \<le> L"
  shows "store_inv L (store_commit side i t a bytes limit encoding s)"
proof -
  let ?e = "complete_entry bytes limit encoding n"
  let ?s = "insert_entry side i a ?e (s\<lparr>tickets := (tickets s)(t := None)\<rparr>)"
  have fin: "finite (dom (tickets s))" using inv by (simp add: store_inv_def budget_ok_def)
  have ok: "store_inv L ?s"
  proof (rule store_inv_insert [OF inv new])
    show "entry_ok ?e" using assms(3) by (rule entry_ok_complete_entry)
    show "\<not> e_cancelled ?e" "busy ?e = 0" "e_limit ?e \<le> L"
      using assms(5) by (simp_all add: complete_entry_def busy_def default_json_view_def)
    show "finite (dom ((tickets s)(t := None)))" using fin by simp
    show "map_sum unat ((tickets s)(t := None)) + owned ?e = map_sum unat (tickets s)"
      using map_sum_remove [OF fin t, of unat] by (simp add: owned_def complete_entry_def)
  qed
  have "addr side' i' ?s \<noteq> Some b" if "addr side i s = Some b" for b side' i'
  proof -
    have maps: "maps_ok s" using inv by (simp add: store_inv_def)
    have "b \<noteq> a" using addr_live [OF maps that] new by auto
    with addr_inject [OF maps that, of side' i'] show ?thesis
      by (auto simp: addr_insert_entry)
  qed
  with ok t show ?thesis
    by (auto simp: store_commit_def Let_def intro: store_inv_cancel_unreachable split: option.splits)
qed

section \<open>Reserving\<close>

lemma store_inv_reserve [invar_intros]:
  assumes inv: "store_inv L s" and new: "tickets s t = None" and "limit \<le> L"
    and r: "store_reserve t n limit s = Inr s'"
  shows "store_inv L s'"
proof -
  from r obtain next' where n: "reserve (used s) n limit = Some next'"
    and s': "s' = s\<lparr>used := next', tickets := (tickets s)(t \<mapsto> n)\<rparr>"
    by (auto simp: store_reserve_def split: option.splits)
  have fin: "finite (dom (tickets s))" using inv by (simp add: store_inv_def budget_ok_def)
  have "budget_ok s'"
    using inv reserve_Some(1) [OF n] map_sum_new [OF fin new, of unat n] fin
    by (auto simp: s' store_inv_def budget_ok_def)
  moreover have "within L s'"
    using inv reserve_Some(3) [OF n] assms(3) by (auto simp: s' store_inv_def within_def)
  moreover have "maps_ok s'" using inv by (simp add: s' store_inv_def maps_ok_def addr_def)
  ultimately show ?thesis by (simp add: store_inv_def)
qed

lemma store_inv_failed [invar_intros]:
  assumes inv: "store_inv L s"
  shows "store_inv L (store_failed t s)"
proof (cases "tickets s t")
  case None
  with inv show ?thesis by (simp add: store_failed_def)
next
  case (Some n)
  have fin: "finite (dom (tickets s))" using inv by (simp add: store_inv_def budget_ok_def)
  have le: "unat n \<le> unat (used s)" using inv Some by (auto simp: store_inv_def intro: ticket_le_used)
  then have "unat (used s - n) = unat (used s) - unat n" by (rule unat_sub_u64)
  then show ?thesis
    using inv Some le map_sum_remove [OF fin Some, of unat] fin
    by (auto simp: store_failed_def store_inv_def budget_ok_def within_def maps_ok_def addr_def
        word_le_nat_alt)
qed

lemma store_inv_dropped [invar_intros]:
  assumes inv: "store_inv L s"
  shows "store_inv L (store_dropped t s)"
proof (cases "tickets s t")
  case None
  with inv show ?thesis by (simp add: store_dropped_def)
next
  case (Some n)
  have fin: "finite (dom (tickets s))" using inv by (simp add: store_inv_def budget_ok_def)
  then show ?thesis
    using inv map_sum_remove [OF fin Some, of unat] Some
    by (auto simp: store_dropped_def store_inv_def budget_ok_def within_def maps_ok_def addr_def)
qed

section \<open>Recording\<close>

lemma quiet_entry_ok:
  assumes "entry_ok e" and "e_reserved e' = e_reserved e" and "e_limit e' = e_limit e"
    and "e_cancelled e' = e_cancelled e" and "e_json e' = e_json e" and "entry_ok e'"
  shows "quiet e e'"
  using assms by (simp add: quiet_def busy_def)

lemma finish_entry_fields [simp]:
  "e_reserved (finish_entry st err e) = e_reserved e" "e_limit (finish_entry st err e) = e_limit e"
  "e_cancelled (finish_entry st err e) = e_cancelled e" "e_json (finish_entry st err e) = e_json e"
  "e_file (finish_entry st err e) = e_file e" "e_total (finish_entry st err e) = e_total e"
  "e_unwritten (finish_entry st err e) = e_unwritten e"
  "e_recorder (finish_entry st err e) = e_recorder e"
  "e_encoding (finish_entry st err e) = e_encoding e"
  by (simp_all add: finish_entry_def)

lemma stopped_fields [simp]:
  "e_reserved (stopped e) = e_reserved e" "e_limit (stopped e) = e_limit e"
  "e_cancelled (stopped e) = e_cancelled e" "e_json (stopped e) = e_json e"
  "e_file (stopped e) = e_file e" "e_total (stopped e) = e_total e"
  "e_unwritten (stopped e) = e_unwritten e" "e_result (stopped e) = e_result e"
  "\<not> e_recorder (stopped e)" "is_complete (stopped e) = is_complete e"
  by (simp_all add: stopped_def is_complete_def)

lemma append_file_fields [simp]:
  "e_reserved (append_file c e) = e_reserved e" "e_limit (append_file c e) = e_limit e"
  "e_cancelled (append_file c e) = e_cancelled e" "e_json (append_file c e) = e_json e"
  "e_total (append_file c e) = e_total e" "e_unwritten (append_file c e) = e_unwritten e"
  "e_result (append_file c e) = e_result e" "e_recorder (append_file c e) = e_recorder e"
  "is_complete (append_file c e) = is_complete e"
  "e_file (append_file c e) = map_option (\<lambda>f. f @ c) (e_file e)"
  by (simp_all add: append_file_def is_complete_def)

lemma is_complete_finish:
  "is_complete (finish_entry st err e)
     \<longleftrightarrow> is_complete e \<or> fst (e_result e) = ''recording'' \<and> st = ''complete''"
  by (auto simp: is_complete_def finish_entry_def)

lemma entry_ok_stopped: "entry_ok e \<Longrightarrow> entry_ok (stopped e)"
  by (auto simp: entry_ok_def)

text \<open>A task may end an entry with any state but \<open>complete\<close> at any time.\<close>

lemma entry_ok_finish:
  "entry_ok e \<Longrightarrow> st \<noteq> ''complete'' \<Longrightarrow> entry_ok (finish_entry st err e)"
  by (auto simp: entry_ok_def is_complete_finish)

lemma store_inv_tap_drop [invar_intros]: "store_inv L s \<Longrightarrow> store_inv L (tap_drop a s)"
  unfolding tap_drop_def entry_finish_def
  by (rule store_inv_quiet)
    (auto intro!: quiet_entry_ok entry_ok_finish simp: store_inv_def budget_ok_def)

lemma store_inv_open [invar_intros]: "store_inv L s \<Longrightarrow> store_inv L (recorder_open a s)"
  unfolding recorder_open_def
  by (rule store_inv_quiet)
    (auto intro!: quiet_entry_ok entry_ok_finish entry_ok_stopped simp: store_inv_def budget_ok_def)

lemma store_inv_check [invar_intros]: "store_inv L s \<Longrightarrow> store_inv L (recorder_check a s)"
  unfolding recorder_check_def
  by (rule store_inv_quiet)
    (auto intro!: quiet_entry_ok entry_ok_stopped simp: store_inv_def budget_ok_def)

lemma store_inv_source_failed [invar_intros]:
  "store_inv L s \<Longrightarrow> store_inv L (recorder_source_failed a s)"
  unfolding recorder_source_failed_def
  by (rule store_inv_quiet)
    (auto intro!: quiet_entry_ok entry_ok_finish entry_ok_stopped simp: store_inv_def budget_ok_def)

lemma store_inv_end [invar_intros]:
  assumes "store_inv L s" and "heap s a = Some e" and "e_recorder e" and "e_unwritten e = 0"
  shows "store_inv L (recorder_end a s)"
  unfolding recorder_end_def
proof (rule store_inv_quiet [OF assms(1)])
  fix d
  assume "heap s a = Some d"
  with assms have d: "d = e" "entry_ok e" by (auto simp: store_inv_def budget_ok_def)
  then have "entry_ok (stopped (finish_entry ''complete'' None e))"
    using assms(3,4) by (auto simp: entry_ok_def is_complete_finish)
  with d show "quiet d (stopped (finish_entry ''complete'' None d))"
    by (intro quiet_entry_ok) simp_all
qed

lemma store_inv_write_failed [invar_intros]:
  assumes "store_inv L s" and "heap s a = Some e" and "e_recorder e"
  shows "store_inv L (recorder_write_failed a written s)"
  unfolding recorder_write_failed_def
proof (rule store_inv_quiet [OF assms(1)])
  fix d
  assume "heap s a = Some d"
  with assms have d: "d = e" "entry_ok e" by (auto simp: store_inv_def budget_ok_def)
  let ?f = "stopped (finish_entry ''partial'' (Some ''Body storage write failed; forwarding continues.'')
    (append_file written e))"
  have "entry_ok ?f"
    using d(2) assms(3) by (auto simp: entry_ok_def is_complete_finish)
  with d show "quiet d (stopped (finish_entry ''partial''
      (Some ''Body storage write failed; forwarding continues.'') (append_file written d)))"
    by (intro quiet_entry_ok) simp_all
qed

lemma store_inv_write [invar_intros]:
  assumes "store_inv L s" and "heap s a = Some e" and "e_recorder e"
    and "length chunk = unat (e_unwritten e)"
  shows "store_inv L (recorder_write a chunk s)"
  unfolding recorder_write_def
proof (rule store_inv_quiet [OF assms(1)])
  fix d
  assume "heap s a = Some d"
  with assms have d: "d = e" "entry_ok e" by (auto simp: store_inv_def budget_ok_def)
  let ?f = "\<lambda>e. (append_file chunk e)\<lparr>e_total := e_total e + e_unwritten e, e_unwritten := 0\<rparr>"
  have "entry_ok (?f e)"
  proof (cases "e_cancelled e")
    case True
    with d(2) assms(3) show ?thesis by (auto simp: entry_ok_def is_complete_def)
  next
    case False
    with d(2) have "unat (e_total e) + unat (e_unwritten e) \<le> unat (e_reserved e)"
      by (auto simp: entry_ok_def)
    then have "unat (e_total e + e_unwritten e) = unat (e_total e) + unat (e_unwritten e)"
      using unat_u64_less [of "e_reserved e"] by (intro unat_add_u64) linarith
    with d(2) assms(3,4) False show ?thesis by (auto simp: entry_ok_def is_complete_def)
  qed
  with d show "quiet d (?f d)" by (intro quiet_entry_ok) simp_all
qed

text \<open>The two ways to charge a live entry: a recorded chunk and a layout write.\<close>

lemma store_inv_charge:
  assumes inv: "store_inv L s" and e: "heap s a = Some e" and live: "\<not> e_cancelled e"
    and n: "reserve (used s) count (e_limit e) = Some next'"
    and e': "e_limit e' = e_limit e" "e_cancelled e' = e_cancelled e" "busy e' = busy e"
      "e_reserved e' = e_reserved e + count"
    and ok: "unat (e_reserved e + count) = unat (e_reserved e) + unat count \<Longrightarrow> entry_ok e'"
  shows "store_inv L (s\<lparr>used := next', heap := (heap s)(a \<mapsto> e')\<rparr>)"
proof -
  let ?s = "s\<lparr>used := next', heap := (heap s)(a \<mapsto> e')\<rparr>"
  note sum = reserve_Some(1) [OF n]
  have le: "unat (e_reserved e) \<le> unat (used s)"
    using inv e by (auto simp: store_inv_def intro: owned_le_used)
  have add: "unat (e_reserved e + count) = unat (e_reserved e) + unat count"
    using le sum unat_u64_less [of next'] by (intro unat_add_u64) linarith
  have "budget_ok ?s"
    using inv e e' ok [OF add] add sum
    by (intro budget_ok_update [of s a e ?s e']) (auto simp: store_inv_def)
  moreover have "maps_ok ?s"
    using inv e e' by (intro maps_ok_update [of s a e ?s e']) (auto simp: store_inv_def)
  moreover have "used ?s \<le> L"
    using reserve_Some(3) [OF n] inv e by (auto simp: store_inv_def within_def intro: order_trans)
  then have "within L ?s"
    using inv e e' by (intro within_update [of L s a e ?s e']) (auto simp: store_inv_def)
  ultimately show ?thesis by (simp add: store_inv_def)
qed

lemma store_inv_chunk [invar_intros]:
  assumes inv: "store_inv L s" and e: "heap s a = Some e" and "e_recorder e"
    and "e_unwritten e = 0"
  shows "store_inv L (recorder_reserve a count s)"
proof -
  have ok: "entry_ok e" using inv e by (auto simp: store_inv_def budget_ok_def)
  consider (cancelled) "e_cancelled e" | (full) "\<not> e_cancelled e" "reserve (used s) count (e_limit e) = None"
    | (room) next' where "\<not> e_cancelled e" "reserve (used s) count (e_limit e) = Some next'"
    by fastforce
  then show ?thesis
  proof cases
    case cancelled
    then have "recorder_reserve a count s = recorder_check a s"
      using e by (simp add: recorder_reserve_def recorder_check_def upd_entry_def)
    with store_inv_check [OF inv] show ?thesis by simp
  next
    case full
    let ?f = "\<lambda>e. stopped (e\<lparr>e_result := (''partial'', Some ''Session disk budget reached. Increase the budget before retrying; forwarding continues.'')\<rparr>)"
    have "store_inv L (upd_entry a ?f s)"
      using e ok by (intro store_inv_quiet [OF inv] quiet_entry_ok) (auto simp: entry_ok_def is_complete_def)
    with full e show ?thesis by (simp add: recorder_reserve_def)
  next
    case room
    let ?e = "e\<lparr>e_reserved := e_reserved e + count, e_unwritten := count\<rparr>"
    have "store_inv L (s\<lparr>used := next', heap := (heap s)(a \<mapsto> ?e)\<rparr>)"
      using room ok assms(3,4)
      by (intro store_inv_charge [OF inv e room]) (auto simp: entry_ok_def is_complete_def busy_def)
    with room e show ?thesis by (simp add: recorder_reserve_def)
  qed
qed

section \<open>JSON layout\<close>

lemma entry_ok_layout_idle:
  "entry_ok e \<Longrightarrow> fst (j_status (e_json e)) \<notin> {''building'', ''ready''}
     \<Longrightarrow> j_writer (e_json e) = None \<and> j_file (e_json e) = None"
  by (auto simp: entry_ok_def)

lemma store_inv_json_view [invar_intros]:
  assumes inv: "store_inv L s"
  shows "store_inv L (snd (open_json_view side i start cancel s))"
proof (cases "addr side i s")
  case None
  with inv show ?thesis by (simp add: open_json_view_def)
next
  case (Some a)
  then obtain e where e: "heap s a = Some e" using addr_live inv by (fastforce simp: store_inv_def)
  have ok: "entry_ok e" using inv e by (auto simp: store_inv_def budget_ok_def)
  let ?c = "\<lambda>e. e\<lparr>e_json := (e_json e)\<lparr>j_cancel := True\<rparr>\<rparr>"
  have "entry_ok (?c e)" using ok by (auto simp: entry_ok_def)
  then have cancelled: "store_inv L (upd_entry a ?c s)"
    using e by (intro store_inv_quiet [OF inv]) (simp add: quiet_def busy_def)
  show ?thesis
  proof (cases "fst (e_result e) = ''complete'' \<and> \<not> cancel \<and> start
      \<and> fst (j_status (e_json e)) \<notin> {''building'', ''ready''} \<and> permits s \<noteq> 0")
    case False
    with inv cancelled Some e show ?thesis by (auto simp: open_json_view_def)
  next
    case True
    let ?s = "s\<lparr>permits := permits s - 1, heap := (heap s)(a \<mapsto> start_layout e)\<rparr>"
    from ok True have idle: "j_writer (e_json e) = None" "j_file (e_json e) = None"
      using entry_ok_layout_idle by auto
    then have ok': "entry_ok (start_layout e)"
      using ok by (auto simp: entry_ok_def start_layout_def held_def is_complete_def)
    have "budget_ok ?s"
      using inv e ok' idle True
      by (intro budget_ok_update [of s a e ?s "start_layout e"])
        (auto simp: store_inv_def start_layout_def busy_def)
    moreover have "maps_ok ?s"
      using inv e by (intro maps_ok_update [of s a e ?s "start_layout e"])
        (auto simp: store_inv_def start_layout_def)
    moreover have "within L ?s"
      using inv e by (intro within_update [of L s a e ?s "start_layout e"])
        (auto simp: store_inv_def start_layout_def within_def)
    ultimately have "store_inv L ?s" by (simp add: store_inv_def)
    with True Some e show ?thesis by (simp add: open_json_view_def upd_entry_def)
  qed
qed

lemma store_inv_layout_write [invar_intros]:
  assumes inv: "store_inv L s" and w: "layout_write a count s = Inr s'"
  shows "store_inv L s'"
proof -
  from w obtain e own next' where e: "heap s a = Some e" "\<not> e_cancelled e"
    and own: "j_writer (e_json e) = Some own"
    and n: "reserve (used s) count (e_limit e) = Some next'"
    and s': "s' = s\<lparr>used := next', heap := (heap s)(a \<mapsto> e\<lparr>e_reserved := e_reserved e + count,
                e_json := (e_json e)\<lparr>j_writer := Some (own + count)\<rparr>\<rparr>)\<rparr>"
    by (auto simp: layout_write_def split: option.splits if_splits)
  let ?e = "e\<lparr>e_reserved := e_reserved e + count,
                e_json := (e_json e)\<lparr>j_writer := Some (own + count)\<rparr>\<rparr>"
  have ok: "entry_ok e" using inv e by (auto simp: store_inv_def budget_ok_def)
  have idle: "j_file (e_json e) = None" using ok own by (auto simp: entry_ok_def)
  have "entry_ok ?e" if add: "unat (e_reserved e + count) = unat (e_reserved e) + unat count"
  proof -
    have res: "unat (e_reserved e) = unat (e_total e) + unat (e_unwritten e) + unat own"
      using ok e own idle by (simp add: entry_ok_def held_def)
    then have "unat (own + count) = unat own + unat count"
      using add unat_u64_less [of "e_reserved e + count"] by (intro unat_add_u64) linarith
    with ok e own idle add res show ?thesis
      by (simp add: entry_ok_def held_def is_complete_def)
  qed
  then show ?thesis unfolding s'
    using own by (intro store_inv_charge [OF inv e n]) (auto simp: busy_def)
qed

lemma store_inv_layout_release [invar_intros]:
  assumes inv: "store_inv L s"
  shows "store_inv L (layout_release a s)"
proof (cases "\<exists>e own. heap s a = Some e \<and> j_writer (e_json e) = Some own")
  case False
  with inv show ?thesis by (auto simp: layout_release_def split: option.splits)
next
  case True
  then obtain e own where e: "heap s a = Some e" and own: "j_writer (e_json e) = Some own" by blast
  have ok: "entry_ok e" using inv e by (auto simp: store_inv_def budget_ok_def)
  have idle: "j_file (e_json e) = None" using ok own by (auto simp: entry_ok_def)
  let ?f = "\<lambda>e. e\<lparr>e_json := (e_json e)\<lparr>j_writer := Some 0\<rparr>\<rparr>"
  show ?thesis
  proof (cases "e_cancelled e")
    case True
    have "store_inv L (upd_entry a ?f s)"
      using e ok own True
      by (intro store_inv_quiet [OF inv]) (auto simp: quiet_def busy_def entry_ok_def)
    with True e own show ?thesis by (simp add: layout_release_def Let_def upd_entry_def)
  next
    case False
    let ?e = "(?f e)\<lparr>e_reserved := e_reserved e - own\<rparr>"
    let ?s = "s\<lparr>used := used s - own, heap := (heap s)(a \<mapsto> ?e)\<rparr>"
    have res: "unat (e_reserved e) = unat (e_total e) + unat (e_unwritten e) + unat own"
      using ok False own idle by (simp add: entry_ok_def held_def)
    then have r: "unat (e_reserved e - own) = unat (e_reserved e) - unat own"
      by (intro unat_sub_u64) simp
    have le: "unat (e_reserved e) \<le> unat (used s)"
      using inv e by (auto simp: store_inv_def intro: owned_le_used)
    then have u: "unat (used s - own) = unat (used s) - unat own"
      using res by (intro unat_sub_u64) simp
    have ok': "entry_ok ?e"
      using ok False own idle res r by (auto simp: entry_ok_def held_def is_complete_def)
    have "budget_ok ?s"
      using inv e own ok' res r u le
      by (intro budget_ok_update [of s a e ?s ?e]) (auto simp: store_inv_def busy_def)
    moreover have "maps_ok ?s"
      using inv e by (intro maps_ok_update [of s a e ?s ?e]) (auto simp: store_inv_def)
    moreover have "used ?s \<le> used s" using u by (simp add: word_le_nat_alt)
    then have "within L ?s"
      using inv e by (intro within_update [of L s a e ?s ?e])
        (auto simp: store_inv_def within_def intro: order_trans)
    ultimately have "store_inv L ?s" by (simp add: store_inv_def)
    with False e own show ?thesis by (simp add: layout_release_def Let_def)
  qed
qed

lemma store_inv_layout_end:
  assumes inv: "store_inv L s" and e: "heap s a = Some e" and own: "j_writer (e_json e) = Some own"
    and view: "j_writer view = None" "fst (j_status view) \<noteq> ''building''"
      "j_file view \<noteq> None \<longrightarrow> fst (j_status view) = ''ready''"
      "e_cancelled e \<or> held view = held (e_json e)"
  shows "store_inv L (s\<lparr>permits := Suc (permits s), heap := (heap s)(a \<mapsto> e\<lparr>e_json := view\<rparr>)\<rparr>)"
proof -
  let ?e = "e\<lparr>e_json := view\<rparr>"
  let ?s = "s\<lparr>permits := Suc (permits s), heap := (heap s)(a \<mapsto> ?e)\<rparr>"
  have "entry_ok e" using inv e budget_ok_entry by (auto simp: store_inv_def)
  with view have ok: "entry_ok ?e" by (auto simp: entry_ok_def)
  have "budget_ok ?s"
    using inv e ok own view by (intro budget_ok_update [of s a e ?s ?e]) (auto simp: store_inv_def busy_def)
  moreover have "maps_ok ?s"
    using inv e by (intro maps_ok_update [of s a e ?s ?e]) (auto simp: store_inv_def)
  moreover have "within L ?s"
    using inv e by (intro within_update [of L s a e ?s ?e]) (auto simp: store_inv_def within_def)
  ultimately show ?thesis by (simp add: store_inv_def)
qed

lemma layout_writer_file:
  "store_inv L s \<Longrightarrow> heap s a = Some e \<Longrightarrow> j_writer (e_json e) = Some own \<Longrightarrow> j_file (e_json e) = None"
  using budget_ok_entry [of s a e] by (auto simp: store_inv_def entry_ok_def)

lemma store_inv_layout_ready [invar_intros]:
  assumes inv: "store_inv L s"
  shows "store_inv L (layout_ready a out s)"
  using inv layout_writer_file [OF inv]
  by (auto simp: layout_ready_def held_def intro!: store_inv_layout_end split: option.splits)

lemma store_inv_layout_error [invar_intros]:
  assumes inv: "store_inv L s" and "heap s a = Some e"
    and "j_writer (e_json e) = Some 0 \<or> e_cancelled e"
  shows "store_inv L (layout_failed a message s)"
  using assms layout_writer_file [OF inv]
  by (auto simp: layout_failed_def held_def intro!: store_inv_layout_end split: option.splits)

section \<open>Every interleaving\<close>

inductive store_step :: "u64 \<Rightarrow> session \<Rightarrow> session \<Rightarrow> bool" for L :: u64 where
  step_reserve: "tickets s t = None \<Longrightarrow> limit \<le> L \<Longrightarrow> store_reserve t n limit s = Inr s'
    \<Longrightarrow> store_step L s s'"
| step_failed: "store_step L s (store_failed t s)"
| step_dropped: "store_step L s (store_dropped t s)"
| step_commit: "tickets s t = Some n \<Longrightarrow> unat n = length bytes \<Longrightarrow> heap s a = None \<Longrightarrow> limit \<le> L
    \<Longrightarrow> store_step L s (store_commit side i t a bytes limit encoding s)"
| step_record: "heap s a = None \<Longrightarrow> limit \<le> L
    \<Longrightarrow> store_step L s (record_body side i a encoding limit s)"
| step_open: "store_step L s (recorder_open a s)"
| step_check: "store_step L s (recorder_check a s)"
| step_chunk: "heap s a = Some e \<Longrightarrow> e_recorder e \<Longrightarrow> e_unwritten e = 0
    \<Longrightarrow> store_step L s (recorder_reserve a count s)"
| step_write: "heap s a = Some e \<Longrightarrow> e_recorder e \<Longrightarrow> length chunk = unat (e_unwritten e)
    \<Longrightarrow> store_step L s (recorder_write a chunk s)"
| step_write_failed: "heap s a = Some e \<Longrightarrow> e_recorder e
    \<Longrightarrow> store_step L s (recorder_write_failed a written s)"
| step_source_failed: "store_step L s (recorder_source_failed a s)"
| step_end: "heap s a = Some e \<Longrightarrow> e_recorder e \<Longrightarrow> e_unwritten e = 0
    \<Longrightarrow> store_step L s (recorder_end a s)"
| step_tap_drop: "store_step L s (tap_drop a s)"
| step_remove: "store_step L s (remove_body side i s)"
| step_clear: "store_step L s (clear_bodies side s)"
| step_entry_drop: "heap s a = Some e \<Longrightarrow> j_writer (e_json e) = None
    \<Longrightarrow> (\<And>side i. addr side i s \<noteq> Some a) \<Longrightarrow> store_step L s (entry_drop a s)"
| step_json_view: "store_step L s (snd (open_json_view side i start cancel s))"
| step_layout_write: "layout_write a n s = Inr s' \<Longrightarrow> store_step L s s'"
| step_layout_release: "store_step L s (layout_release a s)"
| step_layout_ready: "store_step L s (layout_ready a out s)"
| step_layout_error: "heap s a = Some e \<Longrightarrow> j_writer (e_json e) = Some 0 \<or> e_cancelled e
    \<Longrightarrow> store_step L s (layout_failed a message s)"
| step_search_begin: "permits s = Suc p
    \<Longrightarrow> store_step L s (s\<lparr>permits := p, searches := Suc (searches s)\<rparr>)"
| step_search_end: "searches s = Suc n
    \<Longrightarrow> store_step L s (s\<lparr>permits := Suc (permits s), searches := n\<rparr>)"

definition reachable :: "u64 \<Rightarrow> session \<Rightarrow> bool" where
  "reachable L s \<longleftrightarrow> (store_step L)\<^sup>*\<^sup>* shared_pair s"

lemma store_inv_entry_drop:
  assumes inv: "store_inv L s" and e: "heap s a = Some e" and idle: "j_writer (e_json e) = None"
    and un: "\<And>side i. addr side i s \<noteq> Some a"
  shows "store_inv L (entry_drop a s)"
proof -
  let ?s = "s\<lparr>heap := (heap s)(a := None), used := used s - e_reserved e\<rparr>"
  have fin: "finite (dom (heap s))" using inv by (simp add: store_inv_def budget_ok_def)
  have le: "unat (e_reserved e) \<le> unat (used s)"
    using inv e by (auto simp: store_inv_def intro: owned_le_used)
  then have u: "unat (used s - e_reserved e) = unat (used s) - unat (e_reserved e)"
    by (rule unat_sub_u64)
  have "budget_ok ?s"
    using inv u le map_sum_remove [OF fin e, of owned] map_sum_remove [OF fin e, of busy] idle fin
    by (auto simp: store_inv_def budget_ok_def owned_def busy_def)
  moreover have "heap ?s b = heap s b" if "addr side i s = Some b" for b side i
    using that un [of side i] by auto
  then have "maps_ok ?s" using inv unfolding store_inv_def maps_ok_def by (simp add: addr_def)
  moreover have "used ?s \<le> used s" using u by (simp add: word_le_nat_alt)
  then have "within L ?s" using inv by (auto simp: store_inv_def within_def intro: order_trans)
  ultimately show ?thesis using e by (simp add: entry_drop_def store_inv_def)
qed

lemma store_inv_search:
  assumes "store_inv L s" and "p + n = permits s + searches s"
  shows "store_inv L (s\<lparr>permits := p, searches := n\<rparr>)"
  using assms by (auto simp: store_inv_def budget_ok_def within_def maps_ok_def addr_def)

lemma store_step_inv:
  assumes "store_step L s s'" and "store_inv L s"
  shows "store_inv L s'"
  using assms
  by (cases rule: store_step.cases)
    (auto intro: invar_intros store_inv_entry_drop store_inv_search)

interpretation stores: machine "store_step L" "\<lambda>s. s = shared_pair" "store_inv L" for L
  by unfold_locales (auto intro: shared_pair_inv store_step_inv)

lemma reachable_inv: "reachable L s \<Longrightarrow> store_inv L s"
  unfolding reachable_def by (rule stores.reached_inv [OF refl])

lemma reachable_step: "reachable L s \<Longrightarrow> store_step L s s' \<Longrightarrow> reachable L s'"
  unfolding reachable_def by (rule rtranclp.rtrancl_into_rtrancl)

lemma reachable_parts:
  assumes "reachable L s"
  shows "budget_ok s" and "maps_ok s" and "within L s"
  using reachable_inv [OF assms] by (simp_all add: store_inv_def)

text \<open>A session with one stored body, for the witnesses.\<close>

definition demo :: session where
  "demo = snd (store_complete 7 0 0 ''body'' 100 Written shared_pair)"

lemma demo_reachable: "reachable 100 demo"
proof -
  let ?r = "\<lparr>used = 4, permits = 2, heap = Map.empty, entries = (\<lambda>_. []), tickets = [0 \<mapsto> 4],
      lost = 0, searches = 0\<rparr>"
  have r: "store_reserve 0 4 100 shared_pair = Inr ?r"
    by (simp add: store_reserve_def reserve_def checked_add_def shared_pair_def)
  then have "store_step 100 shared_pair ?r" by (intro step_reserve [of _ 0 100]) (simp_all add: shared_pair_def)
  moreover have "store_step 100 ?r (store_commit Response_Side 7 0 0 ''body'' 100 ''identity'' ?r)"
    by (intro step_commit [of _ 0 4]) simp_all
  moreover have "demo = store_commit Response_Side 7 0 0 ''body'' 100 ''identity'' ?r"
    using r by (simp add: demo_def store_complete_def store_bytes_def)
  ultimately show ?thesis
    unfolding reachable_def by (metis r_into_rtranclp rtranclp.rtrancl_into_rtrancl)
qed

lemma demo_heap: "heap demo 0 = Some (complete_entry ''body'' 100 ''identity'' 4)"
  by (simp add: demo_def store_complete_def store_bytes_def store_reserve_def reserve_def
      checked_add_def shared_pair_def store_commit_def addr_def)

text \<open>
  C4: after any interleaving of the store's operations the budget counter is exactly the bytes
  owned by live entries, by storing tasks and by dropped storing tasks, and within the largest
  configured budget; so no \<open>fetch_sub\<close> of an entry or a task underflows. At most two analysis
  tasks run.
\<close>

theorem budget_accounting:
  assumes "reachable L s"
  shows "unat (used s) = map_sum owned (heap s) + map_sum unat (tickets s) + lost s
    \<and> used s \<le> L
    \<and> (\<forall>a e. heap s a = Some e \<longrightarrow> e_reserved e \<le> used s)
    \<and> (\<forall>t n. tickets s t = Some n \<longrightarrow> n \<le> used s)
    \<and> map_sum busy (heap s) + searches s \<le> 2"
proof -
  note ok = reachable_parts [OF assms]
  have "e_reserved e \<le> used s" if "heap s a = Some e" for a e
    using owned_le_used [OF ok(1) that] by (simp add: word_le_nat_alt)
  moreover have "n \<le> used s" if "tickets s t = Some n" for t n
    using ticket_le_used [OF ok(1) that] by (simp add: word_le_nat_alt)
  moreover have "permits s + map_sum busy (heap s) + searches s = 2"
    using ok(1) by (simp add: budget_ok_def)
  ultimately show ?thesis using ok by (auto simp: budget_ok_def within_def)
qed

theorem budget_accounting_witness:
  "unat (used demo) = map_sum owned (heap demo) + map_sum unat (tickets demo) + lost demo
   \<and> used demo \<le> 100"
  using budget_accounting [OF demo_reachable] by simp

end
