(* ===== verification/Registry.thy ===== *)
theory Registry
  imports Prelude "HOL-Library.AList"
begin

text \<open>
  The interface of everything the engine keeps per capture: the two body stores, the waiting
  breakpoints and the replay templates. A registry knows a set of capture ids; the engine drops
  one id when a capture is evicted and all of them on Clear. \<open>growing_registry\<close> adds insertion.
  The instance for hash maps, association lists with distinct keys, is here; the body stores
  provide theirs.
\<close>

locale registry =
  fixes ids :: "'s \<Rightarrow> nat set"
    and drop_id :: "nat \<Rightarrow> 's \<Rightarrow> 's"
    and drop_all :: "'s \<Rightarrow> 's"
  assumes ids_drop: "ids (drop_id i s) = ids s - {i}"
    and ids_drop_all: "ids (drop_all s) = {}"
begin

text \<open>Dropping the evicted id keeps a registry inside the ids that remain.\<close>

lemma within_drop: "ids s \<subseteq> insert i T \<Longrightarrow> ids (drop_id i s) \<subseteq> T"
  by (auto simp: ids_drop)

lemma within_mono: "ids s \<subseteq> T \<Longrightarrow> ids (drop_id i s) \<subseteq> T"
  by (auto simp: ids_drop)

lemma gone: "i \<notin> ids (drop_id i s)"
  by (simp add: ids_drop)

lemma ids_drop_list: "ids (fold drop_id is s) = ids s - set is"
  by (induction "is" arbitrary: s) (auto simp: ids_drop)

end

locale growing_registry = registry ids drop_id drop_all
  for ids :: "'s \<Rightarrow> nat set" and drop_id :: "nat \<Rightarrow> 's \<Rightarrow> 's" and drop_all :: "'s \<Rightarrow> 's" +
  fixes put :: "nat \<Rightarrow> 'v \<Rightarrow> 's \<Rightarrow> 's"
  assumes ids_put: "ids (put i v s) = insert i (ids s)"
begin

lemma within_put: "ids s \<subseteq> T \<Longrightarrow> i \<in> T \<Longrightarrow> ids (put i v s) \<subseteq> T"
  by (simp add: ids_put)

end

definition keys :: "(nat \<times> 'v) list \<Rightarrow> nat set" where
  "keys m = fst ` set m"

definition no_entries :: "(nat \<times> 'v) list \<Rightarrow> (nat \<times> 'v) list" where
  "no_entries m = []"

interpretation keyed: growing_registry keys AList.delete no_entries AList.update
proof unfold_locales
  show "keys (AList.delete i s) = keys s - {i}" for i and s :: "(nat \<times> 'v) list"
    by (auto simp: keys_def AList.delete_eq)
  show "keys (no_entries s) = {}" for s :: "(nat \<times> 'v) list"
    by (simp add: keys_def no_entries_def)
  show "keys (AList.update i v s) = insert i (keys s)" for i and v :: 'v and s
    by (simp add: keys_def AList.dom_update)
qed

end
