(* ===== verification/Body_Contract.thy ===== *)
theory Body_Contract
  imports Body_Budget Registry
begin

text \<open>
  What clients of the body store rely on: the outcome of storing a body on every branch, pages
  against the exported file, bodies that never change once complete, what clearing gives back,
  the store as a registry of capture ids, and the reservation that an abandoned storing task leaves behind.
\<close>

section \<open>The steps of one storing call\<close>

lemma store_bytes_cases:
  assumes "store_bytes side i t a bytes limit encoding storage s = (r, s')"
  obtains (full) "reserve (used s) (of_nat (length bytes)) limit = None"
      "r = Some (Inl BudgetReached)" "s' = s"
  | (room) s1 where "store_reserve t (of_nat (length bytes)) limit s = Inr s1"
      "tickets s1 t = Some (of_nat (length bytes))" "heap s1 = heap s" "entries s1 = entries s"
      "used s1 = used s + of_nat (length bytes)" "tickets s1 = (tickets s)(t \<mapsto> of_nat (length bytes))"
      "lost s1 = lost s"
      "(case storage of
          Written \<Rightarrow> r = Some (Inr ()) \<and> s' = store_commit side i t a bytes limit encoding s1
        | Write_Error m \<Rightarrow> r = Some (Inl (StorageFailed m)) \<and> s' = store_failed t s1
        | Task_Dropped \<Rightarrow> r = None \<and> s' = store_dropped t s1)"
proof (cases "reserve (used s) (of_nat (length bytes)) limit")
  case None
  then have "store_bytes side i t a bytes limit encoding storage s = (Some (Inl BudgetReached), s)"
    by (simp add: store_bytes_def store_reserve_def)
  with assms None show ?thesis by (intro full) simp_all
next
  case (Some next')
  let ?s = "s\<lparr>used := next', tickets := (tickets s)(t \<mapsto> of_nat (length bytes))\<rparr>"
  from Some have r: "store_reserve t (of_nat (length bytes)) limit s = Inr ?s"
    by (simp add: store_reserve_def)
  have n: "next' = used s + of_nat (length bytes)" using Some by (rule reserve_Some)
  have "case storage of
          Written \<Rightarrow> r = Some (Inr ()) \<and> s' = store_commit side i t a bytes limit encoding ?s
        | Write_Error m \<Rightarrow> r = Some (Inl (StorageFailed m)) \<and> s' = store_failed t ?s
        | Task_Dropped \<Rightarrow> r = None \<and> s' = store_dropped t ?s"
    using assms r by (cases storage) (simp_all add: store_bytes_def)
  with r n show ?thesis by (intro room [of ?s]) simp_all
qed

lemma session_eqI:
  "used s = used s' \<Longrightarrow> permits s = permits s' \<Longrightarrow> heap s = heap s' \<Longrightarrow> entries s = entries s'
   \<Longrightarrow> tickets s = tickets s' \<Longrightarrow> lost s = lost s' \<Longrightarrow> searches s = searches s' \<Longrightarrow> s = (s' :: session)"
  by simp

lemma lookup_addr: "lookup side i s = Option.bind (addr side i s) (heap s)"
  by (simp add: lookup_def)

lemma lookup_commit:
  assumes "maps_ok s" and "tickets s t = Some n" and "heap s a = None"
  shows "lookup side i (store_commit side i t a bytes limit encoding s)
    = Some (complete_entry bytes limit encoding n)"
proof -
  have "b \<noteq> a" if "addr side i s = Some b" for b
    using addr_live [OF assms(1) that] assms(3) by auto
  with assms(2) show ?thesis
    by (auto simp: store_commit_def Let_def lookup_addr addr_def insert_entry_def heap_cancel
        AList.update_conv split: option.splits)
qed

definition stored :: "side \<Rightarrow> nat \<Rightarrow> bytes \<Rightarrow> string \<Rightarrow> session \<Rightarrow> bool" where
  "stored side i bytes encoding s \<longleftrightarrow>
     (\<exists>e. lookup side i s = Some e \<and> e_file e = Some bytes \<and> unat (e_total e) = length bytes
        \<and> is_complete e \<and> e_encoding e = encoding \<and> \<not> e_cancelled e)
     \<and> export_file side i True s = Inr bytes"

lemma stored_commit:
  assumes "maps_ok s" and "tickets s t = Some n" and "heap s a = None" and "unat n = length bytes"
  shows "stored side i bytes encoding (store_commit side i t a bytes limit encoding s)"
  using lookup_commit [OF assms(1-3), of side i bytes limit encoding] assms(4)
  by (auto simp: stored_def export_file_def complete_entry_def is_complete_def)

lemma store_reserve_fits:
  assumes "store_reserve t n limit s = Inr s1"
  shows "unat (used s) + unat n \<le> unat limit"
proof -
  from assms obtain next' where "reserve (used s) n limit = Some next'"
    by (auto simp: store_reserve_def split: option.splits)
  from reserve_Some [OF this] show ?thesis by (simp add: word_le_nat_alt)
qed

lemma failed_reserve:
  assumes "tickets s t = None" and "store_reserve t n limit s = Inr s1"
  shows "store_failed t s1 = s"
  using assms by (intro session_eqI) (auto simp: store_reserve_def store_failed_def
      dest: reserve_Some(2) split: option.splits)



text \<open>
  C29: what the request store keeps is redacted. When storing a request body succeeds, the file
  on disk is a serialization of a document in which every sensitive key and every value selected
  by a configured path has been replaced; a body that does not parse is not stored at all.
\<close>

theorem request_body_redacted:
  assumes "reachable L s" and "tickets s t = None" and "heap s a = None"
    and "\<forall>v out. pretty v = Some out \<longrightarrow> length out < 2 ^ 64"
    and "store_redacted_json parse pretty lower i t a bytes ct limit paths storage s = (Some r, s')"
  shows "case r of
      Inr _ \<Rightarrow> \<exists>v out. parse bytes = Some v \<and> pretty (redact_document lower paths v) = Some out
        \<and> stored Request_Side i out (''redacted '' @ ct) s'
        \<and> clean lower (redact_document lower paths v)
    | Inl _ \<Rightarrow> s' = s"
proof (cases "Option.bind (parse bytes) (\<lambda>v. pretty (redact_document lower paths v))")
  case None
  with assms(5) show ?thesis
    by (auto simp: store_redacted_json_def bind_eq_None_conv split: option.splits)
next
  case (Some out)
  then obtain v where v: "parse bytes = Some v" and out: "pretty (redact_document lower paths v) = Some out"
    by (auto simp: bind_eq_Some_conv)
  have "store_bytes Request_Side i t a out limit (''redacted '' @ ct) storage s = (Some r, s')"
    using assms(5) v out by (simp add: store_redacted_json_def)
  then show ?thesis
  proof (cases rule: store_bytes_cases)
    case full
    then show ?thesis by simp
  next
    case (room s1)
    note maps = reachable_parts(2) [OF assms(1)]
    have n: "unat (of_nat (length out) :: u64) = length out"
      using assms(4) out by (simp add: unsigned_of_nat take_bit_eq_mod)
    have maps1: "maps_ok s1"
      using maps room by (simp add: maps_ok_def addr_def)
    show ?thesis
    proof (cases storage)
      case Written
      with room(8) have r: "r = Inr ()"
        and s': "s' = store_commit Request_Side i t a out limit (''redacted '' @ ct) s1" by simp_all
      have "stored Request_Side i out (''redacted '' @ ct) s'"
        unfolding s' using room(3) assms(3) by (intro stored_commit [OF maps1 room(2)] n) simp
      moreover have "clean lower (redact_document lower paths v)"
        unfolding redact_document_def by (rule fold_redact_path_clean [OF clean_redact_json])
      ultimately show ?thesis using r v out by auto
    next
      case (Write_Error m)
      with room(8) failed_reserve [OF assms(2) room(1)] show ?thesis by simp
    next
      case Task_Dropped
      with room(8) show ?thesis by simp
    qed
  qed
qed

text \<open>A toy serializer: one document, written as one digit.\<close>

definition toy_parse :: "bytes \<Rightarrow> json option" where
  "toy_parse b = (if b = ''x'' then Some (JObject [(''password'', JString ''p'')]) else None)"

definition toy_pretty :: "json \<Rightarrow> bytes option" where
  "toy_pretty v = (if v = JObject [(''password'', redacted)] then Some ''1'' else None)"

theorem request_body_redacted_witness:
  "\<exists>s'. store_redacted_json toy_parse toy_pretty id 7 0 0 ''x'' ''json'' 100 [] Written shared_pair
       = (Some (Inr ()), s')
     \<and> stored Request_Side 7 ''1'' ''redacted json'' s'"
proof -
  let ?r = "store_redacted_json toy_parse toy_pretty id 7 0 0 ''x'' ''json'' 100 [] Written shared_pair"
  have r: "fst ?r = Some (Inr ())" by code_simp
  then have eq: "?r = (Some (Inr ()), snd ?r)" by (metis prod.collapse)
  have small: "\<forall>v out. toy_pretty v = Some out \<longrightarrow> length out < 2 ^ 64"
    by (auto simp: toy_pretty_def split: if_splits)
  have "reachable 100 shared_pair" "tickets shared_pair 0 = None" "heap shared_pair 0 = None"
    by (simp_all add: reachable_def shared_pair_def)
  from request_body_redacted [OF this small eq]
  obtain v out where "toy_pretty (redact_document id [] v) = Some out"
    and "stored Request_Side 7 out (''redacted '' @ ''json'') (snd ?r)"
    unfolding sum.case by blast
  moreover from this have "out = ''1''" by (auto simp: toy_pretty_def split: if_splits)
  ultimately have "stored Request_Side 7 ''1'' ''redacted json'' (snd ?r)" by simp
  with eq show ?thesis by blast
qed

section \<open>Complete bodies do not change\<close>

definition kept :: "nat \<Rightarrow> entry \<Rightarrow> session \<Rightarrow> bool" where
  "kept a e s \<longleftrightarrow>
     (case heap s a of
        None \<Rightarrow> True
      | Some e' \<Rightarrow> e_cancelled e' \<or>
          e_file e' = e_file e \<and> e_total e' = e_total e \<and> e_result e' = e_result e)"

lemma kept_cancel: "kept a e s \<Longrightarrow> kept a e (entry_cancel b s)"
  by (auto simp: kept_def heap_cancel cancel_entry_def split: option.splits)

lemma kept_fold_cancel: "kept a e s \<Longrightarrow> kept a e (fold (\<lambda>(_, b). entry_cancel b) es s)"
  by (induction es arbitrary: s) (auto intro: kept_cancel)

lemma kept_heap: "heap s' a = heap s a \<Longrightarrow> kept a e s \<Longrightarrow> kept a e s'"
  by (simp add: kept_def)

lemma kept_upd_entry:
  assumes "heap s a = Some e"
    and "e_file (f e) = e_file e" "e_total (f e) = e_total e" "e_result (f e) = e_result e"
  shows "kept a e (upd_entry b f s)"
  using assms by (auto simp: kept_def upd_entry_def split: option.splits)

lemma finish_complete [simp]: "is_complete e \<Longrightarrow> finish_entry st err e = e"
  by (auto simp: is_complete_def finish_entry_def)

lemma kept_self: "heap s a = Some e \<Longrightarrow> kept a e s"
  by (simp add: kept_def)

lemma json_view_session:
  assumes "s' = snd (open_json_view side i start cancel s)"
  shows "s' = s \<or> (\<exists>b. s' = upd_entry b (\<lambda>e. e\<lparr>e_json := (e_json e)\<lparr>j_cancel := True\<rparr>\<rparr>) s)
    \<or> (\<exists>b. s' = upd_entry b start_layout (s\<lparr>permits := permits s - 1\<rparr>))"
proof (cases "Option.bind (addr side i s) (heap s)")
  case None
  with assms show ?thesis by (auto simp: open_json_view_def bind_eq_None_conv split: option.splits)
next
  case (Some e)
  then obtain a where "addr side i s = Some a" "heap s a = Some e" by (auto simp: bind_eq_Some_conv)
  with assms show ?thesis
    by (simp add: open_json_view_def del: insert_iff split: if_splits) blast+
qed

text \<open>What each group of operations leaves of a complete body.\<close>

lemma kept_recorder:
  assumes e: "heap s a = Some e" and other: "heap s b = Some d" "e_recorder d" and idle: "\<not> e_recorder e"
  shows "kept a e (recorder_reserve b count s)" and "kept a e (recorder_write b chunk s)"
    and "kept a e (recorder_write_failed b written s)"
proof -
  have "b \<noteq> a" using e other idle by auto
  with kept_self [OF e] show "kept a e (recorder_reserve b count s)" "kept a e (recorder_write b chunk s)"
      "kept a e (recorder_write_failed b written s)"
    by (auto simp: recorder_reserve_def recorder_write_def recorder_write_failed_def upd_entry_def kept_def
        split: option.splits)
qed

lemma kept_storing:
  assumes e: "heap s a = Some e"
  shows "store_reserve t n limit s = Inr s' \<Longrightarrow> kept a e s'"
    and "kept a e (store_failed t s)" and "kept a e (store_dropped t s)"
    and "heap s b = None \<Longrightarrow> kept a e (store_commit side i t b bytes limit encoding s)"
    and "heap s b = None \<Longrightarrow> kept a e (record_body side i b encoding limit s)"
proof -
  note self = kept_self [OF e]
  show "kept a e s'" if "store_reserve t n limit s = Inr s'"
    by (rule kept_heap [OF _ self]) (use that in \<open>auto simp: store_reserve_def split: option.splits\<close>)
  show "kept a e (store_failed t s)" "kept a e (store_dropped t s)"
    by (rule kept_heap [OF _ self], simp add: store_failed_def store_dropped_def split: option.splits)+
  assume "heap s b = None"
  with e have ne: "b \<noteq> a" by auto
  then have "kept a e (insert_entry side i b d (s\<lparr>tickets := T\<rparr>))" for d T
    by (intro kept_heap [OF _ self]) simp
  then show "kept a e (store_commit side i t b bytes limit encoding s)"
    using self by (simp add: store_commit_def Let_def kept_cancel split: option.splits)
  show "kept a e (record_body side i b encoding limit s)"
    using self ne by (simp add: record_body_def insert_entry_def kept_def)
qed

lemma kept_removing:
  assumes e: "heap s a = Some e"
  shows "kept a e (remove_body side i s)" and "kept a e (clear_bodies side s)"
    and "kept a e (entry_drop b s)"
proof -
  have "kept a e (s\<lparr>entries := m\<rparr>)" for m by (intro kept_heap [OF _ kept_self [OF e]]) simp
  then show "kept a e (remove_body side i s)" "kept a e (clear_bodies side s)"
    by (simp_all add: remove_body_def clear_bodies_def Let_def kept_cancel kept_fold_cancel
        split: option.splits)
  show "kept a e (entry_drop b s)" using e by (simp add: entry_drop_def kept_def split: option.split)
qed

lemma kept_layout:
  assumes e: "heap s a = Some e"
  shows "kept a e (snd (open_json_view side i start cancel s))"
    and "layout_write b n s = Inr s' \<Longrightarrow> kept a e s'" and "kept a e (layout_release b s)"
    and "kept a e (layout_ready b out s)" and "kept a e (layout_failed b message s)"
proof -
  note self = kept_self [OF e]
  have "kept a e (upd_entry b start_layout (s\<lparr>permits := p\<rparr>))" for b p
    using e by (intro kept_upd_entry) (simp_all add: start_layout_def)
  then show "kept a e (snd (open_json_view side i start cancel s))"
    using json_view_session [OF refl, of side i start cancel s] self kept_upd_entry [OF e]
    by (elim disjE exE) simp_all
qed (use e in \<open>auto simp: layout_write_def layout_release_def layout_ready_def layout_failed_def kept_def Let_def
    split: option.splits if_splits\<close>)

lemma store_step_kept:
  assumes "store_step L s s'" and e: "heap s a = Some e" and c: "is_complete e" and ok: "entry_ok e"
  shows "kept a e s'"
proof -
  have idle: "\<not> e_recorder e" using c ok by (simp add: entry_ok_def)
  note self = kept_self [OF e] and upd = kept_upd_entry [OF e]
  from assms(1) show ?thesis
    by cases (simp_all add: c self upd kept_heap kept_recorder [OF e _ _ idle] kept_storing [OF e]
        kept_removing [OF e] kept_layout [OF e] recorder_open_def recorder_check_def
        recorder_source_failed_def recorder_end_def tap_drop_def entry_finish_def)
qed

text \<open>
  Once a body is complete, no step of any task changes its file, its length or its state;
  it can only be cancelled (removed, cleared, replaced) or freed. Pages read one after another
  therefore belong to one body.
\<close>

lemma complete_body_immutable:
  assumes "reachable L s" and "store_step L s s'"
    and "heap s a = Some e" and "fst (e_result e) = ''complete''"
  shows "case heap s' a of
      None \<Rightarrow> True
    | Some e' \<Rightarrow> e_cancelled e'
        \<or> e_file e' = e_file e \<and> e_total e' = e_total e \<and> e_result e' = e_result e"
proof -
  have "entry_ok e" using reachable_parts(1) [OF assms(1)] assms(3) by (rule budget_ok_entry)
  with assms have "kept a e s'" by (intro store_step_kept [OF assms(2)]) (simp_all add: is_complete_def)
  then show ?thesis by (simp add: kept_def)
qed

lemma complete_body_immutable_witness:
  "case heap (clear_bodies Request_Side demo) 0 of
      None \<Rightarrow> True
    | Some e' \<Rightarrow> e_cancelled e' \<or> e_file e' = Some ''body'' \<and> e_total e' = 4
        \<and> e_result e' = (''complete'', None)"
  using complete_body_immutable [OF demo_reachable step_clear [of 100 demo Request_Side] demo_heap]
  by (simp add: complete_entry_def split: option.splits)

section \<open>Pages against the exported file\<close>

lemma concat_windows: "concat (map (\<lambda>k. take c (drop (k * c) f)) [0..<n]) = take (n * c) f"
proof (induction n)
  case (Suc n)
  have "take (Suc n * c) f = take (n * c) f @ take c (drop (n * c) f)"
    by (metis add.commute mult_Suc take_add)
  with Suc show ?case by simp
qed simp

lemma collect_results_all:
  "(\<And>x. x \<in> set xs \<Longrightarrow> f x = Inr (g x)) \<Longrightarrow> collect_results f xs = Inr (map g xs)"
  by (induction xs) simp_all

lemma complete_page:
  assumes "reachable L s" and "lookup side i s = Some e" and "is_complete e"
    and "e_file e = Some f" and "0 < c" and "c \<le> page_size" and "k \<le> length f"
  shows "store_page side i (of_nat k) c s
    = Inr \<lparr>p_offset = of_nat k, p_total = e_total e, p_bytes = take c (drop k f),
           p_state = ''complete'', p_error = snd (e_result e), p_encoding = e_encoding e\<rparr>"
proof -
  from assms(2) obtain a where "heap s a = Some e" by (auto simp: lookup_addr bind_eq_Some_conv)
  then have "entry_ok e" using reachable_parts(1) [OF assms(1)] by (auto intro: budget_ok_entry)
  with assms(3,4) have len: "length f = unat (e_total e)" by (auto simp: entry_ok_def split: if_splits)
  then have k: "unat (of_nat k :: u64) = k"
    using assms(7) unat_u64_less [of "e_total e"] by (simp add: unsigned_of_nat take_bit_eq_mod)
  have "unat (e_total e - of_nat k) = length f - k"
    using assms(7) len k by (subst unat_sub_u64) simp_all
  then have "read_window f (of_nat k) (e_total e) c = Some (take c (drop k f))"
    using k assms(7) by (auto simp: read_window_def Let_def min_def)
  moreover have "\<not> of_nat k > e_total e"
    using assms(7) len k by (simp add: word_less_nat_alt)
  ultimately show ?thesis
    using assms by (simp add: store_page_def is_complete_def)
qed

text \<open>
  C30: reading a complete body page by page, with any allowed page size, succeeds on every page
  and yields exactly the file that export would copy, each page with its total length.
\<close>

theorem pages_tile_export:
  assumes "reachable L s" and "export_file side i w s = Inr f"
    and "0 < c" and "c \<le> page_size"
  shows "\<exists>ps. collect_results (\<lambda>k. store_page side i (of_nat (k * c)) c s)
             [0..<(length f + c - 1) div c] = Inr ps
           \<and> concat (map p_bytes ps) = f
           \<and> list_all (\<lambda>p. p_state p = ''complete'' \<and> unat (p_total p) = length f) ps"
proof -
  let ?n = "(length f + c - 1) div c"
  from assms(2) obtain e where e: "lookup side i s = Some e" "is_complete e" "e_file e = Some f"
    by (auto simp: export_file_def is_complete_def split: option.splits if_splits)
  let ?p = "\<lambda>k. \<lparr>p_offset = of_nat (k * c), p_total = e_total e, p_bytes = take c (drop (k * c) f),
      p_state = ''complete'', p_error = snd (e_result e), p_encoding = e_encoding e\<rparr>"
  have bound: "k * c \<le> length f" if "k < ?n" for k
  proof -
    have "Suc k * c \<le> ?n * c" using that by (intro mult_le_mono1) simp
    also have "\<dots> \<le> length f + c - 1" by (rule div_times_less_eq_dividend)
    finally show ?thesis using assms(3) by simp
  qed
  have pages: "collect_results (\<lambda>k. store_page side i (of_nat (k * c)) c s) [0..<?n] = Inr (map ?p [0..<?n])"
    using complete_page [OF assms(1) e assms(3,4) bound] by (intro collect_results_all) simp
  have "length f \<le> ?n * c"
  proof -
    have "length f + c - 1 < Suc ?n * c" using assms(3) by (simp add: dividend_less_div_times)
    then show ?thesis using assms(3) by simp
  qed
  then have bytes: "concat (map p_bytes (map ?p [0..<?n])) = f"
    using concat_windows [of c f ?n] by (simp add: comp_def)
  from e(1) obtain a where a: "heap s a = Some e" by (auto simp: lookup_addr bind_eq_Some_conv)
  then have "entry_ok e" using reachable_parts(1) [OF assms(1)] by (auto intro: budget_ok_entry)
  with e have "length f = unat (e_total e)" by (auto simp: entry_ok_def split: if_splits)
  then have "list_all (\<lambda>p. p_state p = ''complete'' \<and> unat (p_total p) = length f) (map ?p [0..<?n])"
    by (simp add: list_all_iff)
  with pages bytes show ?thesis by blast
qed

theorem pages_tile_export_witness:
  "\<exists>ps. collect_results (\<lambda>k. store_page Response_Side 7 (of_nat (k * 3)) 3 demo) [0..<2] = Inr ps
     \<and> concat (map p_bytes ps) = ''body''"
proof -
  have "export_file Response_Side 7 True demo = Inr ''body''" by code_simp
  from pages_tile_export [OF demo_reachable this, of 3] show ?thesis
    by (simp add: page_size_def) blast
qed

section \<open>What clearing gives back\<close>

lemma cancel_entry_idem [simp]: "cancel_entry (cancel_entry e) = cancel_entry e"
  by (simp add: cancel_entry_def)

lemma heap_fold_cancel:
  "heap (fold (\<lambda>(_, a). entry_cancel a) es s) b
     = (if b \<in> snd ` set es then map_option cancel_entry (heap s b) else heap s b)"
proof (induction es arbitrary: s)
  case (Cons x es)
  then show ?case by (cases x; cases "heap s b") (auto simp: heap_cancel)
qed simp

lemma other_fields_cancel [simp]:
  "tickets (entry_cancel a s) = tickets s" "lost (entry_cancel a s) = lost s"
  by (simp_all add: entry_cancel_def split: option.splits)

lemma fields_fold_cancel [simp]:
  "tickets (fold (\<lambda>(_, a). entry_cancel a) es s) = tickets s"
  "lost (fold (\<lambda>(_, a). entry_cancel a) es s) = lost s"
  "entries (fold (\<lambda>(_, a). entry_cancel a) es s) = entries s"
  by (induction es arbitrary: s) auto

lemma clear_bodies_fields [simp]:
  "tickets (clear_bodies side s) = tickets s" "lost (clear_bodies side s) = lost s"
  "entries (clear_bodies side s) = (entries s)(side := [])"
  by (simp_all add: clear_bodies_def)

lemma heap_clear_bodies:
  "heap (clear_bodies side s) b
     = (if b \<in> snd ` set (entries s side) then map_option cancel_entry (heap s b) else heap s b)"
  by (simp add: clear_bodies_def heap_fold_cancel)

lemma addr_in_entries: "addr side i s = Some a \<Longrightarrow> a \<in> snd ` set (entries s side)"
  unfolding addr_def by (metis image_eqI map_of_SomeD snd_conv)

text \<open>
  C31: Clear gives back every byte it can reach. With every entry that owns bytes in one of the
  two maps, clearing both leaves the counter at what storing tasks still hold, plus what dropped
  storing tasks have lost; nothing is recorded any more.
\<close>

theorem clear_returns_budget:
  assumes "reachable L s"
    and "\<forall>a e. heap s a = Some e \<longrightarrow> e_reserved e \<noteq> 0 \<longrightarrow> (\<exists>side i. addr side i s = Some a)"
    and "s' = clear_bodies Response_Side (clear_bodies Request_Side s)"
  shows "unat (used s') = map_sum unat (tickets s) + lost s \<and> lookup side i s' = None"
proof -
  have "reachable L s'"
    unfolding assms(3) using assms(1) by (intro reachable_step [OF _ step_clear])
  then have ok: "budget_ok s'" by (rule reachable_parts)
  have "owned (the (heap s' a)) = 0" if "a \<in> dom (heap s')" for a
  proof -
    from that obtain e' where e': "heap s' a = Some e'" by blast
    then have a: "heap s a \<noteq> None" by (auto simp: assms(3) heap_clear_bodies split: if_splits)
    then obtain e where e: "heap s a = Some e" by blast
    show ?thesis
    proof (cases "e_reserved e = 0")
      case True
      with e e' show ?thesis
        by (auto simp: assms(3) heap_clear_bodies owned_def split: if_splits)
    next
      case False
      with assms(2) e obtain sd j where "addr sd j s = Some a" by blast
      then have "a \<in> snd ` set (entries s sd)" by (rule addr_in_entries)
      with e e' show ?thesis
        by (cases sd) (auto simp: assms(3) heap_clear_bodies owned_def split: if_splits)
    qed
  qed
  then have "map_sum owned (heap s') = 0" by (simp add: map_sum_def)
  moreover have "lookup side i s' = None"
    by (cases side) (simp_all add: assms(3) lookup_addr addr_def)
  ultimately show ?thesis using ok by (simp add: budget_ok_def assms(3))
qed

theorem clear_returns_budget_witness:
  "unat (used (clear_bodies Response_Side (clear_bodies Request_Side demo))) = 0"
proof -
  have "addr Response_Side 7 demo = Some 0" by code_simp
  then have a: "\<exists>side i. addr side i demo = Some 0" by blast
  have h: "heap demo = [0 \<mapsto> complete_entry ''body'' 100 ''identity'' 4]"
    and fields: "tickets demo = Map.empty" "lost demo = 0"
    by (simp_all add: demo_def store_complete_def store_bytes_def store_reserve_def reserve_def
        checked_add_def shared_pair_def store_commit_def addr_def insert_entry_def)
  have "\<exists>side i. addr side i demo = Some b" if "heap demo b = Some e" for b e
  proof -
    have "b = 0" using that unfolding h by (simp split: if_splits)
    with a show ?thesis by simp
  qed
  then have "\<forall>a e. heap demo a = Some e \<longrightarrow> e_reserved e \<noteq> 0
      \<longrightarrow> (\<exists>side i. addr side i demo = Some a)" by blast
  from clear_returns_budget [OF demo_reachable this refl] fields show ?thesis by simp
qed

section \<open>The reservation of an abandoned storing task\<close>

lemma lost_upd_entry [simp]: "lost (upd_entry a f s) = lost s"
  by (simp add: upd_entry_def split: option.splits)

lemma lost_step:
  assumes "store_step L s s'"
  shows "lost s \<le> lost s'"
  using assms
proof cases
  case (step_json_view side i start cancel)
  from json_view_session [OF this] show ?thesis by (elim disjE exE) simp_all
next
  case (step_commit t n bytes a limit side i encoding)
  then show ?thesis by (auto simp: store_commit_def Let_def insert_entry_def split: option.splits)
next
  case (step_chunk a e count)
  then show ?thesis by (auto simp: recorder_reserve_def split: option.splits)
next
  case (step_layout_write a n)
  then show ?thesis by (auto simp: layout_write_def split: option.splits if_splits)
qed (auto simp: store_reserve_def store_failed_def store_dropped_def record_body_def insert_entry_def
      recorder_open_def recorder_check_def recorder_write_def recorder_write_failed_def
      recorder_source_failed_def recorder_end_def tap_drop_def entry_finish_def entry_drop_def
      layout_release_def layout_ready_def layout_failed_def Let_def remove_body_def
      split: option.splits)

interpretation loss: run_order "store_step L" "\<lambda>s s'. lost s \<le> lost s'" for L
  by unfold_locales (auto intro: lost_step)

text \<open>
  C32: when the task that awaits the storage of a body is dropped between reservation and commit
  (a request deadline, a closed connection, Stop), the reserved bytes stay counted against the
  session budget for ever: no later operation, Clear included, releases them.
\<close>

theorem abandoned_storage_keeps_budget:
  assumes "reachable L s" and "tickets s t = None" and "limit \<le> L" and "length bytes < 2 ^ 64"
    and "store_complete i t a bytes limit Task_Dropped s = (None, s')"
    and "(store_step L)\<^sup>*\<^sup>* s' s''"
  shows "length bytes \<le> unat (used s'')"
  using assms(5) unfolding store_complete_def
proof (cases rule: store_bytes_cases)
  case full
  then show ?thesis by simp
next
  case (room s1)
  have n: "unat (of_nat (length bytes) :: u64) = length bytes"
    using assms(4) by (simp add: unsigned_of_nat take_bit_eq_mod)
  have s': "s' = store_dropped t s1" using room by simp
  have "store_step L s s1" using assms(2,3) room(1) by (rule step_reserve)
  then have "reachable L s'"
    unfolding s' using assms(1) by (blast intro: reachable_step step_dropped)
  with assms(6) have "reachable L s''" unfolding reachable_def by (metis rtranclp_trans)
  then have "lost s'' \<le> unat (used s'')" using reachable_parts(1) by (simp add: budget_ok_def)
  moreover have "lost s' = lost s + length bytes" using room(2,7) n by (simp add: s' store_dropped_def)
  ultimately show ?thesis using loss.run_related [OF assms(6)] by linarith
qed

theorem abandoned_storage_keeps_budget_witness:
  "length ''body'' \<le> unat (used (clear_bodies Response_Side
     (snd (store_complete 7 0 0 ''body'' 100 Task_Dropped shared_pair))))"
proof (rule abandoned_storage_keeps_budget)
  show "reachable 100 shared_pair" by (simp add: reachable_def)
  show "tickets shared_pair 0 = None" "length ''body'' < 2 ^ 64" by (simp_all add: shared_pair_def)
  show "(100 :: u64) \<le> 100" by simp
  show "store_complete 7 0 0 ''body'' 100 Task_Dropped shared_pair
      = (None, snd (store_complete 7 0 0 ''body'' 100 Task_Dropped shared_pair))"
    by (simp add: shared_pair_def store_complete_def store_bytes_def store_reserve_def reserve_def
        checked_add_def)
qed (rule r_into_rtranclp, rule step_clear)

section \<open>The store as a registry\<close>

definition recorded :: "side \<Rightarrow> session \<Rightarrow> nat set" where
  "recorded side s = {i. addr side i s \<noteq> None}"

lemma addr_remove_body:
  "addr side' i' (remove_body side i s)
     = (if side' = side \<and> i' = i then None else addr side' i' s)"
proof -
  have "addr side' i' (entry_cancel a t) = addr side' i' t" for a t by (simp add: addr_def)
  then show ?thesis
    by (auto simp: remove_body_def Let_def addr_delete split: option.splits)
qed

lemma addr_clear_bodies:
  "addr side' i' (clear_bodies side s) = (if side' = side then None else addr side' i' s)"
  by (simp add: addr_def)

interpretation stored_bodies: registry "recorded side" "remove_body side" "clear_bodies side"
  for side
  by unfold_locales (auto simp: recorded_def addr_remove_body addr_clear_bodies)

lemma recorded_other_side:
  "side' \<noteq> side \<Longrightarrow> recorded side' (remove_body side i s) = recorded side' s"
  by (simp add: recorded_def addr_remove_body)

section \<open>A storing call as steps\<close>

lemma store_inv_store_bytes:
  assumes "store_inv L s" and "tickets s t = None" and "heap s a = None" and "limit \<le> L"
    and "length bytes < 2 ^ 64"
    and "store_bytes side i t a bytes limit encoding storage s = (r, s')"
  shows "store_inv L s'"
  using assms(6)
proof (cases rule: store_bytes_cases)
  case full
  with assms(1) show ?thesis by simp
next
  case (room s1)
  have n: "unat (of_nat (length bytes) :: u64) = length bytes"
    using assms(5) by (simp add: unsigned_of_nat take_bit_eq_mod)
  have inv: "store_inv L s1" using assms(1,2,4) room(1) by (rule store_inv_reserve)
  then show ?thesis
    using room assms(3,4) n
    by (cases storage) (auto intro: store_inv_commit store_inv_failed store_inv_dropped)
qed

end
