(* ===== verification/Engine_Invariant.thy ===== *)
theory Engine_Invariant
  imports Forward Body_Contract
begin

text \<open>
  The invariant of the engine's shared state and its preservation by every operation: the traffic
  is a bounded queue of captures with increasing ids, the registries know only captures that are
  still shown, only Development captures are ever modified, replayed or held at a breakpoint, and
  the body stores keep their budget. \<open>engine_step\<close> is one operation of any task.
\<close>

section \<open>The invariant\<close>

definition untouched :: "capture \<Rightarrow> bool" where
  "untouched c \<longleftrightarrow>
     cap_breakpoint_state c = ''none'' \<and> cap_rule_id c = None \<and> cap_original_status c = None
     \<and> cap_replay_of c = None"

definition capture_ok :: "capture \<Rightarrow> bool" where
  "capture_ok c \<longleftrightarrow>
     (cap_phase c = ''pending'' \<and> cap_error c = None
      \<or> cap_phase c = ''complete'' \<and> cap_error c = None
      \<or> cap_phase c = ''error'' \<and> cap_error c \<noteq> None)
     \<and> (cap_class c = Development \<or> untouched c)"

definition traffic_ok :: "nat \<Rightarrow> nat \<Rightarrow> capture list \<Rightarrow> bool" where
  "traffic_ok lim next cs \<longleftrightarrow>
     length cs \<le> lim \<and> sorted_wrt (<) (map cap_id cs)
     \<and> list_all (\<lambda>c. cap_id c < next \<and> capture_ok c) cs"

definition cap_ids :: "capture list \<Rightarrow> nat set" where
  "cap_ids cs = cap_id ` set cs"

definition development_ids :: "capture list \<Rightarrow> nat set" where
  "development_ids cs = cap_id ` {c \<in> set cs. cap_class c = Development}"

definition engine_inv :: "u64 \<Rightarrow> 'h engine \<Rightarrow> bool" where
  "engine_inv L st \<longleftrightarrow>
     traffic_ok (limit st) (next_id st) (traffic st) \<and> 0 < limit st
     \<and> captures (status st) = length (traffic st)
     \<and> keys (breakpoints st) \<subseteq> development_ids (traffic st)
     \<and> keys (replay_templates st) \<subseteq> cap_ids (traffic st)
     \<and> body_budget st \<le> L \<and> store_inv L (bodies st)"

lemma default_engine_inv: "engine_inv L default_engine"
  using shared_pair_inv [of L]
  by (simp add: engine_inv_def default_engine_def traffic_ok_def keys_def
      default_engine_status_def)

section \<open>Updating captures\<close>

text \<open>An update that keeps the identity and class of a capture and its consistency.\<close>

definition tame :: "(capture \<Rightarrow> capture) \<Rightarrow> capture \<Rightarrow> bool" where
  "tame f c \<longleftrightarrow> cap_id (f c) = cap_id c \<and> cap_class (f c) = cap_class c
     \<and> (capture_ok c \<longrightarrow> capture_ok (f c))"

lemma length_update_capture [simp]: "length (update_capture i f cs) = length cs"
  by (induction cs) simp_all

lemma find_capture_simps [simp]:
  "find_capture i [] = None"
  "find_capture i (c # cs) = (if cap_id c = i then Some c else find_capture i cs)"
  by (simp_all add: find_capture_def)

lemma update_capture_ids:
  "(\<And>c. find_capture i cs = Some c \<Longrightarrow> cap_id (f c) = i)
   \<Longrightarrow> map cap_id (update_capture i f cs) = map cap_id cs"
  by (induction cs) auto

lemma update_capture_classes:
  "(\<And>c. find_capture i cs = Some c \<Longrightarrow> cap_id (f c) = i \<and> cap_class (f c) = cap_class c)
   \<Longrightarrow> map (\<lambda>c. (cap_id c, cap_class c)) (update_capture i f cs) = map (\<lambda>c. (cap_id c, cap_class c)) cs"
  by (induction cs) auto

lemma update_capture_all:
  "list_all P cs \<Longrightarrow> (\<And>c. find_capture i cs = Some c \<Longrightarrow> P c \<Longrightarrow> P (f c))
   \<Longrightarrow> list_all P (update_capture i f cs)"
  by (induction cs) auto

lemma find_capture_Some: "find_capture i cs = Some c \<Longrightarrow> c \<in> set cs \<and> cap_id c = i"
  unfolding find_capture_def by (drule find_Some_in_set)

lemma development_ids_map:
  "map (\<lambda>c. (cap_id c, cap_class c)) cs = map (\<lambda>c. (cap_id c, cap_class c)) ds
   \<Longrightarrow> development_ids cs = development_ids ds"
proof -
  have "development_ids xs = fst ` {p \<in> set (map (\<lambda>c. (cap_id c, cap_class c)) xs). snd p = Development}"
    for xs by (force simp: development_ids_def)
  then show "map (\<lambda>c. (cap_id c, cap_class c)) cs = map (\<lambda>c. (cap_id c, cap_class c)) ds
      \<Longrightarrow> ?thesis" by metis
qed

lemma update_capture_tame:
  assumes "\<And>c. find_capture i cs = Some c \<Longrightarrow> tame f c"
  shows "traffic_ok lim next cs \<Longrightarrow> traffic_ok lim next (update_capture i f cs)"
    and "cap_ids (update_capture i f cs) = cap_ids cs"
    and "development_ids (update_capture i f cs) = development_ids cs"
proof -
  have k: "cap_id (f c) = i \<and> cap_class (f c) = cap_class c" if "find_capture i cs = Some c" for c
    using assms [OF that] find_capture_Some [OF that] by (simp add: tame_def)
  have ids: "map cap_id (update_capture i f cs) = map cap_id cs"
    using k by (intro update_capture_ids) simp
  show "cap_ids (update_capture i f cs) = cap_ids cs"
    using arg_cong [OF ids, of set] by (simp add: cap_ids_def)
  show "development_ids (update_capture i f cs) = development_ids cs"
    using k by (intro development_ids_map update_capture_classes)
  assume ok: "traffic_ok lim next cs"
  then have "list_all (\<lambda>c. cap_id c < next \<and> capture_ok c) cs" by (simp add: traffic_ok_def)
  then have "list_all (\<lambda>c. cap_id c < next \<and> capture_ok c) (update_capture i f cs)"
    by (rule update_capture_all) (auto simp: tame_def dest!: assms)
  with ok ids show "traffic_ok lim next (update_capture i f cs)" by (simp add: traffic_ok_def)
qed

lemma bump_fields [simp]:
  "traffic (bump st) = traffic st" "limit (bump st) = limit st" "next_id (bump st) = next_id st"
  "status (bump st) = status st" "bodies (bump st) = bodies st"
  "breakpoints (bump st) = breakpoints st" "replay_templates (bump st) = replay_templates st"
  "replay_tokens (bump st) = replay_tokens st" "body_budget (bump st) = body_budget st"
  "classifier (bump st) = classifier st" "capture_bodies (bump st) = capture_bodies st"
  "revision (bump st) = revision st + 1"
  by (simp_all add: bump_def)

lemma exchange_update_fields [simp]:
  "traffic (exchange_update i f st) = update_capture i f (traffic st)"
  "limit (exchange_update i f st) = limit st" "next_id (exchange_update i f st) = next_id st"
  "status (exchange_update i f st) = status st" "bodies (exchange_update i f st) = bodies st"
  "breakpoints (exchange_update i f st) = breakpoints st"
  "replay_templates (exchange_update i f st) = replay_templates st"
  "replay_tokens (exchange_update i f st) = replay_tokens st"
  "body_budget (exchange_update i f st) = body_budget st"
  "capture_bodies (exchange_update i f st) = capture_bodies st"
  "revision (exchange_update i f st) = revision st"
  by (simp_all add: exchange_update_def)

lemma inv_bump [simp]: "engine_inv L (bump st) = engine_inv L st"
  by (simp add: engine_inv_def)

lemma inv_update:
  assumes "engine_inv L st" and "\<And>c. find_capture i (traffic st) = Some c \<Longrightarrow> tame f c"
  shows "engine_inv L (exchange_update i f st)"
  using assms update_capture_tame [OF assms(2)] by (simp add: engine_inv_def)

lemma tame_untouched:
  "cap_id (f c) = cap_id c \<Longrightarrow> cap_class (f c) = cap_class c \<Longrightarrow> cap_phase (f c) = cap_phase c
   \<Longrightarrow> cap_error (f c) = cap_error c \<Longrightarrow> untouched (f c) = untouched c \<Longrightarrow> tame f c"
  by (simp add: tame_def capture_ok_def)

lemma tame_finish: "tame (finish_capture error elapsed) c"
  by (auto simp: tame_def finish_capture_def capture_ok_def untouched_def)

lemma inv_finish [invar_intros]: "engine_inv L st \<Longrightarrow> engine_inv L (exchange_finish i error elapsed st)"
  unfolding exchange_finish_def using tame_finish by (auto intro: inv_update)

lemma inv_drop [invar_intros]: "engine_inv L st \<Longrightarrow> engine_inv L (exchange_drop i elapsed st)"
  unfolding exchange_drop_def by (rule inv_finish)

section \<open>Evicting\<close>

lemma forget_fields [simp]:
  "traffic (forget i st) = traffic st" "limit (forget i st) = limit st"
  "next_id (forget i st) = next_id st" "status (forget i st) = status st"
  "body_budget (forget i st) = body_budget st"
  "breakpoints (forget i st) = AList.delete i (breakpoints st)"
  "replay_templates (forget i st) = AList.delete i (replay_templates st)"
  "bodies (forget i st) = remove_body Response_Side i (remove_body Request_Side i (bodies st))"
  by (simp_all add: forget_def)

text \<open>The part of the invariant that holds between the eviction and the new capture.\<close>

definition shrunk_inv :: "u64 \<Rightarrow> 'h engine \<Rightarrow> bool" where
  "shrunk_inv L st \<longleftrightarrow>
     sorted_wrt (<) (map cap_id (traffic st))
     \<and> list_all (\<lambda>c. cap_id c < next_id st \<and> capture_ok c) (traffic st)
     \<and> keys (breakpoints st) \<subseteq> development_ids (traffic st)
     \<and> keys (replay_templates st) \<subseteq> cap_ids (traffic st)
     \<and> body_budget st \<le> L \<and> store_inv L (bodies st)"

lemma engine_inv_shrunk:
  "engine_inv L st \<longleftrightarrow> shrunk_inv L st \<and> length (traffic st) \<le> limit st \<and> 0 < limit st
     \<and> captures (status st) = length (traffic st)"
  by (auto simp: engine_inv_def shrunk_inv_def traffic_ok_def)

lemma shrunk_evict:
  assumes "shrunk_inv L st"
  shows "shrunk_inv L (evict_oldest st)"
proof (cases "traffic st")
  case Nil
  with assms show ?thesis by (simp add: evict_oldest_def count_evicted_def shrunk_inv_def)
next
  case (Cons c cs)
  have "keys (breakpoints st) \<subseteq> insert (cap_id c) (development_ids cs)"
    and "keys (replay_templates st) \<subseteq> insert (cap_id c) (cap_ids cs)"
    using assms Cons by (auto simp: shrunk_inv_def development_ids_def cap_ids_def)
  with assms Cons show ?thesis
    by (auto simp: evict_oldest_def count_evicted_def shrunk_inv_def keyed.within_drop
        intro: store_inv_remove)
qed

lemma shrunk_truncate: "shrunk_inv L st \<Longrightarrow> shrunk_inv L (truncate_traffic st)"
proof (induction st rule: truncate_traffic.induct)
  case (1 st)
  then show ?case
    by (subst truncate_traffic.simps) (auto intro: shrunk_evict)
qed

lemma truncate_fields:
  "length (traffic (truncate_traffic st)) \<le> limit st \<and> limit (truncate_traffic st) = limit st
   \<and> next_id (truncate_traffic st) = next_id st
   \<and> traffic (truncate_traffic st) = drop (length (traffic st) - limit st) (traffic st)"
proof (induction st rule: truncate_traffic.induct)
  case (1 st)
  show ?case
  proof (cases "limit st < length (traffic st)")
    case True
    then have "drop (length (traffic st) - limit st) (traffic st)
        = drop (length (tl (traffic st)) - limit st) (tl (traffic st))"
      by (cases "traffic st") (auto simp: Suc_diff_le less_Suc_eq_le)
    with 1 True show ?thesis by (simp add: truncate_traffic.simps [of st])
  next
    case False
    then show ?thesis by (simp add: truncate_traffic.simps [of st])
  qed
qed

section \<open>Beginning, starting, stopping, clearing\<close>

lemma new_capture_fields [simp]:
  "cap_id (new_capture A i request class profile origin now) = i"
  "cap_class (new_capture A i request class profile origin now) = class"
  by (simp_all add: new_capture_def)

lemma new_capture_ok:
  "origin \<noteq> None \<longrightarrow> class = Development
   \<Longrightarrow> capture_ok (new_capture A i request class profile origin now)"
  by (auto simp: capture_ok_def new_capture_def untouched_def)

lemma shrunk_append:
  assumes "shrunk_inv L st" and "capture_ok c" and "cap_id c = next_id st"
  shows "shrunk_inv L (st\<lparr>next_id := next_id st + 1, traffic := traffic st @ [c]\<rparr>)"
proof -
  have "development_ids (traffic st) \<subseteq> development_ids (traffic st @ [c])"
    and "cap_ids (traffic st) \<subseteq> cap_ids (traffic st @ [c])"
    by (auto simp: development_ids_def cap_ids_def)
  with assms show ?thesis
    by (auto simp: shrunk_inv_def sorted_wrt_append list_all_iff less_Suc_eq)
qed

lemma inv_begin:
  assumes inv: "engine_inv L st" and "origin \<noteq> None \<longrightarrow> class = Development"
    and b: "begin_exchange A request class profile origin now st = (i, st')"
  shows "engine_inv L st'"
proof -
  let ?c = "new_capture A (next_id st) request class profile origin now"
  define ev where "ev = (if length (traffic st) = limit st then evict_oldest st else st)"
  let ?st3 = "ev\<lparr>next_id := next_id ev + 1, traffic := traffic ev @ [?c]\<rparr>"
  have "shrunk_inv L ev"
    using inv shrunk_evict by (auto simp: engine_inv_shrunk ev_def)
  moreover have id: "next_id ev = next_id st" by (simp add: ev_def)
  moreover have "capture_ok ?c" using assms(2) by (rule new_capture_ok)
  ultimately have s3: "shrunk_inv L ?st3" by (intro shrunk_append) simp_all
  have len: "length (traffic ?st3) \<le> limit ?st3 \<and> 0 < limit ?st3"
    using inv by (auto simp: engine_inv_shrunk ev_def)
  have ev1: "(if length (traffic (st\<lparr>next_id := n\<rparr>)) = limit (st\<lparr>next_id := n\<rparr>)
      then evict_oldest (st\<lparr>next_id := n\<rparr>) else st\<lparr>next_id := n\<rparr>) = ev\<lparr>next_id := n\<rparr>" for n
    by (simp add: ev_def evict_oldest_def count_evicted_def forget_def split: list.split)
  have i: "next_id st \<in> cap_ids (traffic ?st3)" by (simp add: cap_ids_def)
  from b have st': "st' = bump (set_captures (case replay_template_for A request of None \<Rightarrow> ?st3
      | Some t \<Rightarrow> ?st3\<lparr>replay_templates := AList.update (next_id st) t (replay_templates ?st3)\<rparr>))"
    unfolding begin_exchange_def Let_def ev1 by (auto simp: id split: option.splits)
  show ?thesis
  proof (cases "replay_template_for A request")
    case None
    with s3 len show ?thesis unfolding st' engine_inv_shrunk by (simp add: set_captures_def shrunk_inv_def)
  next
    case (Some t)
    have "keys (AList.update (next_id st) t (replay_templates ?st3)) \<subseteq> cap_ids (traffic ?st3)"
      using s3 i by (intro keyed.within_put) (auto simp: shrunk_inv_def)
    with Some s3 len show ?thesis
      unfolding st' engine_inv_shrunk by (simp add: set_captures_def shrunk_inv_def)
  qed
qed

lemma inv_install:
  assumes "engine_inv L st" and "limits_ok c" and "body_disk_budget c \<le> L"
  shows "engine_inv L (install_config c address compiled st)"
proof -
  obtain paths cls rules where comp: "compiled = (paths, cls, rules)" by (cases compiled)
  let ?st = "st\<lparr>limit := capture_limit c, capture_bodies := pc_capture_bodies c,
      body_budget := body_disk_budget c, redaction_paths := paths, classifier := cls,
      break_on_responses := pc_break_on_responses c, response_rules := rules\<rparr>"
  have "shrunk_inv L ?st" using assms by (simp add: engine_inv_shrunk shrunk_inv_def)
  then have "shrunk_inv L (truncate_traffic ?st)" by (rule shrunk_truncate)
  moreover have "0 < capture_limit c" using assms(2) by (auto simp: limits_ok_def)
  ultimately show ?thesis
    using truncate_fields [of ?st]
    by (simp add: comp install_config_def Let_def set_captures_def engine_inv_shrunk shrunk_inv_def)
qed

lemma inv_start [invar_intros]:
  assumes "engine_inv L st" and "start_engine H c bound running st = Inr st'"
    and "body_disk_budget c \<le> L"
  shows "engine_inv L st'"
proof -
  from assms(2) obtain compiled address where "validate_config H c = Inr compiled"
    and st': "st' = install_config c address compiled st"
    by (auto simp: start_engine_def and_then_Inr_iff split: if_splits option.splits)
  then have "limits_ok c" by (simp add: validate_config_def split: if_splits)
  with assms show ?thesis unfolding st' by (intro inv_install)
qed

lemma inv_status [invar_intros]:
  "engine_inv L st \<Longrightarrow> engine_inv L (listener_end st)"
  "engine_inv L st \<Longrightarrow> engine_inv L (reject_connection st)"
  by (simp_all add: listener_end_def reject_connection_def engine_inv_def)

lemma inv_clear [invar_intros]: "engine_inv L st \<Longrightarrow> engine_inv L (clear_engine st)"
  by (auto simp: clear_engine_def engine_inv_def traffic_ok_def keys_def intro: store_inv_clear)

section \<open>One exchange\<close>

lemma inv_keys [invar_intros]:
  "engine_inv L st \<Longrightarrow> engine_inv L (st\<lparr>breakpoints := AList.delete i (breakpoints st)\<rparr>)"
  "engine_inv L st \<Longrightarrow> engine_inv L (st\<lparr>replay_tokens := tokens\<rparr>)"
  by (auto simp: engine_inv_def intro: keyed.within_mono [THEN subsetD])

lemma inv_bodies [invar_intros]:
  "engine_inv L st \<Longrightarrow> store_inv L s \<Longrightarrow> engine_inv L (st\<lparr>bodies := s\<rparr>)"
  by (simp add: engine_inv_def)

lemma inv_store: "engine_inv L st \<Longrightarrow> store_inv L (bodies st)"
  by (simp add: engine_inv_def)

lemma tame_shown:
  "tame (add_request_bytes n) c" "tame (add_response_bytes n) c" "tame (show_response code hs) c"
  "tame (intercepted_capture A request target) c"
  "tame (\<lambda>c. c\<lparr>cap_status := s\<rparr>) c" "tame (\<lambda>c. c\<lparr>cap_kind := k\<rparr>) c"
  "tame (\<lambda>c. c\<lparr>cap_request_body_state := b\<rparr>) c" "tame (\<lambda>c. c\<lparr>cap_request_body_error := e\<rparr>) c"
  "tame (\<lambda>c. c\<lparr>cap_request_body_state := b, cap_request_body_error := e\<rparr>) c"
  "tame (\<lambda>c. c\<lparr>cap_response_body_error := e\<rparr>) c"
  "tame (\<lambda>c. (show_response code hs c)\<lparr>cap_response_bytes := n'\<rparr>) c"
  by (simp_all add: tame_untouched add_request_bytes_def add_response_bytes_def show_response_def
      intercepted_capture_def untouched_def)

lemma inv_refuse [invar_intros]: "engine_inv L st \<Longrightarrow> engine_inv L (refuse i r elapsed st)"
  unfolding refuse_def by (intro inv_finish inv_update tame_shown)

lemma inv_observed [invar_intros]:
  "engine_inv L st \<Longrightarrow> engine_inv L (observed_frame is_response i elapsed ev st)"
  by (auto simp: observed_frame_def Let_def intro!: inv_finish inv_update tame_shown
      split: frame_event.splits)

lemma inv_request_frame [invar_intros]:
  "engine_inv L st \<Longrightarrow> engine_inv L (snd (snd (request_frame i elapsed ev buffer st)))"
  using inv_observed [of L st False i elapsed ev]
  by (auto simp: request_frame_def Let_def intro!: inv_update tame_shown
      split: frame_event.splits option.splits)

lemma inv_open_capture [invar_intros]:
  "engine_inv L st \<Longrightarrow> engine_inv L (snd (open_request_capture has_body ct i st))"
  by (auto simp: open_request_capture_def Let_def intro!: inv_update tame_shown)

lemma inv_unrecord:
  "engine_inv L st \<Longrightarrow> engine_inv L (if P then st else st\<lparr>bodies := remove_body side i (bodies st)\<rparr>)"
  by (auto intro!: inv_bodies store_inv_remove inv_store)

lemma inv_request_stored [invar_intros]:
  assumes "engine_inv L st"
  shows "engine_inv L (request_stored i result st)"
proof -
  have "engine_inv L (bump (exchange_update i (case result of
      Inl e \<Rightarrow> (\<lambda>c. c\<lparr>cap_request_body_state := ''unavailable'', cap_request_body_error := Some (Store_Error e)\<rparr>)
    | Inr _ \<Rightarrow> (\<lambda>c. c\<lparr>cap_request_body_state := ''complete''\<rparr>)) st))"
    using assms by (auto intro!: inv_update tame_shown split: sum.splits)
  then show ?thesis unfolding request_stored_def Let_def by (rule inv_unrecord)
qed

lemma may_modify_Development:
  "may_modify i st \<Longrightarrow> find_capture i (traffic st) = Some c \<Longrightarrow> cap_class c = Development"
  by (simp add: may_modify_def authorize_ok_iff)

lemma tame_development:
  "cap_class c = Development \<Longrightarrow> cap_id (f c) = cap_id c \<Longrightarrow> cap_class (f c) = cap_class c
   \<Longrightarrow> cap_phase (f c) = cap_phase c \<Longrightarrow> cap_error (f c) = cap_error c \<Longrightarrow> tame f c"
  by (simp add: tame_def capture_ok_def)

lemma inv_apply_rule:
  assumes "engine_inv L st"
  shows "engine_inv L (snd (snd (apply_rule i host path method original st)))"
  using assms
  by (auto simp: apply_rule_def intro!: inv_update tame_development
      dest: may_modify_Development split: option.splits)

lemma inv_open_breakpoint:
  assumes "engine_inv L st"
  shows "engine_inv L (snd (open_breakpoint i current st))"
proof (cases "break_on_responses st \<and> may_modify i st")
  case False
  with assms show ?thesis by (auto simp: open_breakpoint_def)
next
  case True
  let ?st = "st\<lparr>breakpoints := AList.update i True (breakpoints st)\<rparr>"
  from True obtain c where c: "find_capture i (traffic st) = Some c"
    by (auto simp: may_modify_def split: option.splits)
  have "cap_class c = Development" using True c may_modify_Development by blast
  with find_capture_Some [OF c] have "i \<in> development_ids (traffic st)"
    by (force simp: development_ids_def)
  with assms have "engine_inv L ?st"
    by (auto simp: engine_inv_def intro: keyed.within_put [THEN subsetD])
  then have "engine_inv L (exchange_update i (\<lambda>c. c\<lparr>cap_breakpoint_state := ''waiting'',
      cap_original_status := (if cap_original_status c = None then Some current
                              else cap_original_status c)\<rparr>) ?st)"
  proof (rule inv_update)
    fix d
    assume "find_capture i (traffic ?st) = Some d"
    then have "cap_class d = Development" using True may_modify_Development by fastforce
    then show "tame (\<lambda>c. c\<lparr>cap_breakpoint_state := ''waiting'',
      cap_original_status := (if cap_original_status c = None then Some current
                              else cap_original_status c)\<rparr>) d"
      by (rule tame_development) simp_all
  qed
  with True show ?thesis by (simp add: open_breakpoint_def)
qed

text \<open>A capture with a waiting breakpoint is a Development one, so closing may mark it.\<close>

lemma inv_close_breakpoint:
  assumes "engine_inv L st" and "\<And>c. find_capture i (traffic st) = Some c \<Longrightarrow> cap_class c = Development"
  shows "engine_inv L (snd (snd (close_breakpoint i decision before st)))"
proof -
  have "engine_inv L (exchange_update i (\<lambda>c. c\<lparr>cap_breakpoint_state := s\<rparr>)
      (st\<lparr>breakpoints := AList.delete i (breakpoints st)\<rparr>))" for s
    using inv_keys(1) [OF assms(1)] assms(2)
    by (intro inv_update) (auto intro: tame_development)
  then show ?thesis
    by (cases decision) (simp_all add: close_breakpoint_def Let_def)
qed

lemma keys_map_value: "keys (map (\<lambda>(j, v). (j, f j v)) m) = keys m"
  by (force simp: keys_def)

lemma inv_abandon [invar_intros]: "engine_inv L st \<Longrightarrow> engine_inv L (abandon_breakpoint i st)"
  by (simp add: abandon_breakpoint_def engine_inv_def keys_map_value)

lemma inv_resolve [invar_intros]:
  "engine_inv L st \<Longrightarrow> engine_inv L (snd (resolve_breakpoint H i wanted body ct st))"
  by (auto simp: resolve_breakpoint_def intro: inv_keys split: sum.splits option.splits)

lemma inv_replace_response [invar_intros]:
  assumes inv: "engine_inv L st" and fresh: "tickets (bodies st) t = None" "heap (bodies st) a = None"
    and len: "length (fst replacement) < 2 ^ 64"
  shows "engine_inv L (snd (replace_response A http2 i code replacement h t a storage elapsed st))"
proof -
  let ?head = "replacement_head A http2 (length (fst replacement))
      (case snd replacement of None \<Rightarrow> default_content_type | Some c \<Rightarrow> c) h"
  define st1 where "st1 = exchange_update i (\<lambda>c. (show_response code (safe_headers A ?head) c)
      \<lparr>cap_response_bytes := of_nat (length (fst replacement))\<rparr>) st"
  have inv1: "engine_inv L st1" unfolding st1_def using inv by (intro inv_update tame_shown)
  obtain r s where r: "store_complete i t a (fst replacement) (body_budget st1) storage (bodies st1) = (r, s)"
    by fastforce
  have "store_inv L s"
  proof (rule store_inv_store_bytes)
    show "store_bytes Response_Side i t a (fst replacement) (body_budget st1) ''identity'' storage
        (bodies st1) = (r, s)" using r by (simp add: store_complete_def)
    show "store_inv L (bodies st1)" "body_budget st1 \<le> L" using inv1 by (simp_all add: engine_inv_def)
  qed (use fresh len in \<open>simp_all add: st1_def\<close>)
  with inv1 have b: "engine_inv L (st1\<lparr>bodies := s\<rparr>)" by (rule inv_bodies)
  show ?thesis
    using inv1 b r unfolding replace_response_def Let_def st1_def [symmetric]
    by (auto intro!: inv_finish inv_update tame_shown split: option.split sum.split)
qed

lemma inv_pass_response [invar_intros]:
  assumes inv: "engine_inv L st" and fresh: "\<And>b. a = Some b \<Longrightarrow> heap (bodies st) b = None"
  shows "engine_inv L (snd (pass_response A i code h ended a st))"
proof -
  define st1 where "st1 = exchange_update i (show_response code (safe_headers A h)) st"
  have inv1: "engine_inv L st1" unfolding st1_def using inv by (intro inv_update tame_shown)
  show ?thesis
  proof (cases a)
    case None
    with inv1 show ?thesis unfolding pass_response_def Let_def st1_def [symmetric]
      by (auto intro: inv_update tame_shown)
  next
    case (Some b)
    have "store_inv L (record_body Response_Side i b (response_encoding A ended (strip_hop_headers A h))
        (body_budget st1) (bodies st1))"
      using inv1 fresh [OF Some] by (intro store_inv_record) (simp_all add: engine_inv_def st1_def)
    with inv1 Some show ?thesis unfolding pass_response_def Let_def st1_def [symmetric]
      by (auto intro!: inv_bodies intro: store_inv_remove)
  qed
qed

section \<open>Every operation\<close>

text \<open>
  One operation of any task. The guard of \<open>op_close\<close> is that the exchange closes its own
  breakpoint: it opened it under \<open>may_modify\<close>, and a capture never changes class. The guard of
  \<open>op_begin\<close> is what \<open>admit\<close> guarantees.
\<close>

inductive engine_step :: "u64 \<Rightarrow> 'h engine \<Rightarrow> 'h engine \<Rightarrow> bool" for L :: u64 where
  op_begin: "begin_exchange A request class profile origin now st = (i, st')
    \<Longrightarrow> origin \<noteq> None \<longrightarrow> class = Development \<Longrightarrow> engine_step L st st'"
| op_start: "start_engine H c bound running st = Inr st' \<Longrightarrow> body_disk_budget c \<le> L
    \<Longrightarrow> engine_step L st st'"
| op_listener_end: "engine_step L st (listener_end st)"
| op_reject: "engine_step L st (reject_connection st)"
| op_clear: "engine_step L st (clear_engine st)"
| op_finish: "engine_step L st (exchange_finish i error elapsed st)"
| op_drop: "engine_step L st (exchange_drop i elapsed st)"
| op_refuse: "engine_step L st (refuse i r elapsed st)"
| op_observed: "engine_step L st (observed_frame is_response i elapsed ev st)"
| op_request_frame: "engine_step L st (snd (snd (request_frame i elapsed ev buffer st)))"
| op_open_capture: "engine_step L st (snd (open_request_capture has_body ct i st))"
| op_request_stored: "engine_step L st (request_stored i result st)"
| op_tunnel: "engine_step L st (exchange_update i (\<lambda>c. c\<lparr>cap_status := Some 200\<rparr>) st)"
| op_tls: "engine_step L st (exchange_update i (\<lambda>c. c\<lparr>cap_kind := ''tls''\<rparr>) st)"
| op_intercepted: "engine_step L st (exchange_update i (intercepted_capture (A :: 'h header_api) request target) st)"
| op_bump: "engine_step L st (bump st)"
| op_rule: "engine_step L st (snd (snd (apply_rule i host path method original st)))"
| op_open: "engine_step L st (snd (open_breakpoint i current st))"
| op_close: "(\<And>c. find_capture i (traffic st) = Some c \<Longrightarrow> cap_class c = Development)
    \<Longrightarrow> engine_step L st (snd (snd (close_breakpoint i decision before st)))"
| op_abandon: "engine_step L st (abandon_breakpoint i st)"
| op_resolve: "engine_step L st (snd (resolve_breakpoint H i wanted body ct st))"
| op_replace: "tickets (bodies st) t = None \<Longrightarrow> heap (bodies st) a = None
    \<Longrightarrow> length (fst replacement) < 2 ^ 64
    \<Longrightarrow> engine_step L st (snd (replace_response (A :: 'h header_api) http2 i code replacement h t a storage elapsed st))"
| op_pass: "(\<And>b. a = Some b \<Longrightarrow> heap (bodies st) b = None)
    \<Longrightarrow> engine_step L st (snd (pass_response (A :: 'h header_api) i code h ended a st))"
| op_replay_begin: "replay_begin i token st = Inr (t, st') \<Longrightarrow> engine_step L st st'"
| op_replay_end: "engine_step L st (replay_end k st)"
| op_claim: "engine_step L st (snd (claim_token token st))"
| op_store: "store_step L (bodies st) s \<Longrightarrow> engine_step L st (st\<lparr>bodies := s\<rparr>)"

definition engine_reachable :: "u64 \<Rightarrow> 'h engine \<Rightarrow> bool" where
  "engine_reachable L st \<longleftrightarrow> (engine_step L)\<^sup>*\<^sup>* default_engine st"

lemma engine_step_inv:
  assumes "engine_step L st st'" and "engine_inv L st"
  shows "engine_inv L st'"
  using assms
proof (cases rule: engine_step.cases)
  case op_replay_begin
  then obtain auth k where "st' = st\<lparr>replay_tokens := AList.update k auth (replay_tokens st)\<rparr>"
    by (auto simp: replay_begin_def and_then_Inr_iff split: option.splits)
  with assms(2) show ?thesis by (simp add: inv_keys)
next
  case op_claim
  with assms(2) show ?thesis by (auto simp: claim_token_def intro: inv_keys split: option.splits)
next
  case op_store
  with assms(2) show ?thesis by (auto intro: inv_bodies store_step_inv inv_store)
next
  case (op_begin A request cls profile origin now i)
  with assms(2) show ?thesis by (blast intro: inv_begin)
next
  case (op_start H c bound running)
  with assms(2) show ?thesis by (blast intro: inv_start)
next
  case (op_tunnel i)
  with inv_update [OF assms(2) tame_shown(5)] show ?thesis by simp
next
  case (op_tls i)
  with inv_update [OF assms(2) tame_shown(6)] show ?thesis by simp
next
  case (op_intercepted i A request target)
  with inv_update [OF assms(2) tame_shown(4)] show ?thesis by simp
next
  case (op_close i decision before)
  with inv_close_breakpoint [OF assms(2)] show ?thesis by blast
next
  case (op_replace t a replacement A http2 i code h storage elapsed)
  with inv_replace_response [OF assms(2)] show ?thesis by blast
next
  case (op_pass a A i code h ended)
  with inv_pass_response [OF assms(2)] show ?thesis by blast
qed (use assms(2) in \<open>simp_all add: inv_status inv_clear inv_finish inv_drop inv_refuse inv_observed
      inv_request_frame inv_open_capture inv_request_stored inv_apply_rule inv_open_breakpoint
      inv_abandon inv_resolve replay_end_def inv_keys\<close>)

interpretation engines: machine "engine_step L" "\<lambda>st. st = default_engine" "engine_inv L" for L
  by unfold_locales (auto intro: default_engine_inv engine_step_inv)

lemma engine_reachable_inv: "engine_reachable L st \<Longrightarrow> engine_inv L st"
  unfolding engine_reachable_def by (rule engines.reached_inv [OF refl])

end
