(* ===== verification/Engine_Properties.thy ===== *)
theory Engine_Properties
  imports Engine_Invariant
begin

text \<open>
  What the engine promises to its users, on the reachable states of \<open>Engine_Invariant\<close> and on single
  operations: bounded and consistent captures, protection of destinations that are not
  Development, final outcomes, breakpoints, replay, and admission.
\<close>

section \<open>Witness states\<close>

definition sample_request :: "string \<Rightarrow> (string \<times> bytes) list request" where
  "sample_request authority =
     \<lparr>rq_method = ''GET'', rq_uri = sample_uri authority None, rq_headers = [], rq_end_stream = True\<rparr>"

text \<open>An engine with one Development capture, for the witnesses.\<close>

definition one_capture :: "(string \<times> bytes) list engine" where
  "one_capture = snd (begin_exchange list_headers (sample_request ''a.test'') Development None None 0
     default_engine)"

lemma one_capture_reachable: "engine_reachable 100 one_capture"
proof -
  have "engine_step 100 default_engine one_capture"
    by (rule op_begin [of list_headers "sample_request ''a.test''" Development None None 0 _ 1])
      (simp_all add: one_capture_def begin_exchange_def Let_def default_engine_def)
  then show ?thesis unfolding engine_reachable_def by (rule r_into_rtranclp)
qed

lemma one_capture_traffic:
  "traffic one_capture
     = [new_capture list_headers 1 (sample_request ''a.test'') Development None None 0]"
  by (simp add: one_capture_def begin_exchange_def Let_def default_engine_def set_captures_def
      split: option.split)

section \<open>Invariants\<close>



text \<open>
  C2: traffic to a destination that is not Development is only observed. In every reachable state
  its capture has never been at a breakpoint, never been rewritten by a rule and is not a
  replay, no breakpoint waits for it, and its outcome is consistent with its phase.
\<close>

theorem production_only_observed:
  assumes "engine_reachable L st" and "c \<in> set (traffic st)" and "cap_class c \<noteq> Development"
  shows "cap_breakpoint_state c = ''none'' \<and> cap_rule_id c = None \<and> cap_original_status c = None
    \<and> cap_replay_of c = None \<and> cap_id c \<notin> keys (breakpoints st)"
proof -
  note inv = engine_reachable_inv [OF assms(1)]
  have ok: "capture_ok c" and sorted: "sorted_wrt (<) (map cap_id (traffic st))"
    using inv assms(2) by (auto simp: engine_inv_def traffic_ok_def list_all_iff)
  have "cap_id c \<notin> development_ids (traffic st)"
  proof
    assume "cap_id c \<in> development_ids (traffic st)"
    then obtain d where "d \<in> set (traffic st)" "cap_class d = Development" "cap_id d = cap_id c"
      by (auto simp: development_ids_def)
    moreover have "distinct (map cap_id (traffic st))"
      using sorted by (simp only: strict_sorted_iff)
    then have "inj_on cap_id (set (traffic st))" by (simp add: distinct_map)
    ultimately show False using assms(2,3) by (auto dest: inj_onD)
  qed
  with inv have "cap_id c \<notin> keys (breakpoints st)" by (auto simp: engine_inv_def)
  with ok assms(3) show ?thesis by (auto simp: capture_ok_def untouched_def)
qed

text \<open>A production capture, for the witness.\<close>

definition production_capture :: "(string \<times> bytes) list engine" where
  "production_capture = snd (begin_exchange list_headers (sample_request ''p.test'') Production None None 0
     default_engine)"

theorem production_only_observed_witness:
  "cap_breakpoint_state (hd (traffic production_capture)) = ''none''"
proof -
  have "engine_step 100 default_engine production_capture"
    by (rule op_begin [of list_headers "sample_request ''p.test''" Production None None 0 _ 1])
      (simp_all add: production_capture_def begin_exchange_def Let_def default_engine_def)
  then have r: "engine_reachable 100 production_capture"
    unfolding engine_reachable_def by (rule r_into_rtranclp)
  have t: "traffic production_capture
     = [new_capture list_headers 1 (sample_request ''p.test'') Production None None 0]"
    by (simp add: production_capture_def begin_exchange_def Let_def default_engine_def
        set_captures_def split: option.split)
  from production_only_observed [OF r, of "hd (traffic production_capture)"] show ?thesis
    by (simp add: t)
qed

section \<open>Outcomes are final\<close>

text \<open>
  What an operation may do to the capture list: keep a capture as it is or update it in place
  without touching its identity or a final outcome, drop captures, add the next one.
\<close>

definition evolves :: "capture \<Rightarrow> capture \<Rightarrow> bool" where
  "evolves c c' \<longleftrightarrow> cap_id c' = cap_id c \<and> cap_class c' = cap_class c
     \<and> cap_replay_of c' = cap_replay_of c \<and> cap_profile c' = cap_profile c
     \<and> cap_started_at c' = cap_started_at c
     \<and> (cap_phase c \<noteq> ''pending'' \<longrightarrow>
          cap_phase c' = cap_phase c \<and> cap_error c' = cap_error c
          \<and> cap_duration_ms c' = cap_duration_ms c)"

definition descends :: "nat \<Rightarrow> capture list \<Rightarrow> capture list \<Rightarrow> bool" where
  "descends next cs cs' \<longleftrightarrow>
     list_all (\<lambda>c'. cap_id c' = next \<or> list_ex (\<lambda>c. evolves c c') cs) cs'"

lemma evolves_refl [simp]: "evolves c c"
  by (simp add: evolves_def)

lemma descends_refl [simp]: "descends next cs cs"
  by (auto simp: descends_def list_all_iff list_ex_iff intro: evolves_refl)

lemma descends_subset: "set cs' \<subseteq> set cs \<Longrightarrow> descends next cs cs'"
  by (auto simp: descends_def list_all_iff list_ex_iff intro: evolves_refl)

lemma descends_update:
  assumes "\<And>c. evolves c (f c)"
  shows "descends next cs (update_capture i f cs)"
proof -
  have "c' \<in> set (update_capture i f cs) \<Longrightarrow> \<exists>c \<in> set cs. evolves c c'" for c'
  proof (induction cs)
    case (Cons d cs)
    then show ?case
    proof (cases "cap_id d = i \<and> c' = f d")
      case True
      with assms show ?thesis by auto
    next
      case False
      with Cons have "c' = d \<or> c' \<in> set cs \<or> c' \<in> set (update_capture i f cs)"
        by (auto split: if_splits)
      with Cons.IH show ?thesis by (auto intro: evolves_refl)
    qed
  qed simp
  then show ?thesis by (auto simp: descends_def list_all_iff list_ex_iff)
qed

lemma evolves_finish: "evolves c (finish_capture error elapsed c)"
  by (simp add: evolves_def finish_capture_def)

lemma evolves_shown:
  "evolves c (add_request_bytes n c)" "evolves c (add_response_bytes n c)"
  "evolves c (show_response code hs c)" "evolves c (intercepted_capture A request target c)"
  "evolves c (c\<lparr>cap_status := s\<rparr>)" "evolves c (c\<lparr>cap_kind := k\<rparr>)"
  "evolves c (c\<lparr>cap_request_body_state := b\<rparr>)" "evolves c (c\<lparr>cap_request_body_error := e\<rparr>)"
  "evolves c (c\<lparr>cap_request_body_state := b, cap_request_body_error := e\<rparr>)"
  "evolves c (c\<lparr>cap_response_body_error := e\<rparr>)" "evolves c (c\<lparr>cap_breakpoint_state := b\<rparr>)"
  "evolves c ((show_response code hs c)\<lparr>cap_response_bytes := n'\<rparr>)"
  "evolves c (c\<lparr>cap_original_status := o1, cap_rule_id := r, cap_rule_name := nm\<rparr>)"
  "evolves c (c\<lparr>cap_breakpoint_state := b, cap_original_status := o1\<rparr>)"
  by (simp_all add: evolves_def add_request_bytes_def add_response_bytes_def show_response_def
      intercepted_capture_def)

lemma evolves_trans: "evolves a b \<Longrightarrow> evolves b c \<Longrightarrow> evolves a c"
  unfolding evolves_def by metis

lemma descends_trans:
  assumes "descends next cs ds" and "descends next ds es"
  shows "descends next cs es"
  unfolding descends_def list_all_iff
proof
  fix e
  assume "e \<in> set es"
  with assms(2) consider "cap_id e = next" | d where "d \<in> set ds" "evolves d e"
    by (auto simp: descends_def list_all_iff list_ex_iff)
  then show "cap_id e = next \<or> list_ex (\<lambda>c. evolves c e) cs"
  proof cases
    case 2
    with assms(1) consider "cap_id d = next" | c where "c \<in> set cs" "evolves c d"
      by (auto simp: descends_def list_all_iff list_ex_iff)
    then show ?thesis using 2 evolves_trans by (cases) (auto simp: evolves_def list_ex_iff)
  qed simp
qed

text \<open>Every operation on one exchange, by name.\<close>

lemma descends_exchange:
  fixes st :: "'h engine"
  defines "D \<equiv> \<lambda>st'. descends (next_id st) (traffic st) (traffic (st' :: 'h engine))"
  shows "D (exchange_finish i error elapsed st)" "D (refuse i r elapsed st)"
    "D (observed_frame is_response i elapsed ev st)"
    "D (snd (snd (request_frame i elapsed ev buffer st)))"
    "D (snd (open_request_capture has_body ct i st))" "D (request_stored i result st)"
    "D (snd (snd (apply_rule i host path method original st)))"
    "D (snd (open_breakpoint i current st))" "D (snd (snd (close_breakpoint i decision before st)))"
proof -
  note up = descends_update [of _ "next_id st" _ i]
  note [simp] = exchange_finish_def evolves_finish evolves_shown
  have fin: "descends (next_id st) (traffic st)
      (update_capture i (finish_capture error elapsed) (update_capture i f (traffic st)))"
    if "\<And>c. evolves c (f c)" for error elapsed f
    using that by (intro descends_trans [OF up up]) simp_all
  show "D (exchange_finish i error elapsed st)" unfolding D_def by (simp add: up)
  show "D (refuse i r elapsed st)" unfolding D_def refuse_def by (simp add: fin)
  have ob: "descends (next_id st) (traffic st) (traffic (observed_frame is_response i elapsed ev st))"
    for is_response ev
    by (auto simp: observed_frame_def Let_def up fin split: frame_event.split)
  show "D (observed_frame is_response i elapsed ev st)" unfolding D_def by (rule ob)
  show "D (snd (snd (request_frame i elapsed ev buffer st)))"
    unfolding D_def request_frame_def Let_def
    by (auto simp: ob intro!: descends_trans [OF ob up] split: frame_event.split option.split)
  show "D (snd (open_request_capture has_body ct i st))"
    unfolding D_def by (simp add: open_request_capture_def Let_def up)
  show "D (request_stored i result st)"
    unfolding D_def request_stored_def Let_def by (cases result) (simp_all add: up)
  show "D (snd (snd (apply_rule i host path method original st)))"
    unfolding D_def apply_rule_def by (auto simp: up split: option.split)
  show "D (snd (open_breakpoint i current st))"
    unfolding D_def open_breakpoint_def by (simp add: up)
  show "D (snd (snd (close_breakpoint i decision before st)))"
    unfolding D_def close_breakpoint_def Let_def by (cases decision) (simp_all add: up)
qed

lemma descends_replace:
  "descends (next_id st) (traffic st)
     (traffic (snd (replace_response A http2 i code replacement h t a storage elapsed st)))"
proof -
  let ?head = "replacement_head A http2 (length (fst replacement))
      (case snd replacement of None \<Rightarrow> default_content_type | Some c \<Rightarrow> c) h"
  define st1 where "st1 = exchange_update i (\<lambda>c. (show_response code (safe_headers A ?head) c)
      \<lparr>cap_response_bytes := of_nat (length (fst replacement))\<rparr>) st"
  have d1: "descends (next_id st) (traffic st) (traffic st1)"
    unfolding st1_def by (simp add: descends_update evolves_shown)
  have d2: "descends (next_id st) (traffic st) (update_capture i (finish_capture e l) (traffic st1))"
    for e l by (rule descends_trans [OF d1 descends_update]) (rule evolves_finish)
  have d3: "descends (next_id st) (traffic st) (update_capture i (finish_capture e l)
      (update_capture i (\<lambda>c. c\<lparr>cap_response_body_error := n\<rparr>) (traffic st1)))" for e l n
    by (rule descends_trans [OF descends_trans [OF d1 descends_update] descends_update])
      (simp_all add: evolves_shown evolves_finish)
  show ?thesis
    unfolding replace_response_def Let_def st1_def [symmetric]
    by (auto simp: exchange_finish_def d1 d2 d3 split: prod.split option.split sum.split)
qed

lemma descends_pass:
  "descends (next_id st) (traffic st) (traffic (snd (pass_response A i code h ended a st)))"
proof -
  define st1 where "st1 = exchange_update i (show_response code (safe_headers A h)) st"
  have d1: "descends (next_id st) (traffic st) (traffic st1)"
    unfolding st1_def by (simp add: descends_update evolves_shown)
  have d2: "descends (next_id st) (traffic st)
      (update_capture i (\<lambda>c. c\<lparr>cap_response_body_error := n\<rparr>) (traffic st1))" for n
    by (rule descends_trans [OF d1 descends_update]) (simp add: evolves_shown)
  show ?thesis
    unfolding pass_response_def Let_def st1_def [symmetric]
    by (auto simp: d1 d2 split: option.split)
qed

lemma descends_begin:
  assumes "begin_exchange A request cls profile origin now st = (i, st')"
  shows "descends (next_id st) (traffic st) (traffic st')"
proof -
  have tl: "set (tl cs) \<subseteq> set cs" for cs :: "capture list" by (cases cs) auto
  from assms have "set (traffic st') \<subseteq> insert (new_capture A (next_id st) request cls profile origin now)
      (set (traffic st))"
    by (auto simp: begin_exchange_def Let_def set_captures_def dest: subsetD [OF tl]
        split: if_splits option.splits)
  then have "c' = new_capture A (next_id st) request cls profile origin now \<or> c' \<in> set (traffic st)"
    if "c' \<in> set (traffic st')" for c' using that by blast
  then show ?thesis
    by (fastforce simp: descends_def list_all_iff list_ex_iff intro: evolves_refl)
qed

lemma engine_step_descends:
  assumes "engine_step L st st'"
  shows "descends (next_id st) (traffic st) (traffic st')"
  using assms
proof cases
  case (op_begin A request cls profile origin now i)
  then show ?thesis by (blast intro: descends_begin)
next
  case (op_start H c bound running)
  then obtain compiled address where "st' = install_config c address compiled st"
    by (auto simp: start_engine_def and_then_Inr_iff split: if_splits option.splits)
  then have "set (traffic st') \<subseteq> set (traffic st)"
    by (auto simp: install_config_def Let_def set_captures_def truncate_fields
        dest: in_set_dropD split: prod.splits)
  then show ?thesis by (rule descends_subset)
next
  case (op_replay_begin i token t)
  then show ?thesis
    by (auto simp: replay_begin_def and_then_Inr_iff split: option.splits)
next
  case (op_replace t a replacement A http2 i code h storage elapsed)
  then show ?thesis by (simp add: descends_replace)
next
  case (op_pass a A i code h ended)
  then show ?thesis by (simp add: descends_pass)
qed (auto simp: descends_exchange exchange_drop_def listener_end_def reject_connection_def
    clear_engine_def abandon_breakpoint_def replay_end_def
    descends_update evolves_shown descends_subset resolve_breakpoint_def claim_token_def
    split: option.split sum.split)

section \<open>Beginning an exchange\<close>

text \<open>
  A new exchange is always recorded, last, as a pending capture with a fresh id. It costs at
  most one capture, the oldest, and only when the limit is reached; the evicted capture is
  counted and nothing of it is left: no body, breakpoint or replay template. All other captures
  stay as they were.
\<close>

lemma begin_exchange_evicts_oldest:
  assumes "engine_reachable L st"
    and "begin_exchange A request cls profile origin now st = (i, st')"
  shows "i = next_id st \<and> i \<notin> cap_ids (traffic st)
    \<and> (\<exists>c. traffic st' = (if length (traffic st) = limit st then tl (traffic st) else traffic st) @ [c]
         \<and> cap_id c = i \<and> cap_phase c = ''pending'' \<and> cap_class c = cls)
    \<and> evicted_captures (status st') = evicted_captures (status st)
         + (if length (traffic st) = limit st then 1 else 0)
    \<and> (length (traffic st) = limit st \<longrightarrow>
         (\<forall>side. cap_id (hd (traffic st)) \<notin> recorded side (bodies st'))
         \<and> cap_id (hd (traffic st)) \<notin> keys (breakpoints st') \<union> keys (replay_templates st'))"
proof -
  note inv = engine_reachable_inv [OF assms(1)]
  have i: "i = next_id st" using assms(2) by (auto simp: begin_exchange_def Let_def)
  have old: "\<forall>c \<in> set (traffic st). cap_id c < next_id st" and lim: "0 < limit st"
    using inv by (auto simp: engine_inv_def traffic_ok_def list_all_iff)
  then have fresh: "i \<notin> cap_ids (traffic st)" by (auto simp: cap_ids_def i)
  let ?c = "new_capture A (next_id st) request cls profile origin now"
  show ?thesis
  proof (cases "length (traffic st) = limit st")
    case False
    with assms(2) i fresh show ?thesis
      by (auto simp: begin_exchange_def Let_def set_captures_def new_capture_def split: option.splits)
  next
    case True
    then obtain d ds where ds: "traffic st = d # ds" using lim by (cases "traffic st") auto
    then have ne: "cap_id d \<noteq> next_id st" using old by auto
    let ?st1 = "forget (cap_id d) (st\<lparr>next_id := next_id st + 1, traffic := ds\<rparr>)"
    have bodies': "bodies st' = bodies ?st1" and bps: "breakpoints st' = breakpoints ?st1"
      and tmpl: "keys (replay_templates st') \<subseteq> insert (next_id st) (keys (replay_templates ?st1))"
      and traf: "traffic st' = ds @ [?c]"
      and ev: "evicted_captures (status st') = evicted_captures (status st) + 1"
      using assms(2) True ds
      by (auto simp: begin_exchange_def Let_def set_captures_def evict_oldest_def count_evicted_def
          keyed.ids_put split: option.splits)
    have gone: "cap_id d \<notin> recorded side (bodies ?st1)" for side
      by (cases side) (simp_all add: stored_bodies.gone recorded_other_side)
    moreover have "cap_id d \<notin> keys (breakpoints ?st1)" "cap_id d \<notin> keys (replay_templates ?st1)"
      by (simp_all add: keyed.gone)
    ultimately show ?thesis
      using True ds i fresh traf ev bodies' bps tmpl ne by (auto simp: new_capture_def)
  qed
qed

lemma begin_exchange_evicts_oldest_witness:
  "2 \<notin> cap_ids (traffic one_capture)"
proof -
  obtain i st' where b: "begin_exchange list_headers (sample_request ''a.test'') Development None None 0
      one_capture = (i, st')" by fastforce
  moreover have "next_id one_capture = 2"
    by (simp add: one_capture_def begin_exchange_def Let_def default_engine_def set_captures_def
        split: option.split)
  moreover have "i = next_id one_capture \<and> i \<notin> cap_ids (traffic one_capture)"
    using begin_exchange_evicts_oldest [OF one_capture_reachable b] by blast
  ultimately show ?thesis by auto
qed

section \<open>Starting\<close>

text \<open>
  Starting the proxy either fails and changes nothing, or it was stopped, the limits are in
  range, an inspecting profile is the authenticated one, and the compiled host rules are
  unambiguous for every host; then the engine runs with exactly the newest captures that fit the
  new limit, in their order.
\<close>

lemma start_validates:
  assumes "start_engine H c bound running st = Inr st'" and "engine_reachable L st"
  shows "\<not> running \<and> limits_ok c \<and> inspection_auth_ok c \<and> bound \<noteq> None
    \<and> es_phase (status st') = Running \<and> limit st' = capture_limit c
    \<and> traffic st' = drop (length (traffic st) - capture_limit c) (traffic st)
    \<and> captures (status st') = length (traffic st')
    \<and> classifier_compile (development_hosts c) (production_hosts c) = Inr (classifier st')
    \<and> https_inspection (status st') = (pc_tls_interception c \<noteq> None)
    \<and> (pc_tls_interception c \<noteq> None \<longrightarrow>
         es_client_profile_id (status st') = map_option ti_profile_id (pc_tls_interception c))"
proof -
  from assms(1) obtain paths cls rules address where run: "\<not> running" and b: "bound = Some address"
    and v: "validate_config H c = Inr (paths, cls, rules)"
    and st': "st' = install_config c address (paths, cls, rules) st"
    by (auto simp: start_engine_def and_then_Inr_iff split: if_splits option.splits)
  from v have lim: "limits_ok c" "inspection_auth_ok c"
    and cls: "classifier_compile (development_hosts c) (production_hosts c) = Inr cls"
    by (auto simp: validate_config_def result_simps split: if_splits)
  let ?st = "st\<lparr>limit := capture_limit c, capture_bodies := pc_capture_bodies c,
      body_budget := body_disk_budget c, redaction_paths := paths, classifier := cls,
      break_on_responses := pc_break_on_responses c, response_rules := rules\<rparr>"
  have keep: "classifier (truncate_traffic s) = classifier s" for s :: "'a engine"
  proof (induction s rule: truncate_traffic.induct)
    case (1 s)
    moreover have "classifier (evict_oldest s) = classifier s"
      by (simp add: evict_oldest_def count_evicted_def forget_def split: list.split)
    ultimately show ?case by (subst truncate_traffic.simps) simp
  qed
  show ?thesis
    using run b lim cls truncate_fields [of ?st] keep [of ?st]
    by (auto simp: st' install_config_def Let_def set_captures_def inspection_auth_ok_def
        split: option.splits)
qed

lemma start_validates_witness:
  "\<exists>st'. start_engine reference_http default_config (Some (''127.0.0.1'', 8080)) False
       (default_engine :: (string \<times> bytes) list engine) = Inr st'
     \<and> es_phase (status st') = Running"
proof -
  have "is_ok (start_engine reference_http default_config (Some (''127.0.0.1'', 8080)) False
       (default_engine :: (string \<times> bytes) list engine))" by code_simp
  then obtain st' where st': "start_engine reference_http default_config (Some (''127.0.0.1'', 8080))
      False (default_engine :: (string \<times> bytes) list engine) = Inr st'"
    by (auto simp: is_ok_def split: sum.splits)
  have "engine_reachable 100 (default_engine :: (string \<times> bytes) list engine)"
    by (simp add: engine_reachable_def)
  from start_validates [OF st' this] st' show ?thesis by blast
qed

end
