(* ===== verification/Interception.thy ===== *)
theory Interception
  imports Trust_Properties Engine_Properties
begin

text \<open>
  The decision to inspect a CONNECT tunnel (\<open>ProxyTlsInterception\<close> in
  \<open>crates/engine/src/proxy.rs\<close>). \<open>leaf_source\<close> is the interface of the callback that issues leaves:
  what its client, the tunnel, relies on. \<open>platform_issue\<close> is the callback the application
  installs, made of the certificate authority and the trust check.
\<close>

section \<open>The interface\<close>

locale leaf_source =
  fixes issue :: "'w \<Rightarrow> string \<Rightarrow> string \<Rightarrow> destination_class \<Rightarrow> 'e + issued_leaf option"
    and vouched :: "'w \<Rightarrow> string \<Rightarrow> issued_leaf \<Rightarrow> bool"
  assumes issue_class: "issue w profile host d = Inr (Some leaf) \<Longrightarrow> d = Development"
    and issue_host: "issue w profile host d = Inr (Some leaf) \<Longrightarrow> normalize_leaf_host host = Inr (il_host leaf)"
    and issue_vouched: "issue w profile host d = Inr (Some leaf) \<Longrightarrow> vouched w profile leaf"
begin

lemma not_issued_elsewhere: "d \<noteq> Development \<Longrightarrow> issue w profile host d \<noteq> Inr (Some leaf)"
  using issue_class by blast

end

text \<open>\<open>prepare\<close>: \<open>issue\<close> is the callback with everything but the host and the class applied.\<close>

definition prepare ::
  "string \<Rightarrow> (string \<Rightarrow> destination_class \<Rightarrow> 'e + issued_leaf option) \<Rightarrow> string \<Rightarrow> destination_class
     \<Rightarrow> string option \<Rightarrow> 'e + (string \<times> issued_leaf) option" where
  "prepare profile issue host destination client =
     (if destination \<noteq> Development \<or> client \<noteq> Some profile then Inr None
      else and_then (issue host destination) (\<lambda>leaf. Inr (map_option (\<lambda>l. (host, l)) leaf)))"

context leaf_source
begin

lemma prepared_route:
  assumes "prepare profile (issue w profile) host destination client = Inr (Some (h, leaf))"
  shows "destination = Development \<and> client = Some profile \<and> h = host
    \<and> normalize_leaf_host host = Inr (il_host leaf) \<and> vouched w profile leaf"
  using assms
  by (auto simp: prepare_def and_then_Inr_iff dest: issue_host issue_vouched split: if_splits)

end

section \<open>The application's callback\<close>

text \<open>
  What the callback meets: the answers of the credential store when the status is read and again
  when the leaf is issued, the trust check's manager, the clock and the certificate library.
\<close>

record trust_world =
  w_parse :: "bytes \<Rightarrow> stored_ca option"
  w_status_answer :: store_answer
  w_status_secret :: "bytes option"
  w_checks :: checks
  w_status_now :: nat
  w_issue_answer :: store_answer
  w_issue_secret :: "bytes option"
  w_key_ok :: "stored_ca \<Rightarrow> bool"
  w_timestamp_ok :: "nat \<Rightarrow> bool"
  w_sign :: "stored_ca \<Rightarrow> certificate_params \<Rightarrow> ca_error + bytes \<times> bytes"
  w_issue_now :: nat

datatype interception_error = Ca_Failed ca_error | Ca_Changed

definition platform_issue ::
  "trust_world \<Rightarrow> string \<Rightarrow> string \<Rightarrow> destination_class \<Rightarrow> interception_error + issued_leaf option" where
  "platform_issue w profile host destination =
     (if destination \<noteq> Development then Inr None
      else and_then (map_error Ca_Failed
             (ca_current_status (w_parse w) (w_status_answer w) (w_status_secret w))) (\<lambda>ca.
        if \<not> (case manager_readiness (w_checks w) ca profile (w_status_now w) of
                None \<Rightarrow> False | Some r \<Rightarrow> can_inspect_development r)
        then Inr None
        else and_then (map_error Ca_Failed
               (issue_leaf (w_parse w) (w_issue_answer w) (w_issue_secret w) (w_key_ok w)
                  (w_timestamp_ok w) (w_sign w) (w_issue_now w) host destination)) (\<lambda>leaf.
          if Some (il_issuer leaf) \<noteq> ca_fingerprint ca then Inl Ca_Changed
          else Inr (Some leaf))))"

definition platform_vouched :: "trust_world \<Rightarrow> string \<Rightarrow> issued_leaf \<Rightarrow> bool" where
  "platform_vouched w profile leaf \<longleftrightarrow>
     (\<exists>ca r. ca_current_status (w_parse w) (w_status_answer w) (w_status_secret w) = Inr ca
        \<and> ca_fingerprint ca = Some (il_issuer leaf)
        \<and> manager_readiness (w_checks w) ca profile (w_status_now w) = Some r
        \<and> can_inspect_development r
        \<and> w_issue_now w < il_expires_at leaf * (1000 * 1000))"

lemma platform_issue_Some:
  assumes "platform_issue w profile host d = Inr (Some leaf)"
  shows "d = Development \<and> normalize_leaf_host host = Inr (il_host leaf) \<and> platform_vouched w profile leaf"
proof -
  from assms obtain ca where
    status: "ca_current_status (w_parse w) (w_status_answer w) (w_status_secret w) = Inr ca"
      "ca_fingerprint ca = Some (il_issuer leaf)"
    and ready: "case manager_readiness (w_checks w) ca profile (w_status_now w) of
        None \<Rightarrow> False | Some r \<Rightarrow> can_inspect_development r"
    and leaf: "issue_leaf (w_parse w) (w_issue_answer w) (w_issue_secret w) (w_key_ok w)
        (w_timestamp_ok w) (w_sign w) (w_issue_now w) host d = Inr leaf"
    and d: "d = Development"
    by (auto simp: platform_issue_def and_then_Inr_iff map_error_Inr split: if_splits)
  from ready obtain r where "manager_readiness (w_checks w) ca profile (w_status_now w) = Some r"
      "can_inspect_development r"
    by (auto split: option.splits)
  with status issue_leaf_facts [OF leaf] d show ?thesis
    unfolding platform_vouched_def by blast
qed

interpretation platform: leaf_source platform_issue platform_vouched
  by unfold_locales (use platform_issue_Some in blast)+


definition sample_world :: trust_world where
  "sample_world =
     \<lparr>w_parse = sample_parse, w_status_answer = Done, w_status_secret = Some ''stored'',
      w_checks = verified, w_status_now = 6000, w_issue_answer = Done,
      w_issue_secret = Some ''stored'', w_key_ok = (\<lambda>_. True), w_timestamp_ok = (\<lambda>_. True),
      w_sign = (\<lambda>_ _. Inr (''cert'', ''key'')), w_issue_now = 6000000000\<rparr>"


end
