(* ===== verification/Engine_Runs.thy ===== *)
theory Engine_Runs
  imports Engine_Properties
begin

text \<open>
  Runs of the engine: any sequence of its operations, by whatever tasks. Ids are never given
  twice, only \<open>start\<close> changes the response rules, and a capture keeps its identity and class for as
  long as it is shown; once it is finished it is never changed again. The exchange path is
  composed of runs in the theories above.
\<close>

section \<open>Runs\<close>

abbreviation runs :: "u64 \<Rightarrow> 'h engine \<Rightarrow> 'h engine \<Rightarrow> bool" where
  "runs L \<equiv> (engine_step L)\<^sup>*\<^sup>*"

lemma runs_reachable: "engine_reachable L st \<Longrightarrow> runs L st st' \<Longrightarrow> engine_reachable L st'"
  unfolding engine_reachable_def by (rule rtranclp_trans)

lemma runs_step: "runs L a b \<Longrightarrow> engine_step L b c \<Longrightarrow> runs L a c"
  by (rule rtranclp.rtrancl_into_rtrancl)

text \<open>The replacements a rule can make are small enough to be measured.\<close>

definition rules_small :: "'h engine \<Rightarrow> bool" where
  "rules_small st \<longleftrightarrow> (\<forall>r \<in> set (response_rules st). \<forall>b. rr_body r = Some b \<longrightarrow> length b \<le> max_replacement)"

lemma compile_enabled_small:
  "compile_enabled H seen cs = Inr rs \<Longrightarrow> r \<in> set rs \<Longrightarrow> rr_body r = Some b \<Longrightarrow> length b \<le> max_replacement"
proof (induction H seen cs arbitrary: rs rule: compile_enabled.induct)
  case (2 H seen c cs)
  then obtain r0 rs0 where r0: "compile_rule H seen c = Inr r0"
    and rs: "compile_enabled H (rc_id c # seen) cs = Inr rs0" "rs = r0 # rs0"
    by (auto simp: and_then_Inr_iff)
  have "length b \<le> max_replacement" if "rr_body r0 = Some b"
  proof -
    obtain rep where rep: "compile_replacement_body H (rc_body c) (rc_content_type c) = Inr rep"
      and "rr_body r0 = map_option fst rep"
      using compile_rule_Inr(10) [OF r0] by blast
    with that show ?thesis by (cases rep) (auto dest: compile_replacement_body_Inr)
  qed
  with 2 rs show ?case by auto
qed simp

lemma truncate_keeps: "response_rules (truncate_traffic st) = response_rules st"
proof (induction st rule: truncate_traffic.induct)
  case (1 st)
  then show ?case
    by (subst truncate_traffic.simps) (simp add: evict_oldest_def count_evicted_def forget_def split: list.split)
qed

lemma start_rules_small:
  assumes "start_engine H c bound running st = Inr st'"
  shows "rules_small st'"
proof -
  obtain rules paths cls address where rules: "compile_all H (pc_response_rules c) = Inr rules"
    and st': "st' = install_config c address (paths, cls, rules) st"
    using assms
    by (auto simp: start_engine_def and_then_Inr_iff validate_config_def map_error_def
        split: if_splits option.splits sum.splits)
  have "response_rules st' = rules"
    by (simp add: st' install_config_def Let_def set_captures_def truncate_keeps bump_def)
  with rules show ?thesis
    by (auto simp: rules_small_def compile_all_def split: if_splits dest: compile_enabled_small)
qed

text \<open>Only \<open>start\<close> changes the rules, and ids are never given twice.\<close>

lemma exchange_fields [simp]:
  "response_rules (exchange_update i f st) = response_rules st"
  "next_id (exchange_update i f st) = next_id st"
  "response_rules (exchange_finish i error elapsed st) = response_rules st"
  "next_id (exchange_finish i error elapsed st) = next_id st"
  "response_rules (bump st) = response_rules st" "next_id (bump st) = next_id st"
  "response_rules (observed_frame is_response i elapsed ev st) = response_rules st"
  "next_id (observed_frame is_response i elapsed ev st) = next_id st"
  by (simp_all add: exchange_update_def exchange_finish_def bump_def observed_frame_def Let_def
      split: frame_event.split)

definition keeps_rules :: "'h engine \<Rightarrow> 'h engine \<Rightarrow> bool" where
  "keeps_rules st st' \<longleftrightarrow>
     next_id st \<le> next_id st' \<and> (response_rules st' = response_rules st \<or> rules_small st')"

lemma engine_step_keeps:
  assumes "engine_step L st st'"
  shows "keeps_rules st st'"
  using assms
proof cases
  case (op_begin A request cls profile origin now i)
  then show ?thesis
    by (auto simp: keeps_rules_def begin_exchange_def Let_def set_captures_def evict_oldest_def
        count_evicted_def forget_def split: if_splits option.splits list.splits)
next
  case (op_start H c bound running)
  then obtain compiled address where "st' = install_config c address compiled st"
    by (auto simp: start_engine_def and_then_Inr_iff split: if_splits option.splits)
  then have "next_id st' = next_id st"
    by (simp add: install_config_def Let_def set_captures_def truncate_fields split: prod.split)
  with start_rules_small [OF op_start(1)] show ?thesis by (simp add: keeps_rules_def)
next
  case (op_request_frame i elapsed ev buffer)
  then show ?thesis
    by (auto simp: keeps_rules_def request_frame_def Let_def split: frame_event.split option.split)
next
  case (op_replace t a replacement A http2 i code h storage elapsed)
  then show ?thesis
    by (auto simp: keeps_rules_def replace_response_def Let_def split: prod.split option.split sum.split)
next
  case (op_replay_begin i token t)
  then show ?thesis
    by (auto simp: keeps_rules_def replay_begin_def and_then_Inr_iff split: option.splits)
qed (auto simp: keeps_rules_def listener_end_def reject_connection_def clear_engine_def exchange_drop_def
    refuse_def open_request_capture_def request_stored_def apply_rule_def open_breakpoint_def
    close_breakpoint_def abandon_breakpoint_def resolve_breakpoint_def pass_response_def
    replay_end_def claim_token_def Let_def split: option.split sum.split)

lemma keeps_rules_trans: "keeps_rules a b \<Longrightarrow> keeps_rules b c \<Longrightarrow> keeps_rules a c"
  by (auto simp: keeps_rules_def rules_small_def)

interpretation rules: run_order "engine_step L" keeps_rules for L
  by unfold_locales (simp add: keeps_rules_def, rule keeps_rules_trans, assumption+, rule engine_step_keeps)

lemma reachable_rules_small: "engine_reachable L st \<Longrightarrow> rules_small st"
  using rules.run_related [of L default_engine st]
  by (auto simp: engine_reachable_def keeps_rules_def rules_small_def default_engine_def)

text \<open>Every capture shown later is new, with a later id, or one that was shown before.\<close>

definition succeeds :: "'h engine \<Rightarrow> 'h engine \<Rightarrow> bool" where
  "succeeds st st' \<longleftrightarrow> next_id st \<le> next_id st'
     \<and> (\<forall>c' \<in> set (traffic st'). next_id st \<le> cap_id c' \<or> (\<exists>c \<in> set (traffic st). evolves c c'))"

lemma succeeds_trans:
  assumes "succeeds a b" and "succeeds b c"
  shows "succeeds a c"
proof -
  have "next_id a \<le> cap_id z \<or> (\<exists>x \<in> set (traffic a). evolves x z)"
    if z: "z \<in> set (traffic c)" for z
  proof (cases "next_id b \<le> cap_id z")
    case True
    with assms(1) show ?thesis by (simp add: succeeds_def)
  next
    case False
    with assms(2) z obtain y where y: "y \<in> set (traffic b)" "evolves y z" by (auto simp: succeeds_def)
    then have "cap_id z = cap_id y" by (simp add: evolves_def)
    with assms(1) y show ?thesis by (auto simp: succeeds_def intro: evolves_trans)
  qed
  with assms show ?thesis by (simp add: succeeds_def)
qed

lemma engine_step_succeeds: "engine_step L st st' \<Longrightarrow> succeeds st st'"
  using engine_step_descends [of L st st'] engine_step_keeps [of L st st']
  by (fastforce simp: succeeds_def descends_def keeps_rules_def list_all_iff list_ex_iff)

interpretation succession: run_order "engine_step L" succeeds for L
proof unfold_locales
  show "succeeds st st" for st :: "'h engine" by (auto simp: succeeds_def intro: evolves_refl)
qed (rule succeeds_trans, assumption+, rule engine_step_succeeds)

lemma find_capture_distinct:
  "distinct (map cap_id cs) \<Longrightarrow> c \<in> set cs \<Longrightarrow> cap_id c = i \<Longrightarrow> find_capture i cs = Some c"
  by (induction cs) (auto simp: image_iff)

text \<open>A run neither brings an earlier capture back nor changes the class of one.\<close>

lemma runs_class:
  assumes "engine_reachable L st" and "runs L st st'" and "i < next_id st"
    and "find_capture i (traffic st') = Some c'"
  shows "\<exists>c. find_capture i (traffic st) = Some c \<and> cap_class c' = cap_class c"
proof -
  have c': "c' \<in> set (traffic st')" "cap_id c' = i" using find_capture_Some [OF assms(4)] by simp_all
  then obtain c where c: "c \<in> set (traffic st)" "cap_id c = i" "cap_class c' = cap_class c"
    using succession.run_related [OF assms(2)] assms(3) by (fastforce simp: succeeds_def evolves_def)
  have "distinct (map cap_id (traffic st))"
    using engine_reachable_inv [OF assms(1)] by (simp add: engine_inv_def traffic_ok_def strict_sorted_iff)
  from find_capture_distinct [OF this c(1,2)] c(3) show ?thesis by blast
qed

section \<open>Captures are never rewritten\<close>

text \<open>
  C3: an exchange ends once. Whatever operations run, in whatever order, every capture that is
  still shown was either begun meanwhile, with a fresh id, or is the same capture as before: its
  id, class, client, origin and start never change, and once it is complete or failed its outcome,
  error and duration never change again. So a late interruption cannot turn a finished exchange
  into a failed one.
\<close>

theorem captures_evolve:
  assumes "(engine_step L)\<^sup>*\<^sup>* st st'" and "c' \<in> set (traffic st')"
  shows "next_id st \<le> cap_id c'
    \<or> (\<exists>c \<in> set (traffic st). cap_id c' = cap_id c \<and> cap_class c' = cap_class c
        \<and> cap_replay_of c' = cap_replay_of c \<and> cap_profile c' = cap_profile c
        \<and> cap_started_at c' = cap_started_at c
        \<and> (cap_phase c \<noteq> ''pending'' \<longrightarrow>
              cap_phase c' = cap_phase c \<and> cap_error c' = cap_error c
              \<and> cap_duration_ms c' = cap_duration_ms c))"
  using succession.run_related [OF assms(1)] assms(2) by (fastforce simp: succeeds_def evolves_def)

theorem captures_evolve_witness:
  "cap_phase (hd (traffic (exchange_drop 1 5 (exchange_finish 1 None 3 one_capture)))) = ''complete''"
proof -
  let ?c = "new_capture list_headers 1 (sample_request ''a.test'') Development None None 0"
  let ?st = "exchange_finish 1 None 3 one_capture"
  have before: "traffic ?st = [finish_capture None 3 ?c]" and fresh: "next_id ?st = 2"
    by (simp_all add: exchange_finish_def one_capture_traffic one_capture_def begin_exchange_def
        Let_def default_engine_def set_captures_def new_capture_def exchange_update_def bump_def
        split: option.split)
  have phase: "cap_phase (finish_capture None 3 ?c) = ''complete''"
    and i: "cap_id (finish_capture None 3 ?c) = 1"
    by (simp_all add: finish_capture_def new_capture_def)
  have after: "traffic (exchange_drop 1 5 ?st)
      = [finish_capture (Some ''Transfer interrupted, cancelled or timed out.'') 5
          (finish_capture None 3 ?c)]"
    using i by (simp add: exchange_drop_def exchange_finish_def exchange_update_def bump_def
        before [unfolded exchange_finish_def exchange_update_def bump_def, simplified])
  have "cap_id (hd (traffic (exchange_drop 1 5 ?st))) = 1"
    using after i by (simp add: finish_capture_def)
  with captures_evolve [OF r_into_rtranclp [of "engine_step 100", OF op_drop [of 100 ?st 1 5]], of "hd (traffic (exchange_drop 1 5 ?st))"]
  show ?thesis using before fresh phase after by simp
qed

end
