(* ===== verification/Exchange_Properties.thy ===== *)
theory Exchange_Properties
  imports Engine_Runs
begin

text \<open>
  What one exchange is promised: who is admitted, where a request may go and with which headers,
  what a breakpoint and a rule may change, what is captured of a request body, and how replay
  tokens are used; and two places where the code leaves something behind.
\<close>

section \<open>Admission and replay\<close>

lemma map_of_delete_same [simp]: "map_of (AList.delete k m) k = None"
  by (simp add: AList.delete_conv)

text \<open>
  C34: a request is admitted only with the configured client's credentials, with none configured,
  or with a live replay token, and as a replay only to a Development destination. It is classified
  by the current rules; the internal header never travels on, and a token is used up whatever the
  outcome.
\<close>

theorem admit_requires_authority:
  assumes "headers_documented A"
    and "admit A sha b64 auth request st = (Inr (request', ad), st')"
  shows "ad_class ad = classify (classifier st) (case u_host (rq_uri request) of None \<Rightarrow> '''' | Some h \<Rightarrow> h)
    \<and> hm_get_all A (rq_headers request') internal_replay_header = []
    \<and> (case Option.bind (internal_token A (rq_headers request)) (map_of (replay_tokens st)) of
         Some r \<Rightarrow> ad_replay_of ad = Some (ra_origin_id r) \<and> ad_profile ad = ra_profile r
           \<and> ad_class ad = Development
       | None \<Rightarrow> ad_replay_of ad = None
           \<and> (case auth of None \<Rightarrow> ad_profile ad = None
              | Some a \<Rightarrow> ad_profile ad = Some (auth_profile_id a)
                  \<and> accepts A sha b64 a (rq_headers request')))
    \<and> (\<forall>k. internal_token A (rq_headers request) = Some k \<longrightarrow> map_of (replay_tokens st') k = None)"
proof -
  have lower: "to_ascii_lowercase internal_replay_header = internal_replay_header" by code_simp
  obtain replay st1 where c: "claim_token (internal_token A (rq_headers request)) st = (replay, st1)"
    by fastforce
  then have r: "replay = Option.bind (internal_token A (rq_headers request)) (map_of (replay_tokens st))"
    and cls: "classifier st1 = classifier st"
    and gone: "internal_token A (rq_headers request) = Some k \<Longrightarrow> map_of (replay_tokens st1) k = None" for k
    by (auto simp: claim_token_def split: option.splits)
  from assms(2) c have st': "st' = st1"
    and req: "request' = request\<lparr>rq_headers := hm_remove A internal_replay_header (rq_headers request)\<rparr>"
    by (auto simp: admit_def Let_def split: option.splits if_splits)
  have "hm_get_all A (rq_headers request') internal_replay_header = []"
    by (simp add: req get_all_remove [OF assms(1)] lower)
  with assms(2) c cls gone st' show ?thesis unfolding r [symmetric]
    by (auto simp: admit_def Let_def authorize_ok_iff split: option.splits if_splits)
qed

theorem admit_requires_authority_witness:
  "\<exists>request' ad st'. admit list_headers id (\<lambda>_. None) None (sample_request ''a.test'') default_engine
     = (Inr (request', ad), st') \<and> ad_replay_of ad = None"
proof -
  obtain r st' where a: "admit list_headers id (\<lambda>_. None) None (sample_request ''a.test'')
      (default_engine :: (string \<times> bytes) list engine) = (r, st')" by fastforce
  moreover have "is_ok (fst (admit list_headers id (\<lambda>_. None) None (sample_request ''a.test'')
      (default_engine :: (string \<times> bytes) list engine)))" by code_simp
  ultimately obtain request' ad where r: "r = Inr (request', ad)"
    by (auto simp: is_ok_def split: sum.splits)
  have "internal_token list_headers (rq_headers (sample_request ''a.test'')) = None" by code_simp
  with admit_requires_authority [OF list_headers_documented a [unfolded r]] have "ad_replay_of ad = None"
    by simp
  with a r show ?thesis by blast
qed

lemma admit_with_token:
  assumes "internal_token A (rq_headers request) = Some k"
    and "map_of (replay_tokens st) k = Some \<lparr>ra_origin_id = i, ra_profile = profile\<rparr>"
    and "classify (classifier st) (case u_host (rq_uri request) of None \<Rightarrow> '''' | Some h \<Rightarrow> h) = Development"
  shows "admit A sha b64 auth request st =
    (Inr (request\<lparr>rq_headers := hm_remove A internal_replay_header (rq_headers request)\<rparr>,
          \<lparr>ad_class = Development, ad_profile = profile, ad_replay_of = Some i\<rparr>), replay_end k st)"
  using assms by (simp add: admit_def claim_token_def replay_end_def authorize_def Let_def is_ok_def)

lemma admit_spent_token:
  assumes "internal_token A (rq_headers request) = Some k" and "map_of (replay_tokens st) k = None"
    and "\<not> accepts A sha b64 a (hm_remove A internal_replay_header (rq_headers request))"
  shows "fst (admit A sha b64 (Some a) request st) = Inl (407, ''Valid proxy client credentials are required.'')"
  using assms by (simp add: admit_def claim_token_def Let_def)


definition replayable :: "(string \<times> bytes) list engine" where
  "replayable = (exchange_finish 1 None 5 one_capture)
     \<lparr>status := default_engine_status\<lparr>es_phase := Running\<rparr>,
      classifier := default_classifier\<lparr>development := [Exact ''a.test'']\<rparr>\<rparr>"


section \<open>Where requests go\<close>

text \<open>The proxy never connects to itself, whatever name resolution answers.\<close>

lemma upstream_never_loops:
  assumes "upstream_addresses resolved proxy_port = Inr addresses"
  shows "addresses \<noteq> [] \<and> length addresses \<le> 16 \<and> (\<exists>rest. resolved = Some (addresses @ rest))
    \<and> (\<forall>a \<in> set addresses. snd a = proxy_port \<longrightarrow>
         \<not> is_loopback (to_canonical (fst a)) \<and> \<not> is_unspecified (to_canonical (fst a)))"
  using assms
  by (auto simp: upstream_addresses_def Let_def routes_back_def list_ex_iff
      intro: append_take_drop_id [symmetric] split: option.splits if_splits)

text \<open>
  The head sent upstream is pinned to the authority the request was admitted for: one
  \<open>Host\<close> header with exactly that value, no hop-by-hop header (so no proxy credentials), all other
  headers unchanged, and on HTTP/2 an \<open>https\<close> target with the same authority.
\<close>

lemma outgoing_request_pinned:
  assumes "headers_documented A"
    and "outgoing_request A path_ok target_ok value_ok http2 authority request = Inr out"
  shows "hm_get_all A (og_headers out) ''host'' = [authority]
    \<and> hm_get_all A (og_headers out) ''proxy-authorization'' = []
    \<and> (m \<noteq> ''host'' \<longrightarrow> hm_get_all A (og_headers out) m
         = (if stripped_name A (rq_headers request) m then [] else hm_get_all A (rq_headers request) m))
    \<and> og_authority out = (if http2 then Some authority else None)
    \<and> og_path out = (case u_path_and_query (rq_uri request) of None \<Rightarrow> ''/'' | Some p \<Rightarrow> p)"
proof -
  have "to_ascii_lowercase ''host'' = ''host''" "''proxy-authorization'' \<in> set hop_headers" by code_simp+
  with assms(2) show ?thesis
    by (auto simp: outgoing_request_def Let_def get_all_insert [OF assms(1)] get_all_strip [OF assms(1)]
        stripped_name_def split: if_splits)
qed

lemma outgoing_request_pinned_witness:
  "\<exists>out. outgoing_request list_headers (\<lambda>_. True) (\<lambda>_ _. True) (\<lambda>_. True) False ''a.test'' (sample_request ''a.test'') = Inr out
     \<and> hm_get_all list_headers (og_headers out) ''host'' = [''a.test'']"
proof -
  obtain out where o: "outgoing_request list_headers (\<lambda>_. True) (\<lambda>_ _. True) (\<lambda>_. True) False ''a.test''
      (sample_request ''a.test'') = Inr out" by (simp add: outgoing_request_def Let_def)
  from outgoing_request_pinned [OF list_headers_documented o] o show ?thesis by blast
qed

section \<open>Rules and breakpoints\<close>

text \<open>
  A response is changed only where changing is allowed. For a capture that is not
  Development, or no longer shown, the rule step and the breakpoint step are the identity; for a
  Development capture the first matching rule of the configured list decides the status and the
  body, and the original status is kept with the capture.
\<close>

lemma response_changes_authorized:
  assumes "engine_reachable L st"
  shows "(case find_capture i (traffic st) of
      Some c \<Rightarrow> cap_class c \<noteq> Development
        \<longrightarrow> apply_rule i host path method original st = (original, None, st)
          \<and> open_breakpoint i original st = (False, st)
    | None \<Rightarrow> apply_rule i host path method original st = (original, None, st)
        \<and> open_breakpoint i original st = (False, st))
    \<and> (\<forall>code body st'. apply_rule i host path method original st = (code, body, st')
        \<longrightarrow> st' \<noteq> st \<longrightarrow>
        (\<exists>r c'. find (\<lambda>r. rule_matches r (rule_host host) path method) (response_rules st) = Some r
          \<and> code = rr_status r \<and> map_option fst body = rr_body r
          \<and> find_capture i (traffic st') = Some c' \<and> cap_original_status c' = Some original
          \<and> cap_rule_id c' = Some (rr_id r)))"
proof -
  have upd: "find_capture i (update_capture i f cs) = map_option f (find_capture i cs)"
    if "\<And>c. cap_id (f c) = cap_id c" for f cs
    using that by (induction cs) auto
  have "\<exists>r c'. find (\<lambda>r. rule_matches r (rule_host host) path method) (response_rules st) = Some r
          \<and> code = rr_status r \<and> map_option fst body = rr_body r
          \<and> find_capture i (traffic st') = Some c' \<and> cap_original_status c' = Some original
          \<and> cap_rule_id c' = Some (rr_id r)"
    if a: "apply_rule i host path method original st = (code, body, st')" and "st' \<noteq> st" for code body st'
  proof -
    from that obtain r where m: "may_modify i st"
      and r: "find (\<lambda>r. rule_matches r (rule_host host) path method) (response_rules st) = Some r"
      by (auto simp: apply_rule_def select_rule_def split: option.splits if_splits)
    from m obtain c where "find_capture i (traffic st) = Some c"
      by (auto simp: may_modify_def split: option.splits)
    with a m r show ?thesis
      by (auto simp: apply_rule_def select_rule_def upd option.map_comp comp_def option.map_ident)
  qed
  then show ?thesis
    by (auto simp: apply_rule_def open_breakpoint_def may_modify_def authorize_ok_iff split: option.split)
qed

lemma response_changes_authorized_witness:
  "open_breakpoint 7 200 one_capture = (False, one_capture)"
  using response_changes_authorized [OF one_capture_reachable, of 7 _ _ _ 200]
  by (simp add: one_capture_traffic)

lemma compile_decision_Inr:
  assumes "http_documented H" and d: "compile_decision H wanted body ct = Inr d"
  shows "\<forall>n. bd_status d = Some n \<longrightarrow> wanted = Some n \<and> 200 \<le> n \<and> n \<le> 599"
    and "bd_body d = body \<and> (bd_content_type d = None) = (body = None)
      \<and> (\<forall>b. body = Some b \<longrightarrow> length b \<le> 65536)"
proof -
  show "\<forall>n. bd_status d = Some n \<longrightarrow> wanted = Some n \<and> 200 \<le> n \<and> n \<le> 599"
  proof (intro allI impI)
    fix n
    assume "bd_status d = Some n"
    with d obtain m where "wanted = Some m" "replacement_status H m = Some n"
      by (auto simp: compile_decision_def result_simps bind_eq_Some_conv split: option.splits)
    with replacement_status_range [OF assms(1)] show "wanted = Some n \<and> 200 \<le> n \<and> n \<le> 599" by auto
  qed
  show "bd_body d = body \<and> (bd_content_type d = None) = (body = None)
      \<and> (\<forall>b. body = Some b \<longrightarrow> length b \<le> 65536)"
    using d
    by (auto simp: compile_decision_def result_simps compile_replacement_body_def Let_def
        max_replacement_def split: option.splits if_splits)
qed

text \<open>
  C36: a waiting breakpoint is decided at most once and only by a valid decision. An invalid
  replacement leaves it waiting; a valid one is delivered with a status of 200 to 599, a body of
  at most 65536 bytes and a content type exactly when there is a body; afterwards the same
  breakpoint is gone.
\<close>

theorem breakpoint_resolved_once:
  assumes "http_documented H"
    and "resolve_breakpoint H i wanted body ct st = (r, st')"
  shows "case r of
      Inr d \<Rightarrow> map_of (breakpoints st) i = Some True
        \<and> (\<forall>n. bd_status d = Some n \<longrightarrow> wanted = Some n \<and> 200 \<le> n \<and> n \<le> 599)
        \<and> bd_body d = body \<and> (bd_content_type d = None) = (body = None)
        \<and> (\<forall>b. body = Some b \<longrightarrow> length b \<le> 65536)
        \<and> fst (resolve_breakpoint H i wanted body ct st') = Inl BreakpointGone
    | Inl e \<Rightarrow> st' = st \<or> e = BreakpointClosed \<and> map_of (breakpoints st) i = Some False"
proof (cases "compile_decision H wanted body ct")
  case (Inl e)
  with assms(2) have "r = Inl e" "st' = st" by (simp_all add: resolve_breakpoint_def)
  then show ?thesis by simp
next
  case (Inr d)
  show ?thesis
  proof (cases "map_of (breakpoints st) i")
    case None
    with assms(2) Inr show ?thesis by (auto simp: resolve_breakpoint_def)
  next
    case (Some waiting)
    with assms(2) Inr have "r = (if waiting then Inr d else Inl BreakpointClosed)"
      and "map_of (breakpoints st') i = None"
      by (auto simp: resolve_breakpoint_def)
    with Inr Some compile_decision_Inr [OF assms(1) Inr] show ?thesis
      by (simp add: resolve_breakpoint_def)
  qed
qed

theorem breakpoint_resolved_once_witness:
  "fst (resolve_breakpoint reference_http 1 (Some 503) None None
     (snd (resolve_breakpoint reference_http 1 (Some 503) None None
        (one_capture\<lparr>breakpoints := [(1, True)]\<rparr>)))) = Inl BreakpointGone"
proof -
  let ?st = "one_capture\<lparr>breakpoints := [(1, True)]\<rparr>"
  obtain r st' where rs: "resolve_breakpoint reference_http 1 (Some 503) None None ?st = (r, st')"
    by fastforce
  moreover have "is_ok (fst (resolve_breakpoint reference_http 1 (Some 503) None None ?st))" by code_simp
  ultimately show ?thesis
    using breakpoint_resolved_once [OF reference_http_documented rs]
    by (auto simp: is_ok_def split: sum.splits)
qed

section \<open>What is captured of a request body\<close>

text \<open>The frames of one request body in order, with what is handed to the storing task.\<close>

fun request_frames ::
  "nat \<Rightarrow> nat \<Rightarrow> frame_event list \<Rightarrow> bytes option \<Rightarrow> 'h engine \<Rightarrow> bytes option list \<times> bytes option \<times> 'h engine" where
  "request_frames i elapsed [] buffer st = ([], buffer, st)"
| "request_frames i elapsed (ev # evs) buffer st =
     (let (buffer', document, st') = request_frame i elapsed ev buffer st;
          (documents, rest) = request_frames i elapsed evs buffer' st'
      in (document # documents, rest))"

lemma request_frames_None:
  "fst (request_frames i elapsed evs None st) = replicate (length evs) None"
proof (induction evs arbitrary: st)
  case (Cons ev evs)
  have "fst (request_frame i elapsed ev None st) = None
      \<and> fst (snd (request_frame i elapsed ev None st)) = None"
    by (cases ev) (auto simp: request_frame_def Let_def take_capture_def)
  with Cons show ?case by (simp add: split_beta Let_def)
qed simp

lemma request_frames_data:
  "length b + length (concat chunks) \<le> max_request_capture \<Longrightarrow>
   fst (request_frames i elapsed (map (\<lambda>c. Data c False) chunks @ [Body_End]) (Some b) st)
     = replicate (length chunks) None @ [take_capture (Some (b @ concat chunks))]"
proof (induction chunks arbitrary: b st)
  case Nil
  then show ?case by (simp add: request_frame_def Let_def)
next
  case (Cons c chunks)
  then have "fst (request_frame i elapsed (Data c False) (Some b) st) = Some (b @ c)"
    and "fst (snd (request_frame i elapsed (Data c False) (Some b) st)) = None"
    by (simp_all add: request_frame_def Let_def)
  with Cons.IH [of "b @ c"] Cons.prems show ?case by (simp add: split_beta Let_def)
qed

lemma request_frames_over:
  "max_request_capture < length b + length (concat chunks) \<Longrightarrow> length b \<le> max_request_capture \<Longrightarrow>
   fst (request_frames i elapsed (map (\<lambda>c. Data c False) chunks @ [Body_End]) (Some b) st)
     = replicate (length chunks) None @ [None]"
proof (induction chunks arbitrary: b st)
  case (Cons c chunks)
  show ?case
  proof (cases "length b + length c \<le> max_request_capture")
    case True
    then have "fst (request_frame i elapsed (Data c False) (Some b) st) = Some (b @ c)"
      and "fst (snd (request_frame i elapsed (Data c False) (Some b) st)) = None"
      by (simp_all add: request_frame_def Let_def)
    with Cons.IH [of "b @ c"] Cons.prems True show ?thesis by (simp add: split_beta Let_def)
  next
    case False
    then have "fst (request_frame i elapsed (Data c False) (Some b) st) = None"
      and "fst (snd (request_frame i elapsed (Data c False) (Some b) st)) = None"
      by (simp_all add: request_frame_def Let_def)
    then show ?thesis
      using request_frames_None [of i elapsed "map (\<lambda>c. Data c False) chunks @ [Body_End]"]
      by (simp add: split_beta Let_def replicate_append_same)
  qed
qed simp

lemma request_frames_failed:
  "fst (request_frames i elapsed (map (\<lambda>c. Data c False) chunks @ [Body_Failed]) buffer st)
     = replicate (Suc (length chunks)) None"
proof (induction chunks arbitrary: buffer st)
  case Nil
  then show ?case by (simp add: request_frame_def Let_def)
next
  case (Cons c chunks)
  have "fst (snd (request_frame i elapsed (Data c False) buffer st)) = None"
    by (auto simp: request_frame_def Let_def split: option.split prod.split)
  with Cons show ?case by (simp add: split_beta Let_def)
qed

text \<open>No frame changes the state of the body that a capture shows; only the storing task does.\<close>

definition body_states :: "'h engine \<Rightarrow> string list" where
  "body_states st = map cap_request_body_state (traffic st)"

lemma map_update_capture:
  "(\<And>c. g (f c) = g c) \<Longrightarrow> map g (update_capture i f cs) = map g cs"
  by (induction cs) auto

lemma body_states_update [simp]:
  "(\<And>c. cap_request_body_state (f c) = cap_request_body_state c) \<Longrightarrow>
   body_states (exchange_update i f st) = body_states st"
  "body_states (exchange_finish i error elapsed st) = body_states st"
  by (simp_all add: body_states_def exchange_update_def exchange_finish_def bump_def finish_capture_def
      map_update_capture)

lemma body_states_frame: "body_states (snd (snd (request_frame i elapsed ev buffer st))) = body_states st"
  by (auto simp: request_frame_def observed_frame_def add_request_bytes_def add_response_bytes_def Let_def
      split: frame_event.split option.split)

lemma body_states_frames: "body_states (snd (snd (request_frames i elapsed evs buffer st))) = body_states st"
proof (induction evs arbitrary: buffer st)
  case (Cons ev evs)
  with body_states_frame [of i elapsed ev buffer st] show ?case by (simp add: split_beta Let_def)
qed simp


section \<open>What is left behind\<close>

lemma reserve_fits:
  fixes u l :: u64
  assumes "n < 2 ^ 64" and "unat u + n \<le> unat l"
  shows "reserve u (of_nat n) l = Some (u + of_nat n)"
proof -
  have n: "unat (of_nat n :: u64) = n" using assms(1) by (simp add: unsigned_of_nat take_bit_eq_mod)
  have "checked_add u (of_nat n) = Some (u + of_nat n)"
    using assms(2) n unat_u64_less [of l] by (simp add: checked_add_def)
  moreover have "u + of_nat n \<le> l"
    using checked_add_Some [OF calculation] assms(2) n by (simp add: word_le_nat_alt)
  ultimately show ?thesis by (simp add: reserve_def)
qed

lemma store_complete_recorded:
  assumes "maps_ok s" and "tickets s t = None" and "heap s a = None"
    and "length bytes < 2 ^ 64" and "unat (used s) + length bytes \<le> unat most"
    and c: "store_complete i t a bytes most Written s = (r, s')"
  shows "r = Some (Inr ()) \<and> addr Response_Side i s' = Some a"
  using c unfolding store_complete_def
proof (cases rule: store_bytes_cases)
  case full
  with reserve_fits [OF assms(4,5)] show ?thesis by simp
next
  case (room s1)
  have "maps_ok s1" using assms(1) room by (simp add: maps_ok_def addr_def)
  then have "lookup Response_Side i s' \<noteq> None"
    using room assms(3) lookup_commit [of s1 t _ a Response_Side i] by simp
  moreover have "addr Response_Side i (store_commit Response_Side i t a b l e s1) = Some a" for b l e
    using room(2) by (simp add: store_commit_def Let_def addr_def insert_entry_def AList.update_conv
        split: option.split)
  ultimately show ?thesis using room by simp
qed

lemma update_missing: "find_capture i cs = None \<Longrightarrow> update_capture i f cs = cs"
  by (induction cs) (auto split: if_splits)

text \<open>
  C38: a replaced response is stored without looking whether its capture is still shown. When
  Clear or an eviction removed it while the exchange was at its breakpoint, the stored body is
  recorded under an id that no capture has: no eviction will remove it.
\<close>

theorem replaced_body_outlives_capture:
  assumes "engine_reachable L st" and "capture_bodies st" and "i \<notin> cap_ids (traffic st)"
    and "tickets (bodies st) t = None" and "heap (bodies st) a = None"
    and "length (fst replacement) < 2 ^ 64"
    and "unat (used (bodies st)) + length (fst replacement) \<le> unat (body_budget st)"
    and "replace_response A http2 i code replacement h t a Written elapsed st = (head, st')"
  shows "i \<in> recorded Response_Side (bodies st') \<and> i \<notin> cap_ids (traffic st')"
proof -
  have "find_capture i (traffic st) = None"
    using assms(3) find_capture_Some [of i "traffic st"]
    by (cases "find_capture i (traffic st)") (auto simp: cap_ids_def)
  note same = update_missing [OF this]
  obtain r s where c: "store_complete i t a (fst replacement) (body_budget st) Written (bodies st) = (r, s)"
    by fastforce
  have "maps_ok (bodies st)"
    using engine_reachable_inv [OF assms(1)] by (simp add: engine_inv_def store_inv_def)
  from store_complete_recorded [OF this assms(4-7) c] show ?thesis
    using assms(2,3,8) c
    by (auto simp: replace_response_def Let_def exchange_finish_def same recorded_def)
qed

definition capturing :: "(string \<times> bytes) list engine" where
  "capturing = install_config (default_config\<lparr>pc_capture_bodies := True, body_disk_budget := 100\<rparr>)
     (''127.0.0.1'', 8080) ([], default_classifier, []) default_engine"

lemma capturing_reachable: "engine_reachable 100 capturing"
proof -
  let ?c = "default_config\<lparr>pc_capture_bodies := True, body_disk_budget := 100\<rparr>"
  have "validate_config reference_http ?c = Inr ([], default_classifier, [])" by code_simp
  then have "start_engine reference_http ?c (Some (''127.0.0.1'', 8080)) False default_engine = Inr capturing"
    by (simp add: start_engine_def capturing_def)
  then have "engine_step 100 default_engine capturing"
    by (rule op_start) simp
  then show ?thesis unfolding engine_reachable_def by (rule r_into_rtranclp)
qed

lemma capturing_fields:
  "capture_bodies capturing" "traffic capturing = []" "bodies capturing = shared_pair"
  "body_budget capturing = 100"
  by (simp_all add: capturing_def install_config_def set_captures_def default_engine_def
      truncate_traffic.simps default_config_def)

theorem replaced_body_outlives_capture_witness:
  "9 \<in> recorded Response_Side (bodies (snd (replace_response list_headers False 9 200 (''body'', None)
     [] 0 0 Written 5 capturing)))"
proof -
  obtain head st' where r: "replace_response list_headers False 9 200 (''body'', None) [] 0 0 Written 5
      capturing = (head, st')" by fastforce
  with replaced_body_outlives_capture [OF capturing_reachable _ _ _ _ _ _ r] show ?thesis
    by (simp add: capturing_fields cap_ids_def shared_pair_def)
qed

end
