(* ===== verification/Tunnel.thy ===== *)
theory Tunnel
  imports Interception Exchange_Properties
begin

text \<open>
  CONNECT tunnels (\<open>crates/engine/src/proxy/tunnel.rs\<close>): establishing one, the outcomes of running
  it, the requests inside an inspected one, and the byte counts of an opaque one. Name
  resolution, connections, upgrades and handshakes are arguments.
\<close>

section \<open>Establishing\<close>

record tunnel =
  tn_exchange :: nat
  tn_authority :: string
  tn_class :: destination_class
  tn_profile :: "string option"
  tn_route :: "(string \<times> issued_leaf) option"

definition connect_upstream ::
  "(ip_addr \<times> nat) list option \<Rightarrow> nat \<Rightarrow> ((ip_addr \<times> nat) list \<Rightarrow> bool) \<Rightarrow> refusal + (ip_addr \<times> nat) list" where
  "connect_upstream resolved proxy_port connects =
     and_then (upstream_addresses resolved proxy_port) (\<lambda>addresses.
       if connects addresses then Inr addresses else Inl (502, ''Upstream connection failed.''))"

text \<open>
  \<open>tls\<close> is \<open>prepare\<close> of the configured interception, \<open>slot\<close> whether the connection's slot still
  holds its sender, \<open>owner\<close> whether the connection task still waits for the tunnel.
\<close>

definition establish ::
  "'h header_api \<Rightarrow> string \<Rightarrow> nat option \<Rightarrow> 'h request \<Rightarrow> (string \<Rightarrow> 'e + (string \<times> issued_leaf) option) option
     \<Rightarrow> (string \<Rightarrow> nat \<Rightarrow> (ip_addr \<times> nat) list option) \<Rightarrow> nat \<Rightarrow> ((ip_addr \<times> nat) list \<Rightarrow> bool) \<Rightarrow> bool \<Rightarrow> bool
     \<Rightarrow> nat \<Rightarrow> destination_class \<Rightarrow> string option \<Rightarrow> 'h engine \<Rightarrow> (refusal + tunnel) \<times> 'h engine" where
  "establish A host port request tls resolve proxy_port connects slot owner i class profile st =
     (case connect_target A host port request of
        Inl r \<Rightarrow> (Inl r, st)
      | Inr (h, p) \<Rightarrow>
     (case (case tls of
              None \<Rightarrow> Inr None
            | Some prep \<Rightarrow> map_error (\<lambda>_. (502, ''TLS interception preparation failed.'')) (prep h)) of
        Inl r \<Rightarrow> (Inl r, st)
      | Inr route \<Rightarrow>
     (case connect_upstream (resolve h p) proxy_port connects of
        Inl r \<Rightarrow> (Inl r, st)
      | Inr _ \<Rightarrow>
          if \<not> slot then (Inl (500, ''Tunnel owner is unavailable.''), st)
          else (let st1 = exchange_update i (\<lambda>c. c\<lparr>cap_status := Some 200\<rparr>) st;
                    st2 = (if route \<noteq> None then exchange_update i (\<lambda>c. c\<lparr>cap_kind := ''tls''\<rparr>) st1 else st1);
                    st3 = bump st2
                in if \<not> owner then (Inl (503, ''Proxy is stopping.''), st3)
                   else (Inr \<lparr>tn_exchange = i,
                              tn_authority = (case u_authority (rq_uri request) of None \<Rightarrow> '''' | Some a \<Rightarrow> a),
                              tn_class = class, tn_profile = profile, tn_route = route\<rparr>, st3)))))"

section \<open>Running\<close>

datatype tunnel_outcome =
    Upgrade_Lost | Tls_Lost tls_error | Upstream_Http_Lost bool | Inner_Served | Inner_Failed
  | Lifetime_Over | Transfer_Done | Transfer_Failed

text \<open>How serving a connection, or copying between two, ends within the lifetime of the tunnel.\<close>

datatype served = Served | Serving_Failed | Serving_Elapsed

text \<open>
  \<open>tls\<close> establishes the two verified connections of an inspected route, \<open>upstream_http\<close> whether the
  HTTP handshake with the server succeeds, \<open>inner\<close> how the client's connection is served (both
  given whether HTTP/2 was negotiated), \<open>copying\<close> how the transfer of an opaque tunnel ends.
\<close>

definition tunnel_run ::
  "bool \<Rightarrow> (string \<Rightarrow> issued_leaf \<Rightarrow> tls_error + bytes option) \<Rightarrow> (bool \<Rightarrow> bool) \<Rightarrow> (bool \<Rightarrow> served) \<Rightarrow> served
     \<Rightarrow> tunnel \<Rightarrow> tunnel_outcome" where
  "tunnel_run upgraded tls upstream_http inner copying tn =
     (if \<not> upgraded then Upgrade_Lost
      else case tn_route tn of
        Some (host, leaf) \<Rightarrow>
          (case tls host leaf of
             Inl e \<Rightarrow> Tls_Lost e
           | Inr protocol \<Rightarrow>
               (let http2 = (protocol = Some http2_alpn)
                in if \<not> upstream_http http2 then Upstream_Http_Lost http2
                   else case inner http2 of
                     Served \<Rightarrow> Inner_Served
                   | Serving_Failed \<Rightarrow> Inner_Failed
                   | Serving_Elapsed \<Rightarrow> Lifetime_Over))
      | None \<Rightarrow>
          (case copying of
             Served \<Rightarrow> Transfer_Done
           | Serving_Failed \<Rightarrow> Transfer_Failed
           | Serving_Elapsed \<Rightarrow> Lifetime_Over))"

definition tunnel_message :: "tunnel_outcome \<Rightarrow> string option" where
  "tunnel_message outcome =
     (case outcome of
        Upgrade_Lost \<Rightarrow> Some ''CONNECT upgrade failed or timed out.''
      | Tls_Lost e \<Rightarrow>
          Some (if e = UnsupportedApplicationProtocol
                then ''TLS peers did not negotiate the required HTTP/1.1 protocol.''
                else ''Verified TLS handshakes failed.'')
      | Upstream_Http_Lost http2 \<Rightarrow>
          Some (if http2 then ''Upstream HTTPS HTTP/2 handshake failed.''
                else ''Upstream HTTPS HTTP/1 handshake failed.'')
      | Inner_Served \<Rightarrow> Some ''The HTTPS connection ended before a complete HTTP exchange.''
      | Inner_Failed \<Rightarrow> Some ''Inner HTTPS HTTP/1 transfer failed.''
      | Lifetime_Over \<Rightarrow> Some ''Tunnel lifetime limit reached.''
      | Transfer_Done \<Rightarrow> None
      | Transfer_Failed \<Rightarrow> Some ''Tunnel transport failed.'')"

definition tunnel_end :: "nat \<Rightarrow> tunnel_outcome \<Rightarrow> nat \<Rightarrow> 'h engine \<Rightarrow> 'h engine" where
  "tunnel_end i outcome elapsed = exchange_finish i (tunnel_message outcome) elapsed"

text \<open>The first request inside takes over the exchange of the CONNECT; later ones begin their own.\<close>

definition inner_exchange ::
  "'h header_api \<Rightarrow> tunnel \<Rightarrow> bool \<Rightarrow> 'h request \<Rightarrow> nat \<Rightarrow> 'h engine \<Rightarrow> nat \<times> 'h engine" where
  "inner_exchange A tn first request now st =
     (if first then (tn_exchange tn, st)
      else begin_exchange A request (tn_class tn) (tn_profile tn) None now st)"

text \<open>\<open>forward_intercepted_https\<close> up to the sender; \<open>None\<close> in \<open>inner_failed\<close> is its timeout.\<close>

definition inner_request ::
  "'h header_api \<Rightarrow> bool \<Rightarrow> tunnel \<Rightarrow> 'h request \<Rightarrow> nat \<Rightarrow> 'h engine \<Rightarrow> (refusal + string) \<times> 'h engine" where
  "inner_request A http2 tn request i st =
     (case intercepted_target A http2 (tn_authority tn) request of
        Inl r \<Rightarrow> (Inl r, st)
      | Inr target \<Rightarrow>
          (Inr target, bump (exchange_update i (intercepted_capture A request target) st)))"

definition inner_failed :: "nat \<Rightarrow> refusal option \<Rightarrow> nat \<Rightarrow> 'h engine \<Rightarrow> 'h engine" where
  "inner_failed i r elapsed =
     refuse i (case r of None \<Rightarrow> (504, ''Upstream HTTPS request timed out.'') | Some e \<Rightarrow> e) elapsed"

text \<open>\<open>CountedIo::poll_write\<close>: \<open>count\<close> bytes were accepted by the other side.\<close>

definition counted_write :: "bool \<Rightarrow> nat \<Rightarrow> nat \<Rightarrow> 'h engine \<Rightarrow> 'h engine" where
  "counted_write is_response i count st =
     (if 0 < count
      then bump (exchange_update i (if is_response then add_response_bytes count
                                    else add_request_bytes count) st)
      else st)"

definition counted_writes :: "nat \<Rightarrow> (bool \<times> nat) list \<Rightarrow> 'h engine \<Rightarrow> 'h engine" where
  "counted_writes i = fold (\<lambda>(is_response, count). counted_write is_response i count)"

section \<open>Tunnels as steps of the engine\<close>

lemma engine_steps_trans:
  "(engine_step L)\<^sup>*\<^sup>* a b \<Longrightarrow> engine_step L b c \<Longrightarrow> (engine_step L)\<^sup>*\<^sup>* a c"
  by (rule rtranclp.rtrancl_into_rtrancl)

lemma engine_two_steps: "engine_step L a b \<Longrightarrow> engine_step L b c \<Longrightarrow> (engine_step L)\<^sup>*\<^sup>* a c"
  by (meson r_into_rtranclp rtranclp.rtrancl_into_rtrancl)

lemma counted_write_steps: "(engine_step L)\<^sup>*\<^sup>* st (counted_write is_response i count st)"
proof (cases "0 < count")
  case True
  let ?bytes = "replicate count CHR 0x00"
  have "(engine_step L)\<^sup>*\<^sup>* st (bump (observed_frame is_response i 0 (Data ?bytes False) st))"
    by (rule engine_two_steps, rule op_observed, rule op_bump)
  with True show ?thesis
    by (cases is_response) (simp_all add: counted_write_def observed_frame_def Let_def)
qed (simp add: counted_write_def)

lemma counted_writes_steps: "(engine_step L)\<^sup>*\<^sup>* st (counted_writes i ws st)"
  unfolding counted_writes_def
proof (induction ws arbitrary: st)
  case (Cons w ws)
  have "(engine_step L)\<^sup>*\<^sup>* st (counted_write (fst w) i (snd w) st)" by (rule counted_write_steps)
  with Cons.IH show ?case by (auto simp: case_prod_beta intro: rtranclp_trans)
qed simp

lemma establish_steps:
  assumes "establish A host port request tls resolve proxy_port connects slot owner i class profile st
    = (result, st')"
  shows "(engine_step L)\<^sup>*\<^sup>* st st'"
proof -
  let ?st1 = "exchange_update i (\<lambda>c. c\<lparr>cap_status := Some 200\<rparr>) st"
  let ?st2 = "exchange_update i (\<lambda>c. c\<lparr>cap_kind := ''tls''\<rparr>) ?st1"
  have s1: "(engine_step L)\<^sup>*\<^sup>* st ?st1" by (rule r_into_rtranclp, rule op_tunnel)
  have s2: "(engine_step L)\<^sup>*\<^sup>* st ?st2" by (rule engine_steps_trans [OF s1 op_tls])
  have "st' = st \<or> st' = bump ?st1 \<or> st' = bump ?st2"
    using assms by (auto simp: establish_def Let_def split: sum.splits prod.splits if_splits)
  then show ?thesis
    using engine_steps_trans [OF s1 op_bump] engine_steps_trans [OF s2 op_bump] by auto
qed

lemma inner_request_steps: "(engine_step L)\<^sup>*\<^sup>* st (snd (inner_request A http2 tn request i st))"
proof (cases "intercepted_target A http2 (tn_authority tn) request")
  case (Inr target)
  have "(engine_step L)\<^sup>*\<^sup>* st (bump (exchange_update i (intercepted_capture A request target) st))"
    by (rule engine_two_steps, rule op_intercepted, rule op_bump)
  with Inr show ?thesis by (simp add: inner_request_def)
qed (simp add: inner_request_def)

lemma inner_exchange_steps: "(engine_step L)\<^sup>*\<^sup>* st (snd (inner_exchange A tn first request now st))"
proof (cases first)
  case False
  have "engine_step L st (snd (begin_exchange A request (tn_class tn) (tn_profile tn) None now st))"
    by (rule op_begin [of A request "tn_class tn" "tn_profile tn" None now st
          "fst (begin_exchange A request (tn_class tn) (tn_profile tn) None now st)"]) simp_all
  with False show ?thesis by (simp add: inner_exchange_def r_into_rtranclp)
qed (simp add: inner_exchange_def)

section \<open>What a tunnel reveals\<close>

text \<open>
  The requests inside a tunnel are served only on an inspected route, after the server was
  verified under the name of the route and both sides agreed on one of the two protocols.
\<close>

lemma inner_requests_verified:
  assumes "tunnel_run upgraded
      (\<lambda>host leaf. establish_verified_tls (name_ok host) (leaf_ok leaf) (upstream host) (downstream leaf)
         (Some inspection_alpn)) upstream_http inner copying tn \<in> {Inner_Served, Inner_Failed}"
  shows "\<exists>host leaf q. upgraded \<and> tn_route tn = Some (host, leaf) \<and> name_ok host \<and> leaf_ok leaf
    \<and> q \<in> set inspection_alpn \<and> upstream host = Agrees (Some q) \<and> downstream leaf [q] = Agrees (Some q)
    \<and> upstream_http (q = http2_alpn)"
proof -
  obtain host leaf p where up: "upgraded" and route: "tn_route tn = Some (host, leaf)"
    and tls: "establish_verified_tls (name_ok host) (leaf_ok leaf) (upstream host) (downstream leaf)
      (Some inspection_alpn) = Inr p" and http: "upstream_http (p = Some http2_alpn)"
    using assms
    by (auto simp: tunnel_run_def Let_def split: if_splits option.splits sum.splits served.splits)
  obtain q where "q = ''h2'' \<or> q = ''http/1.1''" and "name_ok host \<and> leaf_ok leaf"
    and "upstream host = Agrees (Some q)" and "downstream leaf [q] = Agrees (Some q)" and "p = Some q"
    using tls inspection_protocol_agreed
      [of "name_ok host" "leaf_ok leaf" "upstream host" "downstream leaf"] by auto
  with up route http show ?thesis by (auto simp: inspection_alpn_def http1_alpn_def http2_alpn_def)
qed

lemma find_update_capture:
  "(\<And>c. cap_id (f c) = cap_id c) \<Longrightarrow>
   find_capture i (update_capture i f cs) = map_option f (find_capture i cs)"
  by (induction cs) auto

lemma update_capture_comp:
  "(\<And>c. cap_id (g c) = cap_id c) \<Longrightarrow> update_capture i f (update_capture i g cs) = update_capture i (f \<circ> g) cs"
  by (induction cs) auto

lemma update_capture_id: "update_capture i (\<lambda>c. c) cs = cs"
  by (induction cs) auto

definition add_bytes :: "(bool \<times> nat) list \<Rightarrow> capture \<Rightarrow> capture" where
  "add_bytes ws c =
     c\<lparr>cap_request_bytes := cap_request_bytes c + of_nat (sum_list (map snd (filter (\<lambda>w. \<not> fst w) ws))),
       cap_response_bytes := cap_response_bytes c + of_nat (sum_list (map snd (filter fst ws)))\<rparr>"

lemma add_bytes_Nil: "add_bytes [] = (\<lambda>c. c)"
  by (simp add: add_bytes_def fun_eq_iff)

lemma add_bytes_Cons:
  "add_bytes ws \<circ> (if r then add_response_bytes n else add_request_bytes n) = add_bytes ((r, n) # ws)"
  by (auto simp: add_bytes_def add_response_bytes_def add_request_bytes_def fun_eq_iff)

lemma traffic_counted_write:
  "traffic (counted_write r i n st)
     = update_capture i (if r then add_response_bytes n else add_request_bytes n) (traffic st)"
proof (cases "0 < n")
  case False
  then have "(if r then add_response_bytes n else add_request_bytes n) = (\<lambda>c. c)"
    by (auto simp: add_response_bytes_def add_request_bytes_def fun_eq_iff)
  with False show ?thesis by (simp add: counted_write_def update_capture_id)
qed (simp add: counted_write_def bump_def exchange_update_def)

lemma counted_write_frame:
  "st\<lparr>traffic := t, revision := v\<rparr> = (counted_write r i n st)\<lparr>traffic := t, revision := v\<rparr>"
  by (simp add: counted_write_def bump_def exchange_update_def)

text \<open>
  An opaque tunnel is only counted. Whatever is sent through it, in whatever order, its
  capture ends up with the exact sum of the accepted bytes of each direction (as 64-bit
  counters), and nothing else in the engine changes but the revision: no other capture, no header
  and no body.
\<close>

lemma opaque_tunnel_only_counts:
  "traffic (counted_writes i ws st) = update_capture i (add_bytes ws) (traffic st)
   \<and> (counted_writes i ws st)\<lparr>traffic := traffic st, revision := revision st\<rparr> = st
   \<and> revision st \<le> revision (counted_writes i ws st)"
proof (induction ws arbitrary: st)
  case Nil
  show ?case by (simp add: counted_writes_def add_bytes_Nil update_capture_id)
next
  case (Cons w ws)
  obtain r n where w: "w = (r, n)" by force
  let ?st = "counted_write r i n st"
  have eq: "counted_writes i (w # ws) st = counted_writes i ws ?st"
    by (simp add: counted_writes_def w)
  have "traffic (counted_writes i ws ?st)
      = update_capture i (add_bytes ws \<circ> (if r then add_response_bytes n else add_request_bytes n))
          (traffic st)"
    using Cons.IH [of ?st]
    by (subst update_capture_comp [symmetric])
      (auto simp: traffic_counted_write add_response_bytes_def add_request_bytes_def)
  moreover have "(counted_writes i ws ?st)\<lparr>traffic := traffic st, revision := revision st\<rparr> = st"
  proof -
    let ?last = "counted_writes i ws ?st"
    have "?last\<lparr>traffic := traffic st, revision := revision st\<rparr>
        = ?last\<lparr>traffic := traffic ?st, revision := revision ?st\<rparr>\<lparr>traffic := traffic st, revision := revision st\<rparr>"
      by simp
    also have "\<dots> = ?st\<lparr>traffic := traffic st, revision := revision st\<rparr>"
      by (simp only: Cons.IH [of ?st])
    also have "\<dots> = st" by (simp add: counted_write_frame [symmetric])
    finally show ?thesis .
  qed
  moreover have "revision st \<le> revision ?st"
    by (simp add: counted_write_def bump_def exchange_update_def)
  ultimately show ?case
    using Cons.IH [of ?st] unfolding eq by (auto simp: w add_bytes_Cons)
qed

lemma establish_Inr:
  assumes "establish A host port request tls resolve proxy_port connects slot owner i class profile st
    = (Inr tn, st')"
  obtains p addresses where "connect_target A host port request = Inr (strip_brackets host, p)"
    and "port = Some p" and "p \<noteq> 0"
    and "upstream_addresses (resolve (strip_brackets host) p) proxy_port = Inr addresses" and "connects addresses"
    and "case tls of None \<Rightarrow> tn_route tn = None | Some prep \<Rightarrow> prep (strip_brackets host) = Inr (tn_route tn)"
    and "u_authority (rq_uri request) = Some (tn_authority tn)" and "CHR ''@'' \<notin> set (tn_authority tn)"
    and "tn_exchange tn = i" and "tn_class tn = class" and "tn_profile tn = profile"
    and "st' = bump (if tn_route tn \<noteq> None
        then exchange_update i (\<lambda>c. c\<lparr>cap_kind := ''tls''\<rparr>) (exchange_update i (\<lambda>c. c\<lparr>cap_status := Some 200\<rparr>) st)
        else exchange_update i (\<lambda>c. c\<lparr>cap_status := Some 200\<rparr>) st)"
proof -
  from assms obtain h p route addresses where
    target: "connect_target A host port request = Inr (h, p)"
    and route: "(case tls of None \<Rightarrow> Inr None
      | Some prep \<Rightarrow> map_error (\<lambda>_. (502, ''TLS interception preparation failed.'')) (prep h))
        = (Inr route :: refusal + (string \<times> issued_leaf) option)"
    and up: "connect_upstream (resolve h p) proxy_port connects = Inr addresses"
    and tn: "tn = \<lparr>tn_exchange = i, tn_authority = (case u_authority (rq_uri request) of None \<Rightarrow> '''' | Some a \<Rightarrow> a),
      tn_class = class, tn_profile = profile, tn_route = route\<rparr>"
    and st': "st' = bump (if route \<noteq> None
        then exchange_update i (\<lambda>c. c\<lparr>cap_kind := ''tls''\<rparr>) (exchange_update i (\<lambda>c. c\<lparr>cap_status := Some 200\<rparr>) st)
        else exchange_update i (\<lambda>c. c\<lparr>cap_status := Some 200\<rparr>) st)"
    by (auto simp: establish_def Let_def split: sum.splits prod.splits if_splits)
  have req: "port = Some p" "p \<noteq> 0" "h = strip_brackets host"
    "u_authority (rq_uri request) = Some (tn_authority tn)" "CHR ''@'' \<notin> set (tn_authority tn)"
    using target by (auto simp: connect_target_def Let_def tn split: option.splits if_splits)
  have conn: "upstream_addresses (resolve h p) proxy_port = Inr addresses" "connects addresses"
    using up by (auto simp: connect_upstream_def and_then_Inr_iff split: if_splits)
  have prep: "case tls of None \<Rightarrow> tn_route tn = None | Some prep \<Rightarrow> prep h = Inr (tn_route tn)"
    using route by (auto simp: tn map_error_Inr split: option.splits)
  note at_host = target [unfolded req(3)] and at_up = conn(1) [unfolded req(3)]
    and at_prep = prep [unfolded req(3)]
  show thesis
    by (rule that [OF at_host req(1,2) at_up conn(2) at_prep req(4,5)]) (simp_all add: tn st')
qed


definition sample_connect :: "(string \<times> bytes) list request" where
  "sample_connect =
     \<lparr>rq_method = ''CONNECT'',
      rq_uri = \<lparr>u_scheme = None, u_authority = Some ''api.test:443'', u_host = Some ''api.test'',
        u_port = Some 443, u_path = '''', u_query = None, u_path_and_query = None\<rparr>,
      rq_headers = [], rq_end_stream = True\<rparr>"


end
