(* ===== verification/Relay.thy ===== *)
theory Relay
  imports Prelude
begin

text \<open>
  The tee of a recorded response body (\<open>RecordedBody\<close> in \<open>crates/engine/src/proxy/bodies.rs\<close>): frames
  are passed on to the client while their data is written to the bounded pipe of the recorder.
  One call of \<open>poll_frame\<close> is \<open>poll_relay\<close>; the answers of the body, the pipe and the recorder task
  are its input.
\<close>

section \<open>Frames and polls\<close>

datatype frame = Frame_Data bytes | Frame_Trailers

definition frame_data :: "frame \<Rightarrow> bytes" where
  "frame_data f = (case f of Frame_Data b \<Rightarrow> b | Frame_Trailers \<Rightarrow> [])"

text \<open>\<open>rl_tap\<close>: no tap, or a tap whose pipe is open or closed.\<close>

record relay =
  rl_tap :: "bool option"
  rl_pending :: "frame option"
  rl_written :: nat

datatype write_answer = Write_Pending | Write_Gone | Wrote nat

datatype inner_event = Inner_Pending | Inner_Frame frame | Inner_Error | Inner_End

text \<open>
  What one poll meets: the inner body, for each turn of the write loop the cancel flag and the
  pipe (which has no room when the list is over), \<open>is_end_stream\<close> and the recorder task.
\<close>

record poll_input =
  pi_inner :: inner_event
  pi_writes :: "(bool \<times> write_answer) list"
  pi_ended :: bool
  pi_task_done :: bool

datatype poll = Poll_Pending | Poll_Frame frame | Poll_Error | Poll_None

section \<open>One poll\<close>

text \<open>The write loop: whether it must wait, the tap and count after it, what was written.\<close>

fun tee :: "bytes \<Rightarrow> (bool \<times> write_answer) list \<Rightarrow> bool option \<Rightarrow> nat \<Rightarrow> bool \<times> bool option \<times> nat \<times> bytes" where
  "tee bytes answers tap written =
     (if length bytes \<le> written then (False, tap, written, [])
      else case tap of
        None \<Rightarrow> (False, None, written, [])
      | Some opened \<Rightarrow>
          (case answers of
             [] \<Rightarrow> (opened, tap, written, [])
           | (cancelled, answer) # rest \<Rightarrow>
               if cancelled then (False, None, written, [])
               else if \<not> opened then (False, tap, written, [])
               else (case answer of
                   Write_Pending \<Rightarrow> (True, tap, written, [])
                 | Write_Gone \<Rightarrow> (False, None, written, [])
                 | Wrote n \<Rightarrow>
                     if n = 0 then (False, None, written, [])
                     else (let (wait, tap', written', out) = tee bytes rest tap (written + n)
                           in (wait, tap', written', take n (drop written bytes) @ out)))))"

declare tee.simps [simp del]

definition relay_pending :: "poll_input \<Rightarrow> relay \<Rightarrow> frame \<Rightarrow> poll \<times> relay \<times> bytes" where
  "relay_pending p r f =
     (let (wait, tap, written, out) =
        (case f of
           Frame_Data b \<Rightarrow> tee b (pi_writes p) (rl_tap r) (rl_written r)
         | Frame_Trailers \<Rightarrow> (False, rl_tap r, rl_written r, []))
      in if wait then (Poll_Pending, \<lparr>rl_tap = tap, rl_pending = Some f, rl_written = written\<rparr>, out)
         else if pi_ended p \<and> tap \<noteq> None \<and> \<not> pi_task_done p
         then (Poll_Pending, \<lparr>rl_tap = Some False, rl_pending = Some f, rl_written = written\<rparr>, out)
         else (Poll_Frame f,
               \<lparr>rl_tap = (if pi_ended p then None else tap), rl_pending = None, rl_written = written\<rparr>, out))"

definition poll_relay :: "poll_input \<Rightarrow> relay \<Rightarrow> poll \<times> relay \<times> bytes" where
  "poll_relay p r =
     (case rl_pending r of
        Some f \<Rightarrow> relay_pending p r f
      | None \<Rightarrow>
          (case pi_inner p of
             Inner_Pending \<Rightarrow> (Poll_Pending, r, [])
           | Inner_Frame f \<Rightarrow> relay_pending p (r\<lparr>rl_pending := Some f, rl_written := 0\<rparr>) f
           | Inner_Error \<Rightarrow> (Poll_Error, r\<lparr>rl_tap := None\<rparr>, [])
           | Inner_End \<Rightarrow>
               if rl_tap r \<noteq> None \<and> \<not> pi_task_done p then (Poll_Pending, r\<lparr>rl_tap := Some False\<rparr>, [])
               else (Poll_None, r\<lparr>rl_tap := None\<rparr>, [])))"

definition relay_end_stream :: "bool \<Rightarrow> relay \<Rightarrow> bool" where
  "relay_end_stream inner_ended r \<longleftrightarrow> rl_tap r = None \<and> rl_pending r = None \<and> inner_ended"

definition fresh_relay :: "bool option \<Rightarrow> relay" where
  "fresh_relay tap = \<lparr>rl_tap = tap, rl_pending = None, rl_written = 0\<rparr>"

section \<open>Runs\<close>

text \<open>
  A run over a body with the frames \<open>src\<close>. Each poll is told whether the body is ready, whether it
  fails, and whether it knows its end; it never yields a frame after it has reported its end.
\<close>

record poll_world =
  pw_ready :: bool
  pw_fails :: bool
  pw_knows_end :: bool
  pw_writes :: "(bool \<times> write_answer) list"
  pw_task_done :: bool

definition inner_answer :: "poll_world \<Rightarrow> frame list \<Rightarrow> inner_event" where
  "inner_answer w src =
     (if \<not> pw_ready w then Inner_Pending
      else if pw_fails w then Inner_Error
      else case src of [] \<Rightarrow> Inner_End | f # _ \<Rightarrow> Inner_Frame f)"

definition remaining :: "poll_world \<Rightarrow> relay \<Rightarrow> frame list \<Rightarrow> frame list" where
  "remaining w r src =
     (if rl_pending r = None \<and> pw_ready w \<and> \<not> pw_fails w then tl src else src)"

definition world_input :: "poll_world \<Rightarrow> relay \<Rightarrow> frame list \<Rightarrow> poll_input" where
  "world_input w r src =
     \<lparr>pi_inner = inner_answer w src, pi_writes = pw_writes w,
      pi_ended = (pw_knows_end w \<and> remaining w r src = []), pi_task_done = pw_task_done w\<rparr>"

text \<open>The frames delivered, the bytes in the pipe, the relay and what the body still holds.\<close>

fun relay_run :: "poll_world list \<Rightarrow> relay \<Rightarrow> frame list \<Rightarrow> frame list \<times> bytes \<times> relay \<times> frame list" where
  "relay_run [] r src = ([], [], r, src)"
| "relay_run (w # ws) r src =
     (let (result, r', out) = poll_relay (world_input w r src) r;
          (frames, more, r'', src') = relay_run ws r' (remaining w r src)
      in ((case result of Poll_Frame f \<Rightarrow> [f] | _ \<Rightarrow> []) @ frames, out @ more, r'', src'))"

definition held_frames :: "relay \<Rightarrow> frame list" where
  "held_frames r = (case rl_pending r of None \<Rightarrow> [] | Some f \<Rightarrow> [f])"

definition all_data :: "frame list \<Rightarrow> bytes" where
  "all_data fs = concat (map frame_data fs)"

text \<open>What holds between polls: \<open>before\<close> was delivered, \<open>piped\<close> is in the pipe.\<close>

definition relay_ok :: "frame list \<Rightarrow> bytes \<Rightarrow> relay \<Rightarrow> frame list \<Rightarrow> bool" where
  "relay_ok before piped r src \<longleftrightarrow>
     prefix piped (all_data (before @ held_frames r))
     \<and> (rl_tap r = Some True \<longrightarrow>
          piped = all_data before @ take (rl_written r) (all_data (held_frames r)))
     \<and> (rl_tap r = Some False \<longrightarrow> src = [] \<and> piped = all_data (before @ held_frames r))"

lemma tee_spec:
  assumes "tee bytes answers tap w = (wait, tap', w', out)"
  shows "prefix (take w bytes @ out) bytes
    \<and> (tap = Some True \<longrightarrow> tap' = Some True \<longrightarrow>
         take w bytes @ out = take w' bytes \<and> (\<not> wait \<longrightarrow> length bytes \<le> w'))
    \<and> (tap = None \<longrightarrow> tap' = None) \<and> (tap = Some False \<longrightarrow> tap' \<noteq> Some True \<and> out = [] \<and> \<not> wait)
    \<and> (tap = Some True \<longrightarrow> tap' \<noteq> Some False) \<and> (tap = None \<longrightarrow> \<not> wait)
    \<and> (wait \<longrightarrow> tap' = Some True)"
  using assms
proof (induction bytes answers tap w arbitrary: wait tap' w' out rule: tee.induct)
  case (1 bytes answers tap w)
  note eq = "1.prems" [unfolded tee.simps [of bytes answers tap w]]
  show ?case
  proof (cases "\<exists>n rest. w < length bytes \<and> tap = Some True \<and> answers = (False, Wrote n) # rest \<and> n \<noteq> 0")
    case False
    with eq show ?thesis
      by (auto simp: take_is_prefix split: if_splits option.splits list.splits write_answer.splits)
  next
    case True
    then obtain n rest where c: "w < length bytes" "tap = Some True" "answers = (False, Wrote n) # rest" "n \<noteq> 0"
      by blast
    obtain out2 where rec: "tee bytes rest tap (w + n) = (wait, tap', w', out2)"
      and out: "out = take n (drop w bytes) @ out2"
      using eq c by (auto split: prod.splits)
    have split: "take (w + n) bytes = take w bytes @ take n (drop w bytes)" by (simp add: take_add)
    from "1.IH" [of True "(False, Wrote n)" rest False "Wrote n" n] rec c
    show ?thesis by (auto simp: out split)
  qed
qed

lemma all_data_simps [simp]:
  "all_data [] = []" "all_data (f # fs) = frame_data f @ all_data fs"
  "all_data (fs @ gs) = all_data fs @ all_data gs"
  by (simp_all add: all_data_def)

lemma held_frames_simps [simp]:
  "held_frames \<lparr>rl_tap = t, rl_pending = None, rl_written = w\<rparr> = []"
  "held_frames \<lparr>rl_tap = t, rl_pending = Some f, rl_written = w\<rparr> = [f]"
  "rl_pending r = None \<Longrightarrow> held_frames r = []"
  "rl_pending r = Some f \<Longrightarrow> held_frames r = [f]"
  by (simp_all add: held_frames_def)

text \<open>The write loop on a held frame, whatever kind of frame it is.\<close>

definition tee_frame ::
  "frame \<Rightarrow> (bool \<times> write_answer) list \<Rightarrow> bool option \<Rightarrow> nat \<Rightarrow> bool \<times> bool option \<times> nat \<times> bytes" where
  "tee_frame f answers tap w =
     (case f of Frame_Data b \<Rightarrow> tee b answers tap w | Frame_Trailers \<Rightarrow> (False, tap, w, []))"

lemma tee_frame_ok:
  assumes "relay_ok before piped r src" and "rl_pending r = Some f"
    and "tee_frame f answers (rl_tap r) (rl_written r) = (wait, tap, w', out)"
  shows "prefix (piped @ out) (all_data before @ frame_data f)
    \<and> (tap = Some True \<longrightarrow> piped @ out = all_data before @ take w' (frame_data f)
         \<and> (wait \<or> length (frame_data f) \<le> w'))
    \<and> (tap = Some False \<longrightarrow> src = [] \<and> piped @ out = all_data before @ frame_data f)
    \<and> (wait \<longrightarrow> tap = Some True)"
proof (cases f)
  case Frame_Trailers
  with assms show ?thesis by (auto simp: relay_ok_def tee_frame_def frame_data_def)
next
  case (Frame_Data b)
  with assms(3) have t: "tee b answers (rl_tap r) (rl_written r) = (wait, tap, w', out)"
    by (simp add: tee_frame_def)
  note facts = tee_spec [OF t]
  have p: "prefix piped (all_data before @ b)"
    and o: "rl_tap r = Some True \<longrightarrow> piped = all_data before @ take (rl_written r) b"
    and c: "rl_tap r = Some False \<longrightarrow> src = [] \<and> piped = all_data before @ b"
    using assms(1,2) by (simp_all add: relay_ok_def Frame_Data frame_data_def)
  consider (none) "rl_tap r = None" | (opened) "rl_tap r = Some True" | (closed) "rl_tap r = Some False"
    by (cases "rl_tap r") auto
  then show ?thesis
  proof cases
    case none
    moreover have "out = []" using t none by (auto simp: tee.simps [of b answers None] split: if_splits)
    ultimately show ?thesis using p facts by (auto simp: Frame_Data frame_data_def)
  next
    case opened
    with o facts show ?thesis by (auto simp: Frame_Data frame_data_def)
  next
    case closed
    with c facts show ?thesis by (auto simp: Frame_Data frame_data_def)
  qed
qed

lemma relay_pending_ok:
  assumes "relay_ok before piped r src" and "rl_pending r = Some f"
    and "pi_ended p \<longrightarrow> src = []" and "relay_pending p r f = (result, r', out)"
  shows "(result = Poll_Frame f \<and> held_frames r' = [] \<and> relay_ok (before @ [f]) (piped @ out) r' src)
    \<or> (result = Poll_Pending \<and> held_frames r' = [f] \<and> relay_ok before (piped @ out) r' src)"
proof -
  obtain wait tap w' out' where t: "tee_frame f (pi_writes p) (rl_tap r) (rl_written r) = (wait, tap, w', out')"
    by (metis prod_cases4)
  note facts = tee_frame_ok [OF assms(1,2) t]
  have eq: "relay_pending p r f =
     (if wait then (Poll_Pending, \<lparr>rl_tap = tap, rl_pending = Some f, rl_written = w'\<rparr>, out')
      else if pi_ended p \<and> tap \<noteq> None \<and> \<not> pi_task_done p
      then (Poll_Pending, \<lparr>rl_tap = Some False, rl_pending = Some f, rl_written = w'\<rparr>, out')
      else (Poll_Frame f,
            \<lparr>rl_tap = (if pi_ended p then None else tap), rl_pending = None, rl_written = w'\<rparr>, out'))"
    using t by (cases f) (auto simp: relay_pending_def tee_frame_def split: prod.splits)
  show ?thesis
    using assms(3,4) facts
    by (cases tap; cases "the tap") (auto simp: eq relay_ok_def split: if_splits)
qed

lemma poll_relay_ok:
  assumes "relay_ok before piped r src" and "poll_relay (world_input w r src) r = (result, r', out)"
  defines "frames \<equiv> (case result of Poll_Frame f \<Rightarrow> [f] | _ \<Rightarrow> [])"
  shows "held_frames r @ src = frames @ held_frames r' @ remaining w r src
    \<and> relay_ok (before @ frames) (piped @ out) r' (remaining w r src)"
proof (cases "rl_pending r")
  case (Some f)
  then have p: "relay_pending (world_input w r src) r f = (result, r', out)"
    and rem: "remaining w r src = src"
    using assms(2) by (simp_all add: poll_relay_def remaining_def)
  from relay_pending_ok [OF assms(1) Some _ p] show ?thesis
    by (auto simp: rem frames_def Some world_input_def)
next
  case None
  show ?thesis
  proof (cases "\<exists>f rest. pw_ready w \<and> \<not> pw_fails w \<and> src = f # rest")
    case False
    with assms(1,2) None show ?thesis
      by (auto simp: poll_relay_def world_input_def inner_answer_def remaining_def relay_ok_def
          frames_def neq_Nil_conv split: if_splits list.splits)
  next
    case True
    then obtain f rest where src: "src = f # rest" and w: "pw_ready w" "\<not> pw_fails w" by blast
    let ?r = "r\<lparr>rl_pending := Some f, rl_written := 0\<rparr>"
    have p: "relay_pending (world_input w r src) ?r f = (result, r', out)"
      and rem: "remaining w r src = rest"
      using assms(2) None src w
      by (simp_all add: poll_relay_def world_input_def inner_answer_def remaining_def)
    have open_tap: "rl_tap r \<noteq> Some False" using assms(1) src by (auto simp: relay_ok_def)
    then have "relay_ok before piped ?r rest"
      using assms(1) None by (auto simp: relay_ok_def held_frames_def prefix_append)
    from relay_pending_ok [OF this _ _ p] show ?thesis
      using None by (auto simp: rem [unfolded src] src frames_def world_input_def)
  qed
qed

text \<open>
  C17: recording never disturbs a response. However the body, the pipe, Clear and the recorder
  behave, the client is delivered the frames of the body in order, each once and unchanged: at
  any moment the frames delivered, the one in hand and those still in the body are the original
  ones. The pipe only ever holds a prefix of their data. As long as the tap is open it holds all
  data delivered and the part of the frame in hand that was counted; it is closed in the regular
  way only at the end of the body, with all of its data in it.
\<close>

theorem relay_transparent:
  assumes "relay_run ws (fresh_relay tap) src = (delivered, piped, r, rest)" and "tap \<noteq> Some False"
  shows "src = delivered @ held_frames r @ rest
    \<and> prefix piped (all_data (delivered @ held_frames r))
    \<and> (rl_tap r = Some True \<longrightarrow>
         piped = all_data delivered @ take (rl_written r) (all_data (held_frames r)))
    \<and> (rl_tap r = Some False \<longrightarrow> rest = [] \<and> piped = all_data src)"
proof -
  have run: "held_frames r0 @ src = frames @ held_frames r @ rest
      \<and> relay_ok (before @ frames) (p0 @ more) r rest"
    if "relay_ok before p0 r0 src" and "relay_run ws r0 src = (frames, more, r, rest)"
    for before p0 r0 src frames more
    using that
  proof (induction ws arbitrary: before p0 r0 src frames more)
    case Nil
    then show ?case by simp
  next
    case (Cons w ws)
    obtain result r1 out where p: "poll_relay (world_input w r0 src) r0 = (result, r1, out)"
      by (metis prod_cases3)
    obtain fs1 more1 where rec: "relay_run ws r1 (remaining w r0 src) = (fs1, more1, r, rest)"
      and out: "frames = (case result of Poll_Frame f \<Rightarrow> [f] | _ \<Rightarrow> []) @ fs1" "more = out @ more1"
      using Cons.prems(2) by (auto simp: p split: prod.splits)
    note step = poll_relay_ok [OF Cons.prems(1) p]
    from Cons.IH [OF conjunct2 [OF step] rec] step show ?case by (auto simp: out)
  qed
  have "relay_ok [] [] (fresh_relay tap) src"
    using assms(2) by (auto simp: relay_ok_def fresh_relay_def)
  from run [OF this assms(1)] show ?thesis
    by (auto simp: relay_ok_def fresh_relay_def)
qed

text \<open>Two polls for the data, one that closes the pipe, one after the recorder has ended.\<close>

definition sample_polls :: "poll_world list" where
  "sample_polls =
     [\<lparr>pw_ready = True, pw_fails = False, pw_knows_end = True, pw_writes = [(False, Wrote 1)],
       pw_task_done = False\<rparr>,
      \<lparr>pw_ready = True, pw_fails = False, pw_knows_end = True, pw_writes = [(False, Wrote 1)],
       pw_task_done = False\<rparr>,
      \<lparr>pw_ready = True, pw_fails = False, pw_knows_end = True, pw_writes = [], pw_task_done = False\<rparr>]"

theorem relay_transparent_witness:
  "relay_run sample_polls (fresh_relay (Some True)) [Frame_Data ''ab'', Frame_Trailers]
     = ([Frame_Data ''ab''], ''ab'', \<lparr>rl_tap = Some False, rl_pending = Some Frame_Trailers, rl_written = 0\<rparr>, [])
   \<and> ''ab'' = all_data [Frame_Data ''ab'', Frame_Trailers]"
proof -
  have run: "relay_run sample_polls (fresh_relay (Some True)) [Frame_Data ''ab'', Frame_Trailers]
     = ([Frame_Data ''ab''], ''ab'', \<lparr>rl_tap = Some False, rl_pending = Some Frame_Trailers, rl_written = 0\<rparr>, [])"
    by code_simp
  from relay_transparent [OF run] run show ?thesis by simp
qed

end
