(* ===== verification/Handle.thy ===== *)
theory Handle
  imports Tunnel Relay
begin

text \<open>
  The composition of the exchange path (\<open>handle\<close>, the response half of \<open>forward_with_sender\<close>,
  \<open>replay\<close> with \<open>replay_through_proxy\<close> and the accept loop of \<open>start\<close> in
  \<open>crates/engine/src/proxy.rs\<close>). What other tasks do while one of them waits is the argument
  \<open>meanwhile\<close>, any function on the engine's state.
\<close>

section \<open>One request\<close>

text \<open>The outcome of the operation under the deadline: a response, an error, or too late.\<close>

datatype 'r operation_outcome = Completed 'r | Declined refusal | Deadline_Passed

definition handle ::
  "'h header_api \<Rightarrow> (bytes \<Rightarrow> bytes) \<Rightarrow> (string \<Rightarrow> bytes option) \<Rightarrow> client_auth option \<Rightarrow> 'h request \<Rightarrow> nat \<Rightarrow> nat
     \<Rightarrow> ('h request \<Rightarrow> admission \<Rightarrow> nat \<Rightarrow> 'h engine \<Rightarrow> 'r operation_outcome \<times> 'h engine)
     \<Rightarrow> 'h engine \<Rightarrow> (refusal + 'r) \<times> 'h engine" where
  "handle A sha b64 auth request now elapsed operation st =
     (case admit A sha b64 auth request st of
        (Inl r, st1) \<Rightarrow> (Inl r, st1)
      | (Inr (request', ad), st1) \<Rightarrow>
          (let (i, st2) = begin_exchange A request' (ad_class ad) (ad_profile ad) (ad_replay_of ad) now st1 in
           case operation request' ad i st2 of
             (Completed r, st3) \<Rightarrow> (Inr r, st3)
           | (Declined r, st3) \<Rightarrow> (Inl r, refuse i r elapsed st3)
           | (Deadline_Passed, st3) \<Rightarrow> (Inl (504, ''Upstream request timed out.''), time_out i elapsed st3)))"

definition accept_connection :: "nat \<Rightarrow> nat \<Rightarrow> 'h engine \<Rightarrow> bool \<times> 'h engine" where
  "accept_connection most live st =
     (if most \<le> live then (False, reject_connection st) else (True, st))"

section \<open>One response\<close>

text \<open>A body that is over with the head: the empty recording ends, then the exchange.\<close>

definition finish_empty :: "bool \<Rightarrow> nat \<Rightarrow> nat \<Rightarrow> 'h engine \<Rightarrow> 'h engine" where
  "finish_empty ended i elapsed st = (if ended then exchange_finish i None elapsed st else st)"

text \<open>
  Rule and breakpoint: the status and replacement to answer with. \<open>decision\<close> is what the exchange
  waits for: \<open>None\<close> when it is dropped while it waits, \<open>Some None\<close> when nobody decides in time.
  \<open>meanwhile\<close> is what other tasks do.
\<close>

definition decide_response ::
  "nat \<Rightarrow> string \<Rightarrow> string \<Rightarrow> string \<Rightarrow> u16 \<Rightarrow> breakpoint_decision option option \<Rightarrow> ('h engine \<Rightarrow> 'h engine)
     \<Rightarrow> 'h engine \<Rightarrow> (u16 \<times> replacement) option \<times> 'h engine" where
  "decide_response i host path method code decision meanwhile st =
     (let (code1, replacement1, st1) = apply_rule i host path method code st;
          (waiting, st2) = open_breakpoint i code1 st1
      in if \<not> waiting then (Some (code1, replacement1), st2)
         else case decision of
           None \<Rightarrow> (None, abandon_breakpoint i (meanwhile st2))
         | Some d \<Rightarrow>
             (let (code2, replacement2, st3) = close_breakpoint i d (code1, replacement1) (meanwhile st2)
              in (Some (code2, replacement2), st3)))"

text \<open>
  The response half of \<open>forward_with_sender\<close>: the status, the head and, if it was replaced, the
  body the client gets; \<open>None\<close> when the exchange is dropped while it waits or stores a body.
  \<open>t\<close> and \<open>a\<close> supply storing tasks and addresses, \<open>tap\<close> tells whether a recording can begin.
\<close>

definition respond ::
  "'h header_api \<Rightarrow> bool \<Rightarrow> nat \<Rightarrow> string \<Rightarrow> string \<Rightarrow> string \<Rightarrow> u16 \<Rightarrow> 'h \<Rightarrow> bool \<Rightarrow> breakpoint_decision option option
     \<Rightarrow> ('h engine \<Rightarrow> 'h engine) \<Rightarrow> (session \<Rightarrow> nat) \<Rightarrow> (session \<Rightarrow> nat) \<Rightarrow> storage \<Rightarrow> bool \<Rightarrow> nat \<Rightarrow> 'h engine
     \<Rightarrow> (u16 \<times> 'h \<times> bytes option) option \<times> 'h engine" where
  "respond A http2 i host path method code h ended decision meanwhile t a storage tap elapsed st =
     (case decide_response i host path method code decision meanwhile st of
        (None, st3) \<Rightarrow> (None, st3)
      | (Some (code2, Some r), st3) \<Rightarrow>
          (let (head, st4) = replace_response A http2 i code2 r h (t (bodies st3)) (a (bodies st3))
                               storage elapsed st3
           in (map_option (\<lambda>hd. (code2, hd, Some (fst r))) head, st4))
      | (Some (code2, None), st3) \<Rightarrow>
          (let (head, st4) = pass_response A i code2 h ended
                               (if tap then Some (a (bodies st3)) else None) st3
           in (Some (code2, head, None), finish_empty ended i elapsed st4)))"

text \<open>
  Responses of destinations that are not Development are forwarded as they are. Whatever
  rules are configured and whatever is decided, unless the shown capture is Development the
  client gets the received status, the received head without hop-by-hop headers, and the received
  body; no breakpoint is opened and the capture shows no change.
\<close>

lemma observed_response_forwarded:
  assumes "case find_capture i (traffic st) of None \<Rightarrow> True | Some c \<Rightarrow> cap_class c \<noteq> Development"
  shows "respond A http2 i host path method code h ended decision meanwhile t a storage tap elapsed st
      = (Some (code, strip_hop_headers A h, None),
         finish_empty ended i elapsed (snd (pass_response A i code h ended (if tap then Some (a (bodies st)) else None) st)))
    \<and> breakpoints (snd (respond A http2 i host path method code h ended decision meanwhile t a storage
          tap elapsed st)) = breakpoints st"
proof -
  have no: "\<not> may_modify i st"
    using assms by (auto simp: may_modify_def authorize_ok_iff split: option.splits)
  have head: "fst (pass_response A i code h ended b st) = strip_hop_headers A h" for b
    by (simp add: pass_response_def Let_def)
  have keep: "breakpoints (finish_empty ended i elapsed (snd (pass_response A i code h ended b st)))
      = breakpoints st" for b
    by (simp add: pass_response_def finish_empty_def exchange_finish_def bump_def exchange_update_def
        Let_def split: option.split)
  show ?thesis
    using head keep
    by (simp add: respond_def decide_response_def apply_rule_def open_breakpoint_def no case_prod_beta)
qed

section \<open>An exchange dropped at its breakpoint\<close>

lemma open_breakpoint_waiting:
  assumes "open_breakpoint i code st = (True, st')"
  shows "find_capture i (traffic st') \<noteq> None"
    and "find_capture i (traffic st') = Some c \<Longrightarrow> cap_breakpoint_state c = ''waiting''"
    and "map_of (breakpoints st') i = Some True"
  using assms
  by (auto simp: open_breakpoint_def bump_def exchange_update_def find_update_capture may_modify_def
      update_conv' split: if_splits option.splits)

text \<open>
  An exchange that is dropped while it waits at a breakpoint (its client is gone, or its
  deadline has passed) leaves the breakpoint behind. Its capture is finished, but goes on showing
  that it waits; the entry remains, so a decision is taken for it and only then refused.
\<close>

lemma dropped_breakpoint_stays_waiting:
  assumes "decide_response i host path method code None (\<lambda>st. st) st = (None, st')"
  shows "\<exists>c. find_capture i (traffic (exchange_drop i elapsed st')) = Some c
      \<and> cap_phase c \<noteq> ''pending'' \<and> cap_breakpoint_state c = ''waiting''
      \<and> fst (resolve_breakpoint H i None None None (exchange_drop i elapsed st')) = Inl BreakpointClosed"
proof -
  obtain code1 rep st1 where rule: "apply_rule i host path method code st = (code1, rep, st1)"
    by (metis prod_cases3)
  obtain st2 where open_bp: "open_breakpoint i code1 st1 = (True, st2)" and st': "st' = abandon_breakpoint i st2"
    using assms(1) by (auto simp: decide_response_def rule split: prod.splits if_splits)
  note w = open_breakpoint_waiting [OF open_bp]
  obtain c where c: "find_capture i (traffic st2) = Some c" using w(1) by auto
  have "map_of (map (\<lambda>(j, v). (j, if j = i then False else v)) bs) i = map_option (\<lambda>_. False) (map_of bs i)"
    for bs :: "(nat \<times> bool) list" by (induction bs) auto
  then have "map_of (breakpoints (exchange_drop i elapsed st')) i = Some False"
    using w(3) by (simp add: st' abandon_breakpoint_def exchange_drop_def exchange_finish_def bump_def
        exchange_update_def)
  then have "fst (resolve_breakpoint H i None None None (exchange_drop i elapsed st')) = Inl BreakpointClosed"
    by (simp add: resolve_breakpoint_def compile_decision_def compile_replacement_body_def and_then_def map_error_def)
  moreover have "cap_breakpoint_state (finish_capture e d c) = cap_breakpoint_state c"
    and "cap_phase (finish_capture e d c) \<noteq> ''pending''" and "cap_id (finish_capture e d c') = cap_id c'"
    for e d c' by (simp_all add: finish_capture_def)
  ultimately show ?thesis
    using w(2) [OF c] c
    by (simp add: st' abandon_breakpoint_def exchange_drop_def exchange_finish_def bump_def
        exchange_update_def find_update_capture)
qed

lemma dropped_breakpoint_stays_waiting_witness:
  "\<exists>c st'. decide_response 1 ''a.test'' ''/'' ''GET'' 200 None (\<lambda>st. st) (one_capture\<lparr>break_on_responses := True\<rparr>)
       = (None, st')
     \<and> find_capture 1 (traffic (exchange_drop 1 5 st')) = Some c \<and> cap_breakpoint_state c = ''waiting''"
    (is "\<exists>c st'. ?d = (None, st') \<and> _")
proof -
  have "fst ?d = None" by code_simp
  then obtain st' where d: "?d = (None, st')" by (metis prod.collapse)
  from dropped_breakpoint_stays_waiting [OF d] d show ?thesis by blast
qed

section \<open>Every request is accounted for\<close>

lemma admit_state: "snd (admit A sha b64 auth request st) = snd (claim_token (internal_token A (rq_headers request)) st)"
  by (simp add: admit_def Let_def case_prod_beta)

lemma admit_Inr_class:
  assumes "admit A sha b64 auth request st = (Inr (request', ad), st')"
  shows "ad_replay_of ad \<noteq> None \<longrightarrow> ad_class ad = Development"
  using assms
  by (auto simp: admit_def Let_def authorize_ok_iff split: prod.splits option.splits if_splits)

lemma refuse_capture:
  "find_capture i (traffic (refuse i r elapsed st))
     = map_option (\<lambda>c. finish_capture (Some (snd r)) elapsed (c\<lparr>cap_status := Some (fst r)\<rparr>))
         (find_capture i (traffic st))"
proof -
  have id: "cap_id (finish_capture e d c) = cap_id c" for e d c
    by (simp add: finish_capture_def)
  show ?thesis
    by (simp add: refuse_def exchange_finish_def bump_def exchange_update_def find_update_capture id
        option.map_comp comp_def)
qed

lemma fresh_id_not_found:
  "engine_reachable L st \<Longrightarrow> find_capture (next_id st) (traffic st) = None"
  by (drule engine_reachable_inv)
    (force simp: engine_inv_def traffic_ok_def list_all_iff find_capture_def find_None_iff)

text \<open>
  Every request is accounted for. Refused without credentials or as a replay it leaves no
  capture; any later error, and the deadline, finish its exchange with the status the client is
  answered. And as long as the operation is a run of the engine's operations, so is the whole
  request, begun and ended, whatever its outcome.
\<close>

lemma handled_request_accounted:
  assumes "engine_reachable L st"
    and "\<And>request' ad i st1. engine_reachable L st1 \<Longrightarrow> engine_reachable L (snd (operation request' ad i st1))"
    and "handle A sha b64 auth request now elapsed operation st = (result, st')"
  shows "engine_reachable L st'
    \<and> (\<forall>r c. result = Inl r \<longrightarrow> find_capture (next_id st) (traffic st') = Some c \<longrightarrow>
          cap_status c = Some (fst r) \<and> cap_phase c \<noteq> ''pending'')"
proof -
  obtain answer st1 where adm: "admit A sha b64 auth request st = (answer, st1)" by force
  have "engine_step L st st1" using op_claim [of L st "internal_token A (rq_headers request)"] adm
    by (simp add: admit_state [of A sha b64 auth request st, unfolded adm, simplified])
  then have r1: "engine_reachable L st1"
    using assms(1) unfolding engine_reachable_def by (rule engine_steps_trans [rotated])
  have next1: "next_id st1 = next_id st" "traffic st1 = traffic st"
    using admit_state [of A sha b64 auth request st] by (auto simp: adm claim_token_def split: option.splits)
  show ?thesis
  proof (cases answer)
    case (Inl r)
    with assms(3) adm have "result = Inl r" "st' = st1" by (simp_all add: handle_def)
    with r1 next1 fresh_id_not_found [OF assms(1)] show ?thesis by simp
  next
    case (Inr p)
    obtain request' ad where p: "p = (request', ad)" by force
    obtain i st2 where b: "begin_exchange A request' (ad_class ad) (ad_profile ad) (ad_replay_of ad) now st1 = (i, st2)"
      by force
    have i: "i = next_id st" using b next1 by (simp add: begin_exchange_def Let_def)
    have "engine_step L st1 st2"
      using op_begin [OF b] admit_Inr_class [OF adm [unfolded Inr p]] by blast
    then have "engine_reachable L st2"
      using r1 unfolding engine_reachable_def by (rule engine_steps_trans [rotated])
    then have r3: "engine_reachable L (snd (operation request' ad i st2))" by (rule assms(2))
    obtain out st3 where o: "operation request' ad i st2 = (out, st3)" by force
    have ended: "engine_reachable L (refuse i r elapsed st3)" for r
      using r3 op_refuse [of L st3 i r elapsed] unfolding engine_reachable_def o
      by (simp add: rtranclp.rtrancl_into_rtrancl)
    have phase: "cap_phase (finish_capture (Some e) d c) \<noteq> ''pending''" for e d c
      by (simp add: finish_capture_def)
    have code: "cap_status (finish_capture e d c) = cap_status c" for e d c
      by (simp add: finish_capture_def)
    show ?thesis
      using assms(3) r3 ended
      by (cases out)
        (auto simp: handle_def adm Inr p b o [unfolded i] i time_out_def refuse_capture phase code)
  qed
qed

definition declining :: "(string \<times> bytes) list request \<Rightarrow> admission \<Rightarrow> nat \<Rightarrow> (string \<times> bytes) list engine
    \<Rightarrow> unit operation_outcome \<times> (string \<times> bytes) list engine" where
  "declining request ad i st = (Declined (502, ''Upstream DNS lookup failed.''), st)"

lemma handled_request_accounted_witness:
  "\<exists>c. find_capture 1 (traffic (snd (handle list_headers id (\<lambda>_. None) None (sample_request ''a.test'') 0 5
      declining default_engine))) = Some c \<and> cap_status c = Some 502"
    (is "\<exists>c. find_capture 1 (traffic (snd ?h)) = Some c \<and> _")
proof -
  have r: "engine_reachable 100 default_engine" by (simp add: engine_reachable_def)
  have "case find_capture 1 (traffic (snd ?h)) of None \<Rightarrow> False | Some _ \<Rightarrow> True" by code_simp
  then obtain c where c: "find_capture 1 (traffic (snd ?h)) = Some c" by (auto split: option.splits)
  have "case fst ?h of Inl r \<Rightarrow> fst r = 502 | Inr _ \<Rightarrow> False" by code_simp
  then obtain r where h: "?h = (Inl r, snd ?h)" and code: "fst r = 502"
    by (cases ?h) (auto split: sum.splits)
  have op: "engine_reachable 100 (snd (declining q ad i s))" if "engine_reachable 100 s" for q ad i s
    using that by (simp add: declining_def)
  from handled_request_accounted [OF r op h] c code show ?thesis by (auto simp: default_engine_def)
qed

section \<open>Replay\<close>

text \<open>\<open>show_uri\<close> prints a URI, \<open>authority\<close> is the target's; a missing one is an error.\<close>

definition crlf :: string where
  "crlf = [CHR 0x0D, CHR 0x0A]"

definition replay_text ::
  "'h header_api \<Rightarrow> (uri \<Rightarrow> string) \<Rightarrow> string \<Rightarrow> 'h replay_template \<Rightarrow> string + bytes" where
  "replay_text A show_uri token t =
     (case u_authority (rt_uri t) of
        None \<Rightarrow> Inl ''Replay target has no authority.''
      | Some authority \<Rightarrow>
          Inr (rt_method t @ '' '' @ show_uri (rt_uri t) @ '' HTTP/1.1'' @ crlf
               @ ''Host: '' @ authority @ crlf
               @ internal_replay_header @ '': '' @ token @ crlf
               @ ''Connection: close'' @ crlf
               @ concat (map (\<lambda>(name, value). name @ '': '' @ value @ crlf) (hm_iter A (rt_headers t)))
               @ crlf))"

text \<open>\<open>replay_through_proxy\<close>: connecting, sending, draining the answer, all within 60 seconds.\<close>

definition replay_through_proxy ::
  "'h header_api \<Rightarrow> (uri \<Rightarrow> string) \<Rightarrow> string \<Rightarrow> 'h replay_template \<Rightarrow> bool \<Rightarrow> bool \<Rightarrow> (bytes \<Rightarrow> bool) \<Rightarrow> (bytes \<Rightarrow> bool)
     \<Rightarrow> string + unit" where
  "replay_through_proxy A show_uri token t in_time connects sends drains =
     and_then (replay_text A show_uri token t) (\<lambda>text.
       if \<not> in_time then Inl ''Replay did not complete within 60 seconds.''
       else if \<not> connects then Inl ''Cannot connect to the running proxy for replay.''
       else if \<not> sends text then Inl ''Cannot send the replay request to the proxy.''
       else if \<not> drains text then Inl ''Replay response transfer failed.''
       else Inr ())"

text \<open>The whole of \<open>replay\<close>: whatever the transfer answers, the token is withdrawn.\<close>

definition replay ::
  "nat \<Rightarrow> string option \<Rightarrow> ('h replay_template \<Rightarrow> 'h engine \<Rightarrow> (string + unit) \<times> 'h engine) \<Rightarrow> 'h engine
     \<Rightarrow> (engine_error + snapshot) \<times> 'h engine" where
  "replay i token transfer st =
     (case replay_begin i token st of
        Inl e \<Rightarrow> (Inl e, st)
      | Inr (t, st1) \<Rightarrow>
          (let (result, st2) = transfer t st1;
               st3 = (case token of None \<Rightarrow> st2 | Some k \<Rightarrow> replay_end k st2)
           in (case result of Inl m \<Rightarrow> Inl (ReplayTransfer m) | Inr _ \<Rightarrow> Inr (take_snapshot st3), st3)))"

text \<open>A reference reader of a request head: the request line and the header lines.\<close>

definition split_header :: "string \<Rightarrow> string \<times> string" where
  "split_header l = (case split_once (CHR '':'') l of None \<Rightarrow> (l, '''') | Some (n, v) \<Rightarrow> (n, drop 1 v))"

definition parse_head :: "bytes \<Rightarrow> string \<times> (string \<times> string) list" where
  "parse_head text =
     (let ls = map butlast (takeWhile (\<lambda>l. l \<noteq> [CHR 0x0D]) (split_on (CHR 0x0A) text))
      in (hd ls, map split_header (tl ls)))"

definition one_line :: "string \<Rightarrow> bool" where
  "one_line s \<longleftrightarrow> CHR 0x0A \<notin> set s"

lemma split_line:
  "one_line l \<Longrightarrow> split_on (CHR 0x0A) (l @ crlf @ rest) = (l @ [CHR 0x0D]) # split_on (CHR 0x0A) rest"
  using split_on_append_sep [of "CHR 0x0A" "l @ [CHR 0x0D]" rest] by (simp add: crlf_def one_line_def)

lemma split_lines:
  "list_all one_line ls \<Longrightarrow> split_on (CHR 0x0A) (concat (map (\<lambda>l. l @ crlf) ls) @ crlf)
     = map (\<lambda>l. l @ [CHR 0x0D]) ls @ [[CHR 0x0D], []]"
proof (induction ls)
  case Nil
  show ?case using split_on_append_sep [of "CHR 0x0A" "[CHR 0x0D]" "[]"] by (simp add: crlf_def)
next
  case (Cons l ls)
  then show ?case by (simp add: split_line)
qed

lemma parse_lines:
  assumes "list_all one_line (l # ls)" and "list_all (\<lambda>l. l \<noteq> []) (l # ls)"
  shows "parse_head (concat (map (\<lambda>l. l @ crlf) (l # ls)) @ crlf) = (l, map split_header ls)"
proof -
  have "takeWhile (\<lambda>x. x \<noteq> [CHR 0x0D]) (map (\<lambda>l. l @ [CHR 0x0D]) ks @ [[CHR 0x0D], []])
      = map (\<lambda>l. l @ [CHR 0x0D]) ks" if "list_all (\<lambda>l. l \<noteq> []) ks" for ks :: "string list"
    using that by (induction ks) auto
  with assms show ?thesis
    by (simp add: parse_head_def Let_def split_lines [OF assms(1), simplified] comp_def del: split_on.simps)
qed

lemma split_header_line:
  "CHR '':'' \<notin> set n \<Longrightarrow> split_header (n @ '': '' @ v) = (n, v)"
  by (simp add: split_header_def split_once_Some [THEN iffD2])

lemma split_headers:
  "list_all (\<lambda>(n, v). CHR '':'' \<notin> set n \<and> one_line n \<and> one_line v) ps
   \<Longrightarrow> map split_header (map (\<lambda>(n, v). n @ '': '' @ v) ps) = ps
     \<and> list_all one_line (map (\<lambda>(n, v). n @ '': '' @ v) ps)"
  by (induction ps) (auto simp: split_header_line [simplified] one_line_def)

lemma template_without_token:
  assumes "headers_documented A" and "replay_template_for A request = Some t"
  shows "filter (\<lambda>p. fst p = internal_replay_header) (hm_iter A (rt_headers t)) = []"
proof -
  have "hm_get_all A (rt_headers t) internal_replay_header = []"
  proof -
    have "rt_headers t = fold (hm_remove A) replay_removed (strip_hop_headers A (rq_headers request))"
      using assms(2) by (auto simp: replay_template_for_def split: if_splits)
    moreover have "internal_replay_header \<in> set replay_removed" by (simp add: replay_removed_def)
    ultimately show ?thesis
      by (simp only: get_all_remove_list [OF assms(1)] lower_internal if_True)
  qed
  moreover have "map snd (filter (\<lambda>p. fst p = internal_replay_header) (hm_iter A (rt_headers t)))
      = hm_get_all A (rt_headers t) internal_replay_header"
    using assms(1) by (simp add: headers_documented_def)
  ultimately show ?thesis by simp
qed

text \<open>
  C18: the request a replay sends is the template and nothing else. Read back line by line, it is
  the template's request line, the target's host, the one-time token, \<open>Connection: close\<close> and the
  kept headers in their order; no header value can add a line, and the token is the only value of
  the internal header, so the template cannot bring one of its own.
\<close>

theorem replay_request_roundtrip:
  assumes "headers_documented A" and "replay_template_for A request = Some t"
    and "u_authority (rt_uri t) = Some authority"
    and "one_line (rt_method t)" "one_line (show_uri (rt_uri t))" "one_line authority" "one_line token"
    and "list_all (\<lambda>(n, v). CHR '':'' \<notin> set n \<and> one_line n \<and> one_line v) (hm_iter A (rt_headers t))"
  shows "\<exists>text. replay_text A show_uri token t = Inr text
    \<and> parse_head text =
        (rt_method t @ '' '' @ show_uri (rt_uri t) @ '' HTTP/1.1'',
         [(''Host'', authority), (internal_replay_header, token), (''Connection'', ''close'')]
           @ hm_iter A (rt_headers t))
    \<and> filter (\<lambda>p. fst p = internal_replay_header) (snd (parse_head text)) = [(internal_replay_header, token)]"
proof -
  let ?hs = "hm_iter A (rt_headers t)"
  let ?line = "rt_method t @ '' '' @ show_uri (rt_uri t) @ '' HTTP/1.1''"
  let ?all = "[(''Host'', authority), (internal_replay_header, token), (''Connection'', ''close'')] @ ?hs"
  let ?show = "\<lambda>(n, v). n @ '': '' @ v"
  have sent: "replay_text A show_uri token t
      = Inr (concat (map (\<lambda>l. l @ crlf) (?line # map ?show ?all)) @ crlf)"
    by (simp add: replay_text_def assms(3) comp_def case_prod_beta')
  have names: "list_all (\<lambda>(n, v). CHR '':'' \<notin> set n \<and> one_line n \<and> one_line v) ?all"
    using assms(6,7,8) by (simp add: internal_replay_header_def one_line_def)
  note heads = split_headers [OF names]
  have "list_all one_line (?line # map ?show ?all)"
    using assms(4,5) conjunct2 [OF heads] by (simp add: one_line_def)
  moreover have "list_all (\<lambda>l. l \<noteq> []) (?line # map ?show ?all)" by (auto simp: list_all_iff)
  ultimately have "parse_head (concat (map (\<lambda>l. l @ crlf) (?line # map ?show ?all)) @ crlf)
      = (?line, map split_header (map ?show ?all))"
    by (rule parse_lines)
  then have head: "parse_head (concat (map (\<lambda>l. l @ crlf) (?line # map ?show ?all)) @ crlf) = (?line, ?all)"
    by (simp only: conjunct1 [OF heads])
  have "filter (\<lambda>p. fst p = internal_replay_header) ?all = [(internal_replay_header, token)]"
    using template_without_token [OF assms(1,2)] by (simp add: internal_replay_header_def)
  with sent head show ?thesis by auto
qed

theorem replay_request_roundtrip_witness:
  "\<exists>t text. replay_template_for list_headers (sample_request ''a.test'') = Some t
     \<and> replay_text list_headers (\<lambda>_. ''http://a.test/'') ''tok'' t = Inr text
     \<and> fst (parse_head text) = ''GET http://a.test/ HTTP/1.1''"
proof -
  let ?r = "sample_request ''a.test''"
  obtain t where t: "replay_template_for list_headers ?r = Some t" "rt_method t = ''GET''"
      "u_authority (rt_uri t) = Some ''a.test''" "hm_iter list_headers (rt_headers t) = []"
    by (simp add: replay_template_for_def sample_request_def sample_uri_def list_headers_def
        strip_hop_headers_def nominated_def replay_removed_def hop_headers_def)
  have "one_line ''GET''" "one_line ''http://a.test/''" "one_line ''a.test''" "one_line ''tok''"
    by (simp_all add: one_line_def)
  with replay_request_roundtrip [OF list_headers_documented t(1,3), of "\<lambda>_. ''http://a.test/''" "''tok''"] t
  obtain sent where "replay_text list_headers (\<lambda>_. ''http://a.test/'') ''tok'' t = Inr sent"
      "parse_head sent = (rt_method t @ '' '' @ ''http://a.test/'' @ '' HTTP/1.1'',
        [(''Host'', ''a.test''), (internal_replay_header, ''tok''), (''Connection'', ''close'')])"
    by auto
  with t show ?thesis by auto
qed

end
