(* ===== verification/Proxy_Request.thy ===== *)
theory Proxy_Request
  imports Handle
begin

text \<open>
  One request through the whole proxy: \<open>handle\<close> of \<open>crates/engine/src/proxy.rs\<close> with the operation it
  runs, \<open>establish\<close> for CONNECT and \<open>forward\<close>, \<open>forward_connected\<close> and \<open>forward_with_sender\<close> for
  everything else. The record \<open>network\<close> holds what the outside answers at the points where the
  code awaits something; other tasks run there as well. The theorems compose the properties of
  the parts: a request is a run of the engine's operations, and what an observed destination
  answers reaches the client unchanged.
\<close>

section \<open>The operation\<close>

text \<open>
  \<open>nw_frames\<close> are the polls of the request body, \<open>nw_answer\<close> is what the server answers to the head
  it is sent, \<open>nw_sending\<close> and \<open>nw_waiting\<close> are the other tasks while the request is sent and while
  a breakpoint waits. The deadline of the request may pass while the upstream is connected
  (\<open>nw_stalls\<close>) or before the server answers (\<open>nw_late\<close>).
\<close>

record 'h network =
  nw_resolve :: "string \<Rightarrow> nat \<Rightarrow> (ip_addr \<times> nat) list option"
  nw_connects :: "(ip_addr \<times> nat) list \<Rightarrow> bool"
  nw_stalls :: bool
  nw_handshake :: bool
  nw_frames :: "(nat \<times> frame_event) list"
  nw_sending :: "'h engine \<Rightarrow> 'h engine"
  nw_late :: bool
  nw_answer :: "'h outgoing \<Rightarrow> (u16 \<times> 'h \<times> bool) option"
  nw_waiting :: "'h engine \<Rightarrow> 'h engine"
  nw_decision :: "breakpoint_decision option option"
  nw_task :: "session \<Rightarrow> nat"
  nw_address :: "session \<Rightarrow> nat"
  nw_storage :: storage
  nw_recording :: bool

text \<open>
  The frames of a request body in order. A document that is complete goes to a storing task of
  its own, whose steps are among those of the other tasks.
\<close>

fun send_body :: "nat \<Rightarrow> (nat \<times> frame_event) list \<Rightarrow> bytes option \<Rightarrow> 'h engine \<Rightarrow> 'h engine" where
  "send_body i [] buffer st = st"
| "send_body i ((elapsed, ev) # evs) buffer st =
     (let (buffer', document, st') = request_frame i elapsed ev buffer st
      in send_body i evs buffer' st')"

definition send_request ::
  "'h header_api \<Rightarrow> (string \<Rightarrow> bool) \<Rightarrow> (string \<Rightarrow> string \<Rightarrow> bool) \<Rightarrow> (string \<Rightarrow> bool) \<Rightarrow> bool \<Rightarrow> string \<Rightarrow> 'h request \<Rightarrow> 'h network \<Rightarrow> nat
     \<Rightarrow> 'h engine \<Rightarrow> (u16 \<times> 'h \<times> bool) operation_outcome \<times> 'h engine" where
  "send_request A path_ok target_ok value_ok http2 authority request W i st =
     (case outgoing_request A path_ok target_ok value_ok http2 authority request of
        Inl r \<Rightarrow> (Declined r, st)
      | Inr out \<Rightarrow>
          (let (buffer, st1) = open_request_capture (\<not> rq_end_stream request)
                                 (request_content_type A (og_headers out)) i st;
               st2 = nw_sending W (send_body i (nw_frames W) buffer st1)
           in if nw_late W then (Deadline_Passed, st2)
              else case nw_answer W out of
                None \<Rightarrow> (Declined (502, ''Upstream HTTP request failed.''), st2)
              | Some answer \<Rightarrow> (Completed answer, st2)))"

text \<open>\<open>host\<close> is the host of \<open>authority\<close>.\<close>

definition forward_with_sender ::
  "'h header_api \<Rightarrow> (string \<Rightarrow> bool) \<Rightarrow> (string \<Rightarrow> string \<Rightarrow> bool) \<Rightarrow> (string \<Rightarrow> bool) \<Rightarrow> bool \<Rightarrow> string \<Rightarrow> string \<Rightarrow> 'h request \<Rightarrow> 'h network
     \<Rightarrow> nat \<Rightarrow> nat \<Rightarrow> 'h engine \<Rightarrow> (u16 \<times> 'h \<times> bytes option) operation_outcome \<times> 'h engine" where
  "forward_with_sender A path_ok target_ok value_ok http2 authority host request W i elapsed st =
     (case send_request A path_ok target_ok value_ok http2 authority request W i st of
        (Declined r, st1) \<Rightarrow> (Declined r, st1)
      | (Deadline_Passed, st1) \<Rightarrow> (Deadline_Passed, st1)
      | (Completed (code, h, ended), st1) \<Rightarrow>
          (case respond A http2 i host (u_path (rq_uri request)) (rq_method request) code h ended
                  (nw_decision W) (nw_waiting W) (nw_task W) (nw_address W) (nw_storage W)
                  (nw_recording W) elapsed st1 of
             (None, st2) \<Rightarrow> (Deadline_Passed, st2)
           | (Some answer, st2) \<Rightarrow> (Completed answer, st2)))"

definition uri_host :: "uri \<Rightarrow> string" where
  "uri_host u = (case u_host u of None \<Rightarrow> '''' | Some h \<Rightarrow> h)"

definition uri_authority :: "uri \<Rightarrow> string" where
  "uri_authority u = (case u_authority u of None \<Rightarrow> '''' | Some a \<Rightarrow> a)"

definition forward ::
  "'h header_api \<Rightarrow> (string \<Rightarrow> bool) \<Rightarrow> (string \<Rightarrow> string \<Rightarrow> bool) \<Rightarrow> (string \<Rightarrow> bool) \<Rightarrow> nat \<Rightarrow> 'h network \<Rightarrow> 'h request \<Rightarrow> nat \<Rightarrow> nat
     \<Rightarrow> 'h engine \<Rightarrow> (u16 \<times> 'h \<times> bytes option) operation_outcome \<times> 'h engine" where
  "forward A path_ok target_ok value_ok proxy_port W request i elapsed st =
     (case forward_target A request of
        Inl r \<Rightarrow> (Declined r, st)
      | Inr (host, port) \<Rightarrow>
      if nw_stalls W then (Deadline_Passed, st) else
     (case connect_upstream (nw_resolve W host port) proxy_port (nw_connects W) of
        Inl r \<Rightarrow> (Declined r, st)
      | Inr _ \<Rightarrow>
          if \<not> nw_handshake W then (Declined (502, ''Upstream HTTP handshake failed.''), st)
          else forward_with_sender A path_ok target_ok value_ok False (uri_authority (rq_uri request))
                 (uri_host (rq_uri request)) request W i elapsed st))"

text \<open>
  The operation \<open>handle\<close> runs under its deadline; a tunnel, or a response for the client. For a
  CONNECT the URI is the authority, so its host and port are those of the authority.
\<close>

definition proxy_operation ::
  "'h header_api \<Rightarrow> (string \<Rightarrow> bool) \<Rightarrow> (string \<Rightarrow> string \<Rightarrow> bool) \<Rightarrow> (string \<Rightarrow> bool) \<Rightarrow> nat
     \<Rightarrow> (destination_class \<Rightarrow> string option \<Rightarrow> string \<Rightarrow> 'e + (string \<times> issued_leaf) option) option
     \<Rightarrow> bool \<Rightarrow> bool \<Rightarrow> 'h network \<Rightarrow> nat \<Rightarrow> 'h request \<Rightarrow> admission \<Rightarrow> nat \<Rightarrow> 'h engine
     \<Rightarrow> (tunnel + u16 \<times> 'h \<times> bytes option) operation_outcome \<times> 'h engine" where
  "proxy_operation A path_ok target_ok value_ok proxy_port tls slot owner W elapsed request ad i st =
     (if rq_method request = ''CONNECT''
      then if nw_stalls W
             \<and> is_ok (connect_target A (uri_host (rq_uri request)) (u_port (rq_uri request)) request)
           then (Deadline_Passed, st)
           else case establish A (uri_host (rq_uri request)) (u_port (rq_uri request)) request
                  (map_option (\<lambda>prep. prep (ad_class ad) (ad_profile ad)) tls)
                  (nw_resolve W) proxy_port (nw_connects W) slot owner i (ad_class ad) (ad_profile ad) st of
             (Inl r, st') \<Rightarrow> (Declined r, st')
           | (Inr tn, st') \<Rightarrow> (Completed (Inl tn), st')
      else case forward A path_ok target_ok value_ok proxy_port W request i elapsed st of
             (Completed answer, st') \<Rightarrow> (Completed (Inr answer), st')
           | (Declined r, st') \<Rightarrow> (Declined r, st')
           | (Deadline_Passed, st') \<Rightarrow> (Deadline_Passed, st'))"

section \<open>What the client is sent\<close>

text \<open>
  The proxy's own responses: \<open>response\<close> with a message, and the challenge for credentials.
  \<open>none\<close> is the empty header map.
\<close>

definition plain_response :: "'h header_api \<Rightarrow> 'h \<Rightarrow> u16 \<Rightarrow> string \<Rightarrow> u16 \<times> 'h \<times> bytes option" where
  "plain_response A none code message =
     (code, hm_insert A ''content-type'' ''text/plain; charset=utf-8'' none, Some message)"

definition proxy_authentication_required :: "'h header_api \<Rightarrow> 'h \<Rightarrow> u16 \<times> 'h \<times> bytes option" where
  "proxy_authentication_required A none =
     (let (code, h, body) = plain_response A none 407 ''Valid proxy client credentials are required.''
      in (code, hm_insert A ''proxy-authenticate''
                  (''Basic realm='' @ [CHR 0x22] @ ''Sippin Soda'' @ [CHR 0x22]
                     @ '', charset='' @ [CHR 0x22] @ ''UTF-8'' @ [CHR 0x22]) h, body))"

text \<open>
  The response for the outcome of \<open>handle\<close>. Only \<open>admit\<close> refuses with 407. A tunnel is
  acknowledged without headers; \<open>None\<close> as the body is the one of the upstream, streamed.
\<close>

definition client_answer ::
  "'h header_api \<Rightarrow> 'h \<Rightarrow> refusal + tunnel + u16 \<times> 'h \<times> bytes option \<Rightarrow> u16 \<times> 'h \<times> bytes option" where
  "client_answer A none result =
     (case result of
        Inl (code, message) \<Rightarrow>
          if code = 407 then proxy_authentication_required A none else plain_response A none code message
      | Inr (Inl _) \<Rightarrow> (200, none, Some '''')
      | Inr (Inr answer) \<Rightarrow> answer)"

section \<open>A request is a run of the engine\<close>

text \<open>
  What the theorems below rely on: other tasks run operations of the engine, the addresses and
  storing tasks supplied are unused, and a decision is one that was accepted.
\<close>

definition network_ok :: "u64 \<Rightarrow> 'h network \<Rightarrow> bool" where
  "network_ok L W \<longleftrightarrow>
     (\<forall>st. runs L st (nw_sending W st) \<and> runs L st (nw_waiting W st))
     \<and> (\<forall>s. store_inv L s \<longrightarrow> heap s (nw_address W s) = None \<and> tickets s (nw_task W s) = None)
     \<and> (case nw_decision W of
          Some (Some d) \<Rightarrow> (\<forall>b. bd_body d = Some b \<longrightarrow> length b \<le> max_replacement)
        | _ \<Rightarrow> True)"

lemma send_body_runs: "runs L st (send_body i evs buffer st)"
proof (induction i evs buffer st rule: send_body.induct)
  case (2 i elapsed ev evs buffer st)
  obtain buffer' document st' where r: "request_frame i elapsed ev buffer st = (buffer', document, st')"
    by (metis prod_cases3)
  then have "engine_step L st st'" using op_request_frame [of L st i elapsed ev buffer] by simp
  with 2 [OF r [symmetric] refl] show ?case by (simp add: r converse_rtranclp_into_rtranclp)
qed simp

lemma send_request_runs:
  assumes "network_ok L W"
  shows "runs L st (snd (send_request A path_ok target_ok value_ok http2 authority request W i st))"
proof (cases "outgoing_request A path_ok target_ok value_ok http2 authority request")
  case (Inr out)
  obtain buffer st1 where o: "open_request_capture (\<not> rq_end_stream request)
      (request_content_type A (og_headers out)) i st = (buffer, st1)" by force
  then have "engine_step L st st1"
    using op_open_capture [of L st "\<not> rq_end_stream request" "request_content_type A (og_headers out)" i]
    by simp
  then have "runs L st (send_body i (nw_frames W) buffer st1)"
    by (meson converse_rtranclp_into_rtranclp send_body_runs)
  then have "runs L st (nw_sending W (send_body i (nw_frames W) buffer st1))"
    using assms unfolding network_ok_def by (meson rtranclp_trans)
  with Inr o show ?thesis by (simp add: send_request_def Let_def split: option.split)
qed (simp add: send_request_def)

text \<open>The replacement decided on is one of a rule, or of the decision.\<close>

lemma decide_response_small:
  assumes "rules_small st" and "case decision of Some (Some d) \<Rightarrow>
      (\<forall>b. bd_body d = Some b \<longrightarrow> length b \<le> max_replacement) | _ \<Rightarrow> True"
    and "decide_response i host path method code decision meanwhile st = (Some (code2, Some r), st')"
  shows "length (fst r) \<le> max_replacement"
proof -
  obtain code1 rep st1 where rule: "apply_rule i host path method code st = (code1, rep, st1)"
    by (metis prod_cases3)
  have "length (fst q) \<le> max_replacement" if small: "rep = Some q" for q
  proof -
    obtain rr where rr: "select_rule (response_rules st) (rule_host host) path method = Some rr"
      and b: "rr_body rr = Some (fst q)"
      using rule small by (auto simp: apply_rule_def split: option.splits if_splits)
    from rr have "rr \<in> set (response_rules st)" by (auto simp: select_rule_def find_Some_iff)
    with assms(1) b show ?thesis by (auto simp: rules_small_def)
  qed
  then show ?thesis
    using assms(2,3)
    by (auto simp: decide_response_def rule close_breakpoint_def Let_def
        split: prod.splits if_splits option.splits)
qed

lemma may_modify_class: "may_modify i st \<Longrightarrow> \<exists>c. find_capture i (traffic st) = Some c \<and> cap_class c = Development"
  by (auto simp: may_modify_def authorize_ok_iff split: option.splits)

text \<open>A breakpoint is closed on a capture that still is one of a Development destination.\<close>

lemma decide_response_runs:
  assumes "engine_reachable L st" and others: "\<And>st. runs L st (meanwhile st)"
    and dec: "decide_response i host path method code decision meanwhile st = (chosen, st')"
  shows "runs L st st'"
proof -
  obtain code1 rep st1 where rule: "apply_rule i host path method code st = (code1, rep, st1)"
    by (metis prod_cases3)
  obtain waiting st2 where open_bp: "open_breakpoint i code1 st1 = (waiting, st2)" by force
  have s1: "engine_step L st st1" using op_rule [of L st i host path "method" code] rule by simp
  have s2: "engine_step L st1 st2" using op_open [of L st1 i code1] open_bp by simp
  have run2: "runs L st st2" by (rule engine_two_steps [OF s1 s2])
  show ?thesis
  proof (cases waiting)
    case False
    with dec run2 show ?thesis by (simp add: decide_response_def rule open_bp)
  next
    case True
    let ?m = "meanwhile st2"
    have run3: "runs L st ?m" using run2 others by (rule rtranclp_trans)
    have may: "may_modify i st1" using open_bp True by (auto simp: open_breakpoint_def split: if_splits)
    then obtain c where c: "find_capture i (traffic st1) = Some c" "cap_class c = Development"
      using may_modify_class by blast
    have reach1: "engine_reachable L st1" using assms(1) s1 by (blast intro: runs_reachable)
    then have "i < next_id st1"
      using engine_reachable_inv [OF reach1] find_capture_Some [OF c(1)]
      by (auto simp: engine_inv_def traffic_ok_def list_all_iff)
    moreover have "runs L st1 ?m" using s2 others by (meson converse_rtranclp_into_rtranclp)
    ultimately have dev: "cap_class c' = Development" if "find_capture i (traffic ?m) = Some c'" for c'
      using runs_class [OF reach1 _ _ that] c by fastforce
    show ?thesis
    proof (cases decision)
      case None
      with dec True show ?thesis
        by (simp add: decide_response_def rule open_bp) (metis runs_step [OF run3 op_abandon])
    next
      case (Some d)
      then have "st' = snd (snd (close_breakpoint i d (code1, rep) ?m))"
        using dec True by (simp add: decide_response_def rule open_bp split: prod.splits) 
      with runs_step [OF run3 op_close] dev show ?thesis by blast
    qed
  qed
qed

lemma finish_empty_runs: "runs L st st' \<Longrightarrow> runs L st (finish_empty ended i elapsed st')"
  by (auto simp: finish_empty_def intro: runs_step op_finish)

lemma respond_runs:
  assumes reach: "engine_reachable L st" and net: "network_ok L W"
  shows "runs L st (snd (respond A http2 i host path method code h ended (nw_decision W) (nw_waiting W)
      (nw_task W) (nw_address W) (nw_storage W) (nw_recording W) elapsed st))"
proof -
  obtain chosen st3 where dec: "decide_response i host path method code (nw_decision W) (nw_waiting W) st
      = (chosen, st3)" by force
  have run: "runs L st st3"
    using net by (intro decide_response_runs [OF reach _ dec]) (simp add: network_ok_def)
  have "store_inv L (bodies st3)"
    using engine_reachable_inv [OF runs_reachable [OF reach run]] by (simp add: engine_inv_def)
  then have free: "heap (bodies st3) (nw_address W (bodies st3)) = None"
      "tickets (bodies st3) (nw_task W (bodies st3)) = None"
    using net by (simp_all add: network_ok_def)
  consider "chosen = None" | code2 where "chosen = Some (code2, None)"
    | code2 r where "chosen = Some (code2, Some r)" by (metis option.exhaust surj_pair)
  then show ?thesis
  proof cases
    case 1
    with run show ?thesis by (simp add: respond_def dec)
  next
    case 2
    let ?a = "if nw_recording W then Some (nw_address W (bodies st3)) else None"
    have "engine_step L st3 (snd (pass_response A i code2 h ended ?a st3))"
      by (rule op_pass) (use free in \<open>simp split: if_splits\<close>)
    with run have pass: "runs L st (snd (pass_response A i code2 h ended ?a st3))" by (rule runs_step)
    then have "runs L st (finish_empty ended i elapsed (snd (pass_response A i code2 h ended ?a st3)))"
      by (rule finish_empty_runs)
    with 2 show ?thesis by (simp only: respond_def dec) (simp add: case_prod_beta Let_def del: if_split)
  next
    case 3
    have "length (fst r) \<le> max_replacement"
      using reachable_rules_small [OF reach] net dec [unfolded 3]
      by (intro decide_response_small) (auto simp: network_ok_def)
    then have "length (fst r) < 2 ^ 64" by (simp add: max_replacement_def)
    then have "engine_step L st3 (snd (replace_response A http2 i code2 r h (nw_task W (bodies st3))
        (nw_address W (bodies st3)) (nw_storage W) elapsed st3))"
      using free by (intro op_replace)
    with 3 run show ?thesis by (simp add: respond_def dec case_prod_beta Let_def runs_step)
  qed
qed

lemma forward_with_sender_runs:
  assumes reach: "engine_reachable L st" and net: "network_ok L W"
  shows "runs L st (snd (forward_with_sender A path_ok target_ok value_ok http2 authority host request W i elapsed st))"
proof -
  obtain answer st1 where s: "send_request A path_ok target_ok value_ok http2 authority request W i st = (answer, st1)"
    by force
  have run: "runs L st st1"
    using send_request_runs [OF net, of st A path_ok target_ok value_ok http2 authority request i] s by simp
  show ?thesis
  proof (cases answer)
    case (Completed p)
    obtain code h ended where p: "p = (code, h, ended)" by (metis prod_cases3)
    have "runs L st1 (snd (respond A http2 i host (u_path (rq_uri request)) (rq_method request) code h ended
        (nw_decision W) (nw_waiting W) (nw_task W) (nw_address W) (nw_storage W) (nw_recording W) elapsed st1))"
      by (rule respond_runs [OF runs_reachable [OF reach run] net])
    with run have "runs L st (snd (respond A http2 i host (u_path (rq_uri request)) (rq_method request) code h
        ended (nw_decision W) (nw_waiting W) (nw_task W) (nw_address W) (nw_storage W) (nw_recording W)
        elapsed st1))" by (rule rtranclp_trans)
    then show ?thesis
      by (simp add: forward_with_sender_def s Completed p case_prod_beta split: option.split)
  qed (use run in \<open>simp_all add: forward_with_sender_def s\<close>)
qed

lemma forward_runs:
  assumes "engine_reachable L st" and "network_ok L W"
  shows "runs L st (snd (forward A path_ok target_ok value_ok proxy_port W request i elapsed st))"
  using forward_with_sender_runs [OF assms] by (simp add: forward_def split: sum.split prod.split)

lemma proxy_operation_runs:
  assumes "engine_reachable L st" and "network_ok L W"
  shows "runs L st (snd (proxy_operation A path_ok target_ok value_ok proxy_port tls slot owner W elapsed request ad i st))"
proof (cases "rq_method request = ''CONNECT''")
  case True
  obtain result st' where e: "establish A (uri_host (rq_uri request)) (u_port (rq_uri request)) request
      (map_option (\<lambda>prep. prep (ad_class ad) (ad_profile ad)) tls)
      (nw_resolve W) proxy_port (nw_connects W) slot owner i (ad_class ad) (ad_profile ad) st = (result, st')"
    by force
  with establish_steps [OF e] True show ?thesis by (simp add: proxy_operation_def split: sum.split)
next
  case False
  obtain answer st' where f: "forward A path_ok target_ok value_ok proxy_port W request i elapsed st = (answer, st')"
    by force
  with forward_runs [OF assms, of A path_ok target_ok value_ok proxy_port request i elapsed] False
  show ?thesis by (simp add: proxy_operation_def split: operation_outcome.split)
qed

section \<open>Every request is accounted for\<close>

lemma find_finish:
  "find_capture i (traffic (exchange_finish i error elapsed st))
     = map_option (finish_capture error elapsed) (find_capture i (traffic st))"
proof -
  have "cap_id (finish_capture e d c) = cap_id c" for e d c by (simp add: finish_capture_def)
  then show ?thesis by (simp add: exchange_finish_def bump_def exchange_update_def find_update_capture)
qed

lemma finish_capture_facts:
  "cap_status (finish_capture e d c) = cap_status c" "cap_phase (finish_capture e d c) \<noteq> ''pending''"
  "cap_response_headers (finish_capture e d c) = cap_response_headers c"
  by (simp_all add: finish_capture_def)

text \<open>What the client is answered is what the capture shows.\<close>

lemma replace_response_shows:
  assumes "replace_response A http2 i code replacement h t a storage elapsed st = (Some head, st')"
    and "find_capture i (traffic st') = Some c"
  shows "cap_status c = Some code \<and> cap_phase c \<noteq> ''pending''
    \<and> cap_response_headers c = safe_headers A head"
  using assms
  by (auto simp: replace_response_def Let_def find_finish finish_capture_facts find_update_capture show_response_def
      split: if_splits prod.splits option.splits sum.splits)

lemma pass_response_shows:
  assumes "find_capture i (traffic (snd (pass_response A i code h ended a st))) = Some c"
  shows "cap_status c = Some code"
  using assms
  by (auto simp: pass_response_def Let_def find_update_capture show_response_def split: if_splits option.splits)

lemma respond_shows:
  assumes "respond A http2 i host path method code h ended decision meanwhile t a storage tap elapsed st
      = (Some (code', head, body), st')" and "find_capture i (traffic st') = Some c"
  shows "cap_status c = Some code'
    \<and> (body \<noteq> None \<longrightarrow> cap_phase c \<noteq> ''pending'' \<and> cap_response_headers c = safe_headers A head)"
proof -
  obtain code2 rep st3 where dec: "decide_response i host path method code decision meanwhile st
      = (Some (code2, rep), st3)"
    using assms(1) by (auto simp: respond_def split: prod.splits option.splits)
  show ?thesis
  proof (cases rep)
    case None
    let ?p = "pass_response A i code2 h ended (if tap then Some (a (bodies st3)) else None) st3"
    have "code' = code2" "body = None" "st' = finish_empty ended i elapsed (snd ?p)"
      using assms(1) by (auto simp: respond_def dec None case_prod_beta)
    with assms(2) pass_response_shows [of i A code2 h ended _ st3] show ?thesis
      by (auto simp: finish_empty_def find_finish finish_capture_facts simp del: if_split split: if_split_asm)
  next
    case (Some r)
    obtain hd' where rep: "replace_response A http2 i code2 r h (t (bodies st3)) (a (bodies st3)) storage
        elapsed st3 = (Some hd', st')" and "code' = code2" "head = hd'"
      using assms(1) by (auto simp: respond_def dec Some split: prod.splits)
    with replace_response_shows [OF rep assms(2)] show ?thesis by simp
  qed
qed

lemma handle_Inr:
  assumes "handle A sha b64 auth request now elapsed operation st = (Inr x, st')"
  obtains request' ad st1 i st2 where "admit A sha b64 auth request st = (Inr (request', ad), st1)"
    and "begin_exchange A request' (ad_class ad) (ad_profile ad) (ad_replay_of ad) now st1 = (i, st2)"
    and "operation request' ad i st2 = (Completed x, st')"
  using assms
  by (force simp: handle_def Let_def split: prod.splits sum.splits operation_outcome.splits)

lemma operation_answer:
  assumes net: "network_ok L W"
    and op: "proxy_operation A path_ok target_ok value_ok proxy_port tls slot owner W elapsed request ad i st
      = (Completed (Inr answer), st')"
  obtains out code h ended st1
  where "outgoing_request A path_ok target_ok value_ok False (uri_authority (rq_uri request)) request = Inr out"
    and "nw_answer W out = Some (code, h, ended)" and "runs L st st1"
    and "respond A False i (uri_host (rq_uri request)) (u_path (rq_uri request)) (rq_method request) code h
      ended (nw_decision W) (nw_waiting W) (nw_task W) (nw_address W) (nw_storage W) (nw_recording W)
      elapsed st1 = (Some answer, st')"
proof -
  let ?authority = "uri_authority (rq_uri request)"
  have fwd: "forward A path_ok target_ok value_ok proxy_port W request i elapsed st = (Completed answer, st')"
    using op by (auto simp: proxy_operation_def split: if_splits prod.splits sum.splits operation_outcome.splits)
  then have "forward_with_sender A path_ok target_ok value_ok False ?authority (uri_host (rq_uri request)) request W i
      elapsed st = (Completed answer, st')"
    by (auto simp: forward_def split: if_splits prod.splits sum.splits)
  then obtain code h ended st1
    where s: "send_request A path_ok target_ok value_ok False ?authority request W i st = (Completed (code, h, ended), st1)"
      and r: "respond A False i (uri_host (rq_uri request)) (u_path (rq_uri request)) (rq_method request)
        code h ended (nw_decision W) (nw_waiting W) (nw_task W) (nw_address W) (nw_storage W)
        (nw_recording W) elapsed st1 = (Some answer, st')"
    by (auto simp: forward_with_sender_def split: prod.splits option.splits operation_outcome.splits)
  obtain out where "outgoing_request A path_ok target_ok value_ok False ?authority request = Inr out"
    and "nw_answer W out = Some (code, h, ended)"
    using s by (auto simp: send_request_def Let_def split: sum.splits prod.splits if_splits option.splits)
  moreover have "runs L st st1"
    using send_request_runs [OF net, of st A path_ok target_ok value_ok False ?authority request i] s by simp
  ultimately show thesis using r by (rule that)
qed

lemma begin_finds_capture:
  assumes "begin_exchange A request cls profile origin now st = (i, st')" and "engine_reachable L st'"
  shows "i < next_id st' \<and> (\<exists>c. find_capture i (traffic st') = Some c \<and> cap_class c = cls \<and> cap_phase c = ''pending'')"
proof -
  let ?c = "new_capture A i request cls profile origin now"
  have "?c \<in> set (traffic st')" and i: "i < next_id st'"
    using assms(1) by (auto simp: begin_exchange_def Let_def set_captures_def split: option.splits)
  moreover have "distinct (map cap_id (traffic st'))"
    using engine_reachable_inv [OF assms(2)] by (simp add: engine_inv_def traffic_ok_def strict_sorted_iff)
  ultimately have "find_capture i (traffic st') = Some ?c"
    by (intro find_capture_distinct) (simp_all add: new_capture_def)
  with i show ?thesis by (simp add: new_capture_def)
qed

lemma admitted_runs:
  assumes "engine_reachable L st" and "admit A sha b64 auth request st = (Inr (request', ad), st1)"
    and "begin_exchange A request' (ad_class ad) (ad_profile ad) (ad_replay_of ad) now st1 = (i, st2)"
  shows "engine_reachable L st2 \<and> i = next_id st"
proof -
  have snd: "st1 = snd (claim_token (internal_token A (rq_headers request)) st)"
    using admit_state [of A sha b64 auth request st] assms(2) by simp
  have "engine_step L st st1" unfolding snd by (rule op_claim)
  moreover have "engine_step L st1 st2"
    using op_begin [OF assms(3)] admit_Inr_class [OF assms(2)] by blast
  ultimately have "runs L st st2" by (rule engine_two_steps)
  moreover have "next_id st1 = next_id st" by (simp add: snd claim_token_def split: option.split)
  ultimately show ?thesis
    using assms(1,3) by (auto intro: runs_reachable simp: begin_exchange_def Let_def)
qed

lemma answer_status_Inl: "fst (client_answer A none (Inl r)) = fst r"
  by (cases r) (simp add: client_answer_def plain_response_def proxy_authentication_required_def)

lemma tunnel_shown:
  assumes b: "begin_exchange A request cls profile origin now st = (i, st2)" and reach: "engine_reachable L st2"
    and op: "proxy_operation A path_ok target_ok value_ok proxy_port tls slot owner W elapsed request ad i st2
      = (Completed (Inl tn), st')"
    and c: "find_capture i (traffic st') = Some c"
  shows "tn_exchange tn = i \<and> cap_status c = Some 200 \<and> cap_phase c = ''pending''"
proof -
  have fresh: "cap_phase c0 = ''pending''" if "find_capture i (traffic st2) = Some c0" for c0
    using begin_finds_capture [OF b reach] that by auto
  have e: "establish A (uri_host (rq_uri request)) (u_port (rq_uri request)) request
      (map_option (\<lambda>prep. prep (ad_class ad) (ad_profile ad)) tls) (nw_resolve W) proxy_port
      (nw_connects W) slot owner i (ad_class ad) (ad_profile ad) st2 = (Inr tn, st')"
    using op
    by (auto simp: proxy_operation_def split: if_splits prod.splits sum.splits operation_outcome.splits)
  show ?thesis
    by (rule establish_Inr [OF e])
      (use c fresh in \<open>auto simp: bump_def exchange_update_def find_update_capture split: if_splits\<close>)
qed

text \<open>
  C7: every request is accounted for. Whatever the network answers and whatever other tasks do, a
  request is a run of the engine's operations, so the engine stays consistent. The client and the
  capture agree: the status shown is the one the client is answered, whether the proxy refused,
  failed, opened a tunnel or forwarded a response. After an error the exchange is over; a tunnel
  belongs to an exchange that is not; a replaced response is shown with the headers the client
  gets, its exchange complete.
\<close>

theorem proxied_request_accounted:
  assumes reach: "engine_reachable L st" and net: "network_ok L W"
    and run: "handle A sha b64 auth request now elapsed
      (proxy_operation A path_ok target_ok value_ok proxy_port tls slot owner W elapsed) st = (result, st')"
  shows "engine_reachable L st'
    \<and> (\<forall>c. find_capture (next_id st) (traffic st') = Some c \<longrightarrow>
          cap_status c = Some (fst (client_answer A none result))
          \<and> (case result of
               Inl _ \<Rightarrow> cap_phase c \<noteq> ''pending''
             | Inr (Inl tn) \<Rightarrow> tn_exchange tn = next_id st \<and> cap_phase c = ''pending''
             | Inr (Inr (code, head, body)) \<Rightarrow>
                 body \<noteq> None \<longrightarrow> cap_phase c \<noteq> ''pending'' \<and> cap_response_headers c = safe_headers A head))"
proof -
  have "engine_reachable L (snd (proxy_operation A path_ok target_ok value_ok proxy_port tls slot owner W elapsed
      request' ad i s))" if "engine_reachable L s" for request' ad i s
    using that proxy_operation_runs [OF that net] by (rule runs_reachable)
  note handled = handled_request_accounted [OF reach this run]
  have "cap_status c = Some (fst (client_answer A none result))
      \<and> (case result of Inl _ \<Rightarrow> cap_phase c \<noteq> ''pending''
         | Inr (Inl tn) \<Rightarrow> tn_exchange tn = next_id st \<and> cap_phase c = ''pending''
         | Inr (Inr (code, head, body)) \<Rightarrow>
             body \<noteq> None \<longrightarrow> cap_phase c \<noteq> ''pending'' \<and> cap_response_headers c = safe_headers A head)"
    if c: "find_capture (next_id st) (traffic st') = Some c" for c
  proof (cases result)
    case (Inl r)
    with handled c show ?thesis by (simp add: answer_status_Inl)
  next
    case (Inr x)
    show ?thesis
    proof (rule handle_Inr [OF run [unfolded Inr]])
      fix request' ad st1 i st2
      assume adm: "admit A sha b64 auth request st = (Inr (request', ad), st1)"
        and b: "begin_exchange A request' (ad_class ad) (ad_profile ad) (ad_replay_of ad) now st1 = (i, st2)"
        and op: "proxy_operation A path_ok target_ok value_ok proxy_port tls slot owner W elapsed request' ad i
          st2 = (Completed x, st')"
      have reach2: "engine_reachable L st2" and i: "i = next_id st"
        using admitted_runs [OF reach adm b] by simp_all
      show ?thesis
      proof (cases x)
        case (Inl tn)
        from tunnel_shown [OF b reach2 op [unfolded Inl] c [folded i]] show ?thesis
          by (simp add: Inr Inl i client_answer_def)
      next
        case (Inr answer)
        show ?thesis
          by (rule operation_answer [OF net op [unfolded Inr]])
            (use c in \<open>auto simp: \<open>result = Inr x\<close> Inr i client_answer_def dest!: respond_shows split: prod.split\<close>)
      qed
    qed
  qed
  with handled show ?thesis by blast
qed

text \<open>
  C6: a destination that is not Development is only observed, from end to end. If the rules do
  not classify the requested host as Development, then the response the client gets is the one
  the server gave to the forwarded request: its status, its head without hop-by-hop headers, its
  body. No rule, no breakpoint and no decision, whenever it was configured, changes it.
\<close>

theorem observed_destination_untouched:
  assumes reach: "engine_reachable L st" and net: "network_ok L W"
    and run: "handle A sha b64 auth request now elapsed
      (proxy_operation A path_ok target_ok value_ok proxy_port tls slot owner W elapsed) st
      = (Inr (Inr (code, head, body)), st')"
    and observed: "classify (classifier st) (uri_host (rq_uri request)) \<noteq> Development"
  shows "\<exists>out h ended.
      outgoing_request A path_ok target_ok value_ok False (uri_authority (rq_uri request))
        (request\<lparr>rq_headers := hm_remove A internal_replay_header (rq_headers request)\<rparr>) = Inr out
      \<and> nw_answer W out = Some (code, h, ended) \<and> head = strip_hop_headers A h \<and> body = None"
proof (rule handle_Inr [OF run])
  fix request' ad st1 i st2
  assume adm: "admit A sha b64 auth request st = (Inr (request', ad), st1)"
    and b: "begin_exchange A request' (ad_class ad) (ad_profile ad) (ad_replay_of ad) now st1 = (i, st2)"
    and op: "proxy_operation A path_ok target_ok value_ok proxy_port tls slot owner W elapsed request' ad i st2
      = (Completed (Inr (code, head, body)), st')"
  let ?stripped = "request\<lparr>rq_headers := hm_remove A internal_replay_header (rq_headers request)\<rparr>"
  have request': "request' = ?stripped" and "ad_class ad = classify (classifier st) (uri_host (rq_uri request))"
    using adm
    by (auto simp: admit_def Let_def claim_token_def uri_host_def split: prod.splits option.splits if_splits)
  with observed have cls: "ad_class ad \<noteq> Development" by simp
  have reach2: "engine_reachable L st2" using admitted_runs [OF reach adm b] by blast
  obtain c where i: "i < next_id st2" and c: "find_capture i (traffic st2) = Some c" "cap_class c = ad_class ad"
    using begin_finds_capture [OF b reach2] by blast
  obtain out code0 h ended st3
    where out: "outgoing_request A path_ok target_ok value_ok False (uri_authority (rq_uri request')) request' = Inr out"
      and answer: "nw_answer W out = Some (code0, h, ended)" and sent: "runs L st2 st3"
      and r: "respond A False i (uri_host (rq_uri request')) (u_path (rq_uri request')) (rq_method request')
        code0 h ended (nw_decision W) (nw_waiting W) (nw_task W) (nw_address W) (nw_storage W)
        (nw_recording W) elapsed st3 = (Some (code, head, body), st')"
    by (rule operation_answer [OF net op])
  have "case find_capture i (traffic st3) of None \<Rightarrow> True | Some c \<Rightarrow> cap_class c \<noteq> Development"
    using runs_class [OF reach2 sent i] c cls by (fastforce split: option.split)
  from observed_response_forwarded [OF this] r
  have "code = code0" "head = strip_hop_headers A h" "body = None" by fastforce+
  with out answer show ?thesis unfolding request' by auto
qed

section \<open>A request on a concrete network\<close>

text \<open>A supply of unused keys: the search ends because only finitely many are in use.\<close>

partial_function (option) free_from :: "nat \<Rightarrow> (nat \<Rightarrow> 'v option) \<Rightarrow> nat option" where
  "free_from k m = (if m k = None then Some k else free_from (Suc k) m)"

declare free_from.simps [code]

lemma free_from_returns: "m n = None \<Longrightarrow> k \<le> n \<Longrightarrow> \<exists>j. free_from k m = Some j \<and> m j = None"
proof (induction "n - k" arbitrary: k)
  case 0
  then show ?case by (subst free_from.simps) simp
next
  case (Suc d)
  show ?case
  proof (cases "m k = None")
    case True
    then show ?thesis by (subst free_from.simps) simp
  next
    case False
    with Suc have "d = n - Suc k" "Suc k \<le> n" by auto
    with Suc obtain j where "free_from (Suc k) m = Some j" "m j = None" by blast
    with False show ?thesis by (subst free_from.simps) simp
  qed
qed

definition first_free :: "(nat \<Rightarrow> 'v option) \<Rightarrow> nat" where
  "first_free m = (case free_from 0 m of None \<Rightarrow> 0 | Some k \<Rightarrow> k)"

lemma first_free:
  assumes "finite (dom m)"
  shows "m (first_free m) = None"
proof -
  obtain n where "m n = None" using assms by (metis domIff ex_new_if_finite infinite_UNIV_nat)
  then obtain j where "free_from 0 m = Some j" "m j = None" using free_from_returns by blast
  then show ?thesis by (simp add: first_free_def)
qed

text \<open>A server that answers 503 with one hop-by-hop header; nothing else happens.\<close>

definition sample_network :: "(string \<times> bytes) list network" where
  "sample_network =
     \<lparr>nw_resolve = \<lambda>_ p. Some [(V4 [10, 0, 0, 7], p)], nw_connects = \<lambda>_. True, nw_stalls = False,
      nw_handshake = True, nw_frames = [(1, Body_End)], nw_sending = \<lambda>st. st, nw_late = False,
      nw_answer = \<lambda>_. Some (503, [(''connection'', ''close''), (''via'', ''y'')], True),
      nw_waiting = \<lambda>st. st, nw_decision = Some None, nw_task = \<lambda>s. first_free (tickets s),
      nw_address = \<lambda>s. first_free (heap s), nw_storage = Written, nw_recording = False\<rparr>"

lemma sample_network_ok: "network_ok L sample_network"
  by (simp add: network_ok_def sample_network_def first_free store_inv_def budget_ok_def)

definition sample_run ::
  "(refusal + tunnel + u16 \<times> (string \<times> bytes) list \<times> bytes option) \<times> (string \<times> bytes) list engine" where
  "sample_run = handle list_headers id (\<lambda>_. None) None (sample_request ''a.test'') 0 5
     (proxy_operation list_headers (\<lambda>_. True) (\<lambda>_ _. True) (\<lambda>_. True) 9090
        (None :: (destination_class \<Rightarrow> string option \<Rightarrow> string \<Rightarrow> unit + (string \<times> issued_leaf) option) option)
        True True sample_network 5) default_engine"

lemma sample_run_result: "fst sample_run = Inr (Inr (503, [(''via'', ''y'')], None))"
  by code_simp

lemma sample_run_handled:
  "handle list_headers id (\<lambda>_. None) None (sample_request ''a.test'') 0 5
     (proxy_operation list_headers (\<lambda>_. True) (\<lambda>_ _. True) (\<lambda>_. True) 9090
        (None :: (destination_class \<Rightarrow> string option \<Rightarrow> string \<Rightarrow> unit + (string \<times> issued_leaf) option) option)
        True True sample_network 5) default_engine
     = (Inr (Inr (503, [(''via'', ''y'')], None)), snd sample_run)"
  using sample_run_result unfolding sample_run_def by (metis prod.collapse)

lemma default_reachable: "engine_reachable L default_engine"
  by (simp add: engine_reachable_def)

theorem proxied_request_accounted_witness:
  "\<exists>c. find_capture 1 (traffic (snd sample_run)) = Some c \<and> cap_status c = Some 503"
proof -
  have "case find_capture 1 (traffic (snd sample_run)) of None \<Rightarrow> False | Some _ \<Rightarrow> True" by code_simp
  then obtain c where "find_capture 1 (traffic (snd sample_run)) = Some c" by (auto split: option.splits)
  with proxied_request_accounted [OF default_reachable sample_network_ok [of 100] sample_run_handled, of "[]"]
  show ?thesis by (auto simp: default_engine_def client_answer_def)
qed

theorem observed_destination_untouched_witness:
  "\<exists>out h ended. outgoing_request list_headers (\<lambda>_. True) (\<lambda>_ _. True) (\<lambda>_. True) False ''a.test''
       ((sample_request ''a.test'')\<lparr>rq_headers := hm_remove list_headers internal_replay_header
          (rq_headers (sample_request ''a.test''))\<rparr>) = Inr out
     \<and> nw_answer sample_network out = Some (503, h, ended)
     \<and> [(''via'', ''y'')] = strip_hop_headers list_headers h"
proof -
  have cls: "classify (classifier default_engine) (uri_host (rq_uri (sample_request ''a.test''))) \<noteq> Development"
    by code_simp
  have authority: "uri_authority (rq_uri (sample_request ''a.test'')) = ''a.test''" by code_simp
  from observed_destination_untouched [OF default_reachable sample_network_ok [of 100] sample_run_handled cls]
  show ?thesis unfolding authority by fast
qed

end
