(* ===== verification/Desktop.thy ===== *)
theory Desktop
  imports Tunnel_Session
begin

text \<open>
  The commands of the desktop application (\<open>src-tauri/src/main.rs\<close>) that guard or combine
  operations of the engine, the certificate authority and the trust check. Dialogs and worker
  threads are arguments; commands that only forward to one operation are that operation.
\<close>

section \<open>Starting the proxy\<close>

record start_options =
  so_port :: u16
  so_capture_bodies :: bool
  so_disk_budget_gib :: "32 word"
  so_redaction_paths :: "string list"
  so_development_hosts :: "string list"
  so_production_hosts :: "string list"
  so_client_profile_id :: "string option"
  so_client_token :: "string option"
  so_enable_https_inspection :: bool
  so_break_on_responses :: bool
  so_response_rules :: "response_rule_config list"

datatype desktop_error =
    BadDiskBudget | ProfileWithoutToken | BadProfile profile_error | InspectionWithoutProfile
  | CaUnreadable ca_error | TrustUnverified | NoPlatformVerifier | EngineFailed engine_error
  | Unacknowledged | NotALocalPath

definition client_option :: "(bytes \<Rightarrow> bytes) \<Rightarrow> start_options \<Rightarrow> desktop_error + client_auth option" where
  "client_option sha o' =
     (case (so_client_profile_id o', so_client_token o') of
        (None, None) \<Rightarrow> Inr None
      | (Some i, Some token) \<Rightarrow> map_error BadProfile (and_then (new_client_auth sha i token) (\<lambda>a. Inr (Some a)))
      | _ \<Rightarrow> Inl ProfileWithoutToken)"

text \<open>\<open>ca\<close> is what reading the authority's status answers, \<open>verifier\<close> whether the platform has one.\<close>

definition inspection_option ::
  "ca_error + ca_status \<Rightarrow> checks \<Rightarrow> nat \<Rightarrow> bool \<Rightarrow> client_auth option \<Rightarrow> start_options
     \<Rightarrow> desktop_error + tls_interception option" where
  "inspection_option ca s now verifier auth o' =
     (if \<not> so_enable_https_inspection o' then Inr None
      else case auth of
        None \<Rightarrow> Inl InspectionWithoutProfile
      | Some a \<Rightarrow>
          and_then (map_error CaUnreadable ca) (\<lambda>ca_st.
            if \<not> (case manager_readiness s ca_st (auth_profile_id a) now of
                    None \<Rightarrow> False | Some r \<Rightarrow> can_inspect_development r)
            then Inl TrustUnverified
            else and_then (map_error BadProfile (validate_id (auth_profile_id a))) (\<lambda>i.
              if \<not> verifier then Inl NoPlatformVerifier else Inr (Some \<lparr>ti_profile_id = i\<rparr>))))"

definition start_config ::
  "(bytes \<Rightarrow> bytes) \<Rightarrow> ca_error + ca_status \<Rightarrow> checks \<Rightarrow> nat \<Rightarrow> bool \<Rightarrow> start_options
     \<Rightarrow> desktop_error + proxy_config" where
  "start_config sha ca s now verifier o' =
     (if \<not> (1 \<le> so_disk_budget_gib o' \<and> so_disk_budget_gib o' \<le> 1024) then Inl BadDiskBudget
      else and_then (client_option sha o') (\<lambda>auth.
           and_then (inspection_option ca s now verifier auth o') (\<lambda>tls.
             Inr (default_config
               \<lparr>pc_port := so_port o', pc_capture_bodies := so_capture_bodies o',
                body_disk_budget := ucast (so_disk_budget_gib o') * 1024 * 1024 * 1024,
                request_redaction_paths := so_redaction_paths o',
                development_hosts := so_development_hosts o',
                production_hosts := so_production_hosts o',
                pc_client_auth := auth, pc_tls_interception := tls,
                pc_break_on_responses := so_break_on_responses o',
                pc_response_rules := so_response_rules o'\<rparr>))))"

definition start_proxy ::
  "http_crate \<Rightarrow> (bytes \<Rightarrow> bytes) \<Rightarrow> ca_error + ca_status \<Rightarrow> checks \<Rightarrow> nat \<Rightarrow> bool \<Rightarrow> start_options
     \<Rightarrow> (string \<times> nat) option \<Rightarrow> bool \<Rightarrow> 'h engine \<Rightarrow> (desktop_error + snapshot) \<times> 'h engine" where
  "start_proxy H sha ca s now verifier o' bound running st =
     (case and_then (start_config sha ca s now verifier o') (\<lambda>c.
             map_error EngineFailed (start_engine H c bound running st)) of
        Inl e \<Rightarrow> (Inl e, st)
      | Inr st' \<Rightarrow> (Inr (take_snapshot st'), st'))"

section \<open>Stopping, and changing the authority\<close>

text \<open>\<open>stop\<close>: the listener task drops the exchanges of its connections, then reports its end.\<close>

definition stop_engine :: "bool \<Rightarrow> nat list \<Rightarrow> nat \<Rightarrow> 'h engine \<Rightarrow> 'h engine" where
  "stop_engine running exchanges elapsed st =
     (if running then listener_end (fold (\<lambda>i. exchange_drop i elapsed) exchanges st) else st)"

definition generate_local_ca ::
  "(bytes \<Rightarrow> stored_ca option) \<Rightarrow> (stored_ca \<Rightarrow> bytes) \<Rightarrow> bool \<Rightarrow> store_answer \<Rightarrow> ca_error + stored_ca \<Rightarrow> store_answer
     \<Rightarrow> bool \<Rightarrow> nat list \<Rightarrow> nat \<Rightarrow> nat \<Rightarrow> 'h engine \<times> checks \<times> bytes option
     \<Rightarrow> (ca_error + ca_status) \<times> 'h engine \<times> checks \<times> bytes option" where
  "generate_local_ca parse print consent reading generated saving running exchanges elapsed now app =
     (let (st, s, secret) = app;
          (result, secret') = ca_generate parse print consent reading generated saving secret
      in (result, stop_engine running exchanges elapsed st, cancel_check now s, secret'))"

definition remove_local_ca ::
  "bool \<Rightarrow> store_answer \<Rightarrow> bool \<Rightarrow> nat list \<Rightarrow> nat \<Rightarrow> nat \<Rightarrow> 'h engine \<times> checks \<times> bytes option
     \<Rightarrow> (ca_error + ca_status) \<times> 'h engine \<times> checks \<times> bytes option" where
  "remove_local_ca confirmed answer running exchanges elapsed now app =
     (let (st, s, secret) = app; (result, secret') = ca_remove confirmed answer secret
      in (result, stop_engine running exchanges elapsed st, cancel_check now s, secret'))"

text \<open>A trust check is started for \<open>localhost\<close>, and lasts a minute.\<close>

definition start_tls_trust_check ::
  "(string \<Rightarrow> destination_class \<Rightarrow> ca_error + issued_leaf) \<Rightarrow> string \<Rightarrow> string \<Rightarrow> nat \<Rightarrow> nat option \<Rightarrow> nat \<Rightarrow> checks
     \<Rightarrow> (profile_error + ca_error + start_error + trust_status) \<times> checks" where
  "start_tls_trust_check issue client_id client_name t endpoint now s =
     (case new_client_identity client_id client_name of
        Inl e \<Rightarrow> (Inl e, s)
      | Inr client \<Rightarrow>
          (case issue ''localhost'' Development of
             Inl e \<Rightarrow> (Inr (Inl e), s)
           | Inr leaf \<Rightarrow>
               (case start_check t leaf client (60 * 1000) endpoint now s of
                  (Inl e, s') \<Rightarrow> (Inr (Inr (Inl e)), s')
                | (Inr started_status, s') \<Rightarrow> (Inr (Inr (Inr started_status)), s'))))"

section \<open>Exporting a body\<close>

text \<open>
  \<open>selected\<close>: \<open>None\<close> when the dialog is cancelled, otherwise whether the destination is a local
  path that can be written. The result is what the destination receives.
\<close>

definition export_command ::
  "nat \<Rightarrow> string \<Rightarrow> bool \<Rightarrow> (bool \<times> bool) option \<Rightarrow> 'h engine \<Rightarrow> desktop_error + bytes option" where
  "export_command i direction acknowledged selected st =
     and_then (map_error EngineFailed (body_export_preview i direction st)) (\<lambda>preview.
       if \<not> ep_redacted preview \<and> \<not> acknowledged then Inl Unacknowledged
       else case selected of
         None \<Rightarrow> Inr None
       | Some (local_path, writable) \<Rightarrow>
           if \<not> local_path then Inl NotALocalPath
           else and_then (map_error EngineFailed (export_body i direction writable st)) (\<lambda>bytes. Inr (Some bytes)))"

section \<open>The revision poll and the exit\<close>

definition poll_revision :: "nat \<Rightarrow> 'h engine \<Rightarrow> nat option" where
  "poll_revision seen st = (if revision st \<noteq> seen then Some (revision st) else None)"

definition exit_app ::
  "bool \<Rightarrow> nat list \<Rightarrow> nat \<Rightarrow> nat \<Rightarrow> 'h engine \<times> checks \<Rightarrow> 'h engine \<times> checks" where
  "exit_app running exchanges elapsed now app =
     (clear_engine (stop_engine running exchanges elapsed (fst app)), cancel_check now (snd app))"

section \<open>Properties\<close>

lemma profile_char_visible: "profile_char c \<Longrightarrow> \<not> is_whitespace [c] \<and> is_ascii [c]"
  by (auto simp: profile_char_def str_simps is_ascii_def)

lemma trim_profile: "list_all profile_char s \<Longrightarrow> str_trim s = s"
proof -
  assume s: "list_all profile_char s"
  have chars: "utf8_chars s = map (\<lambda>c. [c]) s"
    using s profile_char_visible by (intro utf8_chars_ascii) (auto simp: is_ascii_def list_all_iff)
  have keep: "dropWhile is_whitespace (map (\<lambda>c. [c]) t) = map (\<lambda>c. [c]) t" if "list_all profile_char t" for t
    using that profile_char_visible by (cases t) auto
  have "list_all profile_char (rev s)" using s by simp
  with keep [OF s] keep [of "rev s"] show "str_trim s = s"
    by (simp add: str_trim_def chars rev_map)
qed

lemma gib_bytes:
  fixes g :: "32 word"
  assumes "g \<le> 1024"
  shows "unat (ucast g * 1024 * 1024 * 1024 :: u64) = unat g * 2 ^ 30"
proof -
  have le: "unat g \<le> 1024" using assms by (simp add: word_le_nat_alt)
  have u: "unat (ucast g :: u64) = unat g" using le by (simp add: unsigned_ucast_eq take_bit_nat_eq_self)
  show ?thesis
    using le by (simp add: u unat_word_ariths(2))
qed


text \<open>
  C20: an export is complete and acknowledged. What reaches the selected file is a whole recorded
  body of a capture that is still shown; it is a redacted request copy, or the user acknowledged
  that it is not redacted.
\<close>

theorem export_acknowledged:
  assumes "export_command i direction acknowledged selected st = Inr (Some bytes)"
  shows "\<exists>side e. direction_side direction = Some side \<and> (side = Request_Side \<or> acknowledged)
    \<and> find_capture i (traffic st) \<noteq> None \<and> lookup side i (bodies st) = Some e
    \<and> fst (e_result e) = ''complete'' \<and> e_file e = Some bytes"
proof -
  from assms obtain preview writable where p: "body_export_preview i direction st = Inr preview"
    and ack: "ep_redacted preview \<or> acknowledged"
    and x: "export_body i direction writable st = Inr bytes"
    by (auto simp: export_command_def and_then_Inr_iff map_error_Inr split: if_splits option.splits)
  from p obtain side info where side: "direction_side direction = Some side"
    and shown: "find_capture i (traffic st) \<noteq> None" and red: "ep_redacted preview = (side = Request_Side)"
    by (auto simp: body_export_preview_def split: option.splits sum.splits if_splits)
  from x side have "export_file side i writable (bodies st) = Inr bytes"
    by (auto simp: export_body_def and_then_Inr_iff map_error_Inr)
  with side shown red ack show ?thesis
    by (auto simp: export_file_def split: option.splits if_splits)
qed

text \<open>
  Changing the authority ends all inspection. After generating or removing it, confirmed or
  refused, the proxy is stopped, the manager trusts no client and the preflight offers nothing; a
  refused change leaves the credential store as it was.
\<close>

lemma authority_change_ends_inspection:
  assumes "generate_local_ca parse print consent reading generated saving running exchanges elapsed now
      (st, s, secret) = (result, st', s', secret')
    \<or> remove_local_ca confirmed answer running exchanges elapsed now (st, s, secret)
      = (result, st', s', secret')"
    and "running \<or> es_phase (status st) = Stopped"
  shows "es_phase (status st') = Stopped \<and> manager_readiness s' any_ca client time = None
    \<and> \<not> can_enable_development (preflight_check s' any_ca proxy time)
    \<and> ((\<exists>e. result = Inl e) \<longrightarrow> secret' = secret)"
proof -
  from assms(1) have s': "s' = cancel_check now s" and st': "st' = stop_engine running exchanges elapsed st"
    and secret: "(\<exists>e. result = Inl e) \<longrightarrow> secret' = secret"
    by (auto simp: generate_local_ca_def remove_local_ca_def ca_generate_def ca_remove_def
        split: prod.splits if_splits sum.splits option.splits store_answer.splits)
  have gate: "tc_gate s' = None" by (simp add: s' cancel_check_def)
  have "\<not> can_enable_development (preflight_check s' any_ca proxy time)"
    by (simp add: preflight_check_def blocked_def manager_readiness_def gate split: option.split)
  moreover have "es_phase (status st') = Stopped"
    using assms(2) by (auto simp: st' stop_engine_def listener_end_def bump_def)
  ultimately show ?thesis using secret by (simp add: manager_readiness_def gate)
qed

section \<open>Witnesses\<close>

definition inspecting_options :: start_options where
  "inspecting_options =
     \<lparr>so_port = 8080, so_capture_bodies = True, so_disk_budget_gib = 2, so_redaction_paths = [],
      so_development_hosts = [''*.test''], so_production_hosts = [],
      so_client_profile_id = Some ''dev'', so_client_token = Some (replicate 32 CHR ''t''),
      so_enable_https_inspection = True, so_break_on_responses = False, so_response_rules = []\<rparr>"


definition exporting :: "(string \<times> bytes) list engine" where
  "exporting = one_capture\<lparr>bodies := snd (store_complete 1 0 0 ''body'' 100 Written shared_pair)\<rparr>"

theorem export_acknowledged_witness:
  "map_option e_file (lookup Response_Side 1 (bodies exporting)) = Some (Some ''body'')"
proof -
  have x: "export_command 1 ''response'' True (Some (True, True)) exporting = Inr (Some ''body'')"
    by code_simp
  from export_acknowledged [OF x] show ?thesis
    by (auto simp: direction_side_def)
qed

lemma authority_change_ends_inspection_witness:
  "manager_readiness (cancel_check 6000 verified) (status_from sample_ca) ''dev'' 6000 = None"
proof -
  have g: "generate_local_ca sample_parse (\<lambda>_. ''stored'') False Done (Inl CannotKeyCa) Done True [1] 5 6000
      (one_capture, verified, Some ''stored'')
    = (Inl NoConsent, stop_engine True [1] 5 one_capture, cancel_check 6000 verified, Some ''stored'')"
    by (simp add: generate_local_ca_def ca_generate_def)
  from authority_change_ends_inspection [OF disjI1 [OF g], of "status_from sample_ca" "''dev''" 6000]
  show ?thesis by simp
qed

end
