(* ===== verification/Commands.thy ===== *)
theory Commands
  imports Desktop
begin

text \<open>
  The desktop application as a state machine (\<open>src-tauri/src/main.rs\<close>): its state is the engine, the
  listener's handle, the trust checks and the secret in the credential store; \<open>invoke\<close> is one
  command of the user interface, \<open>app_step\<close> a command or something a background task does. The
  properties hold for every sequence of them.
\<close>

section \<open>The application\<close>

record 'h app =
  app_engine :: "'h engine"
  app_running :: bool
  app_checks :: checks
  app_secret :: "bytes option"

datatype command =
    Engine_Snapshot | Start_Proxy start_options | Stop_Proxy | Clear_Traffic | Replay_Capture nat
  | Resolve_Breakpoint nat "u16 option" "string option" "string option"
  | Read_Body side nat u64 nat | Search_Body side nat bytes u64 u64 | View_Json side nat bool bool
  | Read_Json side nat u64 nat | Preview_Export nat string | Export_Body nat string bool
  | Show_Authority | Generate_Authority bool | Remove_Authority bool | Export_Authority
  | Show_Check | Show_Preflight | Start_Check string string | Cancel_Check

datatype fault =
    Engine_Fault engine_error | Body_Fault body_error | Desktop_Fault desktop_error | Ca_Fault ca_error
  | Check_Fault "profile_error + ca_error + start_error" | Not_Local_Path | Certificate_Not_Written

datatype reply =
    Fails fault | Shows_Snapshot snapshot | Shows_Page body_page | Shows_Search search_step
  | Shows_Layout "string \<times> string option" | Shows_Preview export_preview | Exported "bytes option"
  | Shows_Authority ca_status | Shows_Check trust_status | Shows_Preflight preflight

text \<open>
  What a command gets from outside: the parsers and codecs, the answers of the credential store
  and of the dialogs, clocks, the connections a stop drops, and the transfer of a replay.
\<close>

record 'h desk =
  dk_http :: http_crate
  dk_sha :: "bytes \<Rightarrow> bytes"
  dk_parse :: "bytes \<Rightarrow> stored_ca option"
  dk_print :: "stored_ca \<Rightarrow> bytes"
  dk_store :: store_answer
  dk_saving :: store_answer
  dk_self_sign :: "certificate_params \<Rightarrow> ca_error + bytes \<times> string \<times> string"
  dk_key_ok :: "stored_ca \<Rightarrow> bool"
  dk_timestamp_ok :: "nat \<Rightarrow> bool"
  dk_sign :: "stored_ca \<Rightarrow> certificate_params \<Rightarrow> ca_error + bytes \<times> bytes"
  dk_now_ns :: nat
  dk_now :: nat
  dk_bound :: "(string \<times> nat) option"
  dk_verifier :: bool
  dk_exchanges :: "nat list"
  dk_elapsed :: nat
  dk_token :: "string option"
  dk_transfer :: "'h replay_template \<Rightarrow> 'h engine \<Rightarrow> (string + unit) \<times> 'h engine"
  dk_selected :: "(bool \<times> bool) option"
  dk_task :: "checks \<Rightarrow> nat"
  dk_endpoint :: "nat option"

definition reply_of :: "('e \<Rightarrow> fault) \<Rightarrow> ('a \<Rightarrow> reply) \<Rightarrow> 'e + 'a \<Rightarrow> reply" where
  "reply_of bad good r = (case r of Inl e \<Rightarrow> Fails (bad e) | Inr x \<Rightarrow> good x)"

text \<open>\<open>export_local_ca\<close>: the public certificate, written where the user chose.\<close>

definition export_local_ca ::
  "(bytes \<Rightarrow> stored_ca option) \<Rightarrow> store_answer \<Rightarrow> (bool \<times> bool) option \<Rightarrow> bytes option \<Rightarrow> reply" where
  "export_local_ca parse answer selected secret =
     (case certificate_pem parse answer secret of
        Inl e \<Rightarrow> Fails (Ca_Fault e)
      | Inr certificate \<Rightarrow>
          (case selected of
             None \<Rightarrow> Exported None
           | Some (local_path, writable) \<Rightarrow>
               if \<not> local_path then Fails Not_Local_Path
               else if \<not> writable then Fails Certificate_Not_Written
               else Exported (Some certificate)))"

definition read_authority :: "'h desk \<Rightarrow> 'h app \<Rightarrow> ca_error + ca_status" where
  "read_authority d a = ca_current_status (dk_parse d) (dk_store d) (app_secret a)"

definition stopped_engine :: "'h desk \<Rightarrow> 'h app \<Rightarrow> 'h engine" where
  "stopped_engine d a = stop_engine (app_running a) (dk_exchanges d) (dk_elapsed d) (app_engine a)"

text \<open>Both commands that change the authority stop the proxy and end the checks first.\<close>

definition invoke_authority :: "'h desk \<Rightarrow> (ca_error + ca_status) \<times> 'h engine \<times> checks \<times> bytes option
    \<Rightarrow> reply \<times> 'h app" where
  "invoke_authority d r =
     (case r of (result, st, s, secret) \<Rightarrow>
        (reply_of Ca_Fault Shows_Authority result,
         \<lparr>app_engine = st, app_running = False, app_checks = s, app_secret = secret\<rparr>))"

text \<open>The commands that change the proxy or its traffic.\<close>

definition invoke_start :: "'h desk \<Rightarrow> start_options \<Rightarrow> 'h app \<Rightarrow> reply \<times> 'h app" where
  "invoke_start d options a =
     (case start_proxy (dk_http d) (dk_sha d) (read_authority d a) (app_checks a) (dk_now d) (dk_verifier d)
             options (dk_bound d) (app_running a) (app_engine a) of
        (Inl e, st) \<Rightarrow> (Fails (Desktop_Fault e), a\<lparr>app_engine := st\<rparr>)
      | (Inr s, st) \<Rightarrow> (Shows_Snapshot s, a\<lparr>app_engine := st, app_running := True\<rparr>))"

definition invoke_replay :: "'h desk \<Rightarrow> nat \<Rightarrow> 'h app \<Rightarrow> reply \<times> 'h app" where
  "invoke_replay d i a =
     (case replay i (dk_token d) (dk_transfer d) (app_engine a) of
        (r, st) \<Rightarrow> (reply_of Engine_Fault Shows_Snapshot r, a\<lparr>app_engine := st\<rparr>))"

definition invoke_resolve ::
  "'h desk \<Rightarrow> nat \<Rightarrow> u16 option \<Rightarrow> string option \<Rightarrow> string option \<Rightarrow> 'h app \<Rightarrow> reply \<times> 'h app" where
  "invoke_resolve d i wanted body content_type a =
     (case resolve_breakpoint (dk_http d) i wanted body content_type (app_engine a) of
        (r, st) \<Rightarrow> (reply_of Engine_Fault (\<lambda>_. Shows_Snapshot (take_snapshot st)) r, a\<lparr>app_engine := st\<rparr>))"

definition invoke_layout :: "side \<Rightarrow> nat \<Rightarrow> bool \<Rightarrow> bool \<Rightarrow> 'h app \<Rightarrow> reply \<times> 'h app" where
  "invoke_layout side i start cancel a =
     (case open_json_view side i start cancel (bodies (app_engine a)) of
        (r, s) \<Rightarrow> (reply_of Body_Fault Shows_Layout r, a\<lparr>app_engine := (app_engine a)\<lparr>bodies := s\<rparr>\<rparr>))"

definition invoke_check :: "'h desk \<Rightarrow> string \<Rightarrow> string \<Rightarrow> 'h app \<Rightarrow> reply \<times> 'h app" where
  "invoke_check d client_id client_name a =
     (case start_tls_trust_check
             (issue_leaf (dk_parse d) (dk_store d) (app_secret a) (dk_key_ok d) (dk_timestamp_ok d) (dk_sign d)
                (dk_now_ns d))
             client_id client_name (dk_task d (app_checks a)) (dk_endpoint d) (dk_now d) (app_checks a) of
        (Inl e, s) \<Rightarrow> (Fails (Check_Fault (Inl e)), a\<lparr>app_checks := s\<rparr>)
      | (Inr (Inl e), s) \<Rightarrow> (Fails (Check_Fault (Inr (Inl e))), a\<lparr>app_checks := s\<rparr>)
      | (Inr (Inr (Inl e)), s) \<Rightarrow> (Fails (Check_Fault (Inr (Inr e))), a\<lparr>app_checks := s\<rparr>)
      | (Inr (Inr (Inr st)), s) \<Rightarrow> (Shows_Check st, a\<lparr>app_checks := s\<rparr>))"

definition invoke_cancel :: "'h desk \<Rightarrow> 'h app \<Rightarrow> reply \<times> 'h app" where
  "invoke_cancel d a =
     (let s = cancel_check (dk_now d) (app_checks a) in (Shows_Check (tc_status s), a\<lparr>app_checks := s\<rparr>))"

definition show_preflight :: "'h desk \<Rightarrow> 'h app \<Rightarrow> reply" where
  "show_preflight d a =
     reply_of Ca_Fault (\<lambda>ca. Shows_Preflight
       (preflight_check (app_checks a) ca (status (app_engine a)) (dk_now d))) (read_authority d a)"

fun invoke :: "'h desk \<Rightarrow> command \<Rightarrow> 'h app \<Rightarrow> reply \<times> 'h app" where
  "invoke d Engine_Snapshot a = (Shows_Snapshot (take_snapshot (app_engine a)), a)"
| "invoke d (Start_Proxy options) a = invoke_start d options a"
| "invoke d Stop_Proxy a =
     (let st = stopped_engine d a
      in (Shows_Snapshot (take_snapshot st), a\<lparr>app_engine := st, app_running := False\<rparr>))"
| "invoke d Clear_Traffic a =
     (let st = clear_engine (app_engine a) in (Shows_Snapshot (take_snapshot st), a\<lparr>app_engine := st\<rparr>))"
| "invoke d (Replay_Capture i) a = invoke_replay d i a"
| "invoke d (Resolve_Breakpoint i wanted body content_type) a = invoke_resolve d i wanted body content_type a"
| "invoke d (Read_Body side i offset count) a =
     (reply_of Engine_Fault Shows_Page (capture_page side i offset count (app_engine a)), a)"
| "invoke d (Search_Body side i needle start end) a =
     (reply_of Body_Fault Shows_Search (search_body side i needle start end (bodies (app_engine a))), a)"
| "invoke d (View_Json side i start cancel) a = invoke_layout side i start cancel a"
| "invoke d (Read_Json side i offset count) a =
     (reply_of Body_Fault Shows_Page (json_page side i offset count (bodies (app_engine a))), a)"
| "invoke d (Preview_Export i direction) a =
     (reply_of Engine_Fault Shows_Preview (body_export_preview i direction (app_engine a)), a)"
| "invoke d (Export_Body i direction acknowledged) a =
     (reply_of Desktop_Fault Exported
        (export_command i direction acknowledged (dk_selected d) (app_engine a)), a)"
| "invoke d Show_Authority a = (reply_of Ca_Fault Shows_Authority (read_authority d a), a)"
| "invoke d (Generate_Authority consent) a =
     invoke_authority d (generate_local_ca (dk_parse d) (dk_print d) consent (dk_store d)
       (generate_ca (dk_self_sign d) (dk_sha d) (dk_now_ns d) (dk_now d)) (dk_saving d) (app_running a) (dk_exchanges d) (dk_elapsed d) (dk_now d)
       (app_engine a, app_checks a, app_secret a))"
| "invoke d (Remove_Authority confirmed) a =
     invoke_authority d (remove_local_ca confirmed (dk_store d) (app_running a) (dk_exchanges d)
       (dk_elapsed d) (dk_now d) (app_engine a, app_checks a, app_secret a))"
| "invoke d Export_Authority a =
     (export_local_ca (dk_parse d) (dk_store d) (dk_selected d) (app_secret a), a)"
| "invoke d Show_Check a = (Shows_Check (tc_status (app_checks a)), a)"
| "invoke d Show_Preflight a = (show_preflight d a, a)"
| "invoke d (Start_Check client_id client_name) a = invoke_check d client_id client_name a"
| "invoke d Cancel_Check a = invoke_cancel d a"

section \<open>Steps\<close>

text \<open>The largest disk budget the commands accept: 1024 GiB.\<close>

definition session_limit :: u64 where
  "session_limit = 1024 * 1024 * 1024 * 1024"

text \<open>
  What a command may rely on: the handle of a new task is unused, and a replay is transferred by
  tasks that run operations of the engine and do not start the proxy.
\<close>

definition desk_ok :: "'h desk \<Rightarrow> 'h app \<Rightarrow> bool" where
  "desk_ok d a \<longleftrightarrow>
     tc_tasks (app_checks a) (dk_task d (app_checks a)) = None
     \<and> dk_task d (app_checks a) \<notin> tc_starting (app_checks a)
     \<and> tc_running (app_checks a) \<noteq> Some (dk_task d (app_checks a))
     \<and> (\<forall>t st. runs session_limit st (snd (dk_transfer d t st))
          \<and> (es_phase (status (snd (dk_transfer d t st))) = Running \<longrightarrow> es_phase (status st) = Running))"

text \<open>Checks are started with leaves for \<open>localhost\<close> only.\<close>

definition localhost_leaves :: "(issued_leaf \<times> client_identity) set" where
  "localhost_leaves = {(leaf, client). il_host leaf = ''localhost''}"

text \<open>
  A command; any operation of the engine by a background task, none of which starts the proxy; a
  lock region of a check's task, or of a call of the manager that overlaps others.
\<close>

inductive app_step :: "'h app \<Rightarrow> 'h app \<Rightarrow> bool" where
  app_command: "desk_ok d a \<Longrightarrow> invoke d c a = (r, a') \<Longrightarrow> app_step a a'"
| app_work: "engine_step session_limit (app_engine a) st
    \<Longrightarrow> es_phase (status st) = Running \<longrightarrow> es_phase (status (app_engine a)) = Running
    \<Longrightarrow> app_step a (a\<lparr>app_engine := st\<rparr>)"
| app_trust: "trust_step localhost_leaves (app_checks a) s \<Longrightarrow> app_step a (a\<lparr>app_checks := s\<rparr>)"

inductive_cases app_stepE: "app_step a a'"

definition started_app :: "bytes option \<Rightarrow> 'h app" where
  "started_app secret =
     \<lparr>app_engine = default_engine, app_running = False, app_checks = default_checks, app_secret = secret\<rparr>"

definition app_reachable :: "'h app \<Rightarrow> bool" where
  "app_reachable a \<longleftrightarrow> (\<exists>secret. app_step\<^sup>*\<^sup>* (started_app secret) a)"

section \<open>Commands are runs of the engine\<close>

lemma stop_engine_runs: "runs L st (stop_engine running exchanges elapsed st)"
proof -
  have "runs L st (fold (\<lambda>i. exchange_drop i elapsed) exchanges st)"
    by (induction exchanges arbitrary: st) (auto intro: converse_rtranclp_into_rtranclp op_drop)
  then show ?thesis by (auto simp: stop_engine_def intro: runs_step op_listener_end)
qed

lemma start_config_budget:
  assumes "start_config sha ca s now verifier options = Inr c"
  shows "body_disk_budget c \<le> session_limit"
proof -
  have le: "so_disk_budget_gib options \<le> 1024"
    and c: "body_disk_budget c = ucast (so_disk_budget_gib options) * 1024 * 1024 * 1024"
    using assms by (auto simp: start_config_def and_then_Inr_iff split: if_splits)
  have "unat (so_disk_budget_gib options) \<le> 1024" using le by (simp add: word_le_nat_alt)
  then have "unat (so_disk_budget_gib options) * 2 ^ 30 \<le> 1024 * 2 ^ 30" by (rule mult_right_mono) simp
  then have "unat (body_disk_budget c) \<le> unat session_limit"
    unfolding c gib_bytes [OF le] by (simp add: session_limit_def)
  then show ?thesis by (simp add: word_le_nat_alt)
qed

lemma start_proxy_runs:
  assumes "start_proxy H sha ca s now verifier options bound running st = (r, st')"
  shows "runs session_limit st st'"
proof (cases r)
  case (Inl e)
  with assms show ?thesis by (auto simp: start_proxy_def split: sum.splits)
next
  case (Inr shown)
  with assms obtain c where c: "start_config sha ca s now verifier options = Inr c"
    and "start_engine H c bound running st = Inr st'"
    by (auto simp: start_proxy_def and_then_Inr_iff map_error_Inr split: sum.splits)
  then have "engine_step session_limit st st'" using start_config_budget [OF c] by (intro op_start)
  then show ?thesis by (rule r_into_rtranclp)
qed

lemma replay_runs:
  assumes "\<And>t st. runs L st (snd (transfer t st))"
  shows "runs L st (snd (replay i token transfer st))"
proof (cases "replay_begin i token st")
  case (Inr p)
  obtain t st1 where p: "p = (t, st1)" by force
  obtain result st2 where tr: "transfer t st1 = (result, st2)" by force
  have "engine_step L st st1" using Inr unfolding p by (rule op_replay_begin)
  moreover have "runs L st1 st2" using assms [of st1 t] tr by simp
  ultimately have run: "runs L st st2" by (rule converse_rtranclp_into_rtranclp)
  then have "runs L st (replay_end k st2)" for k by (rule runs_step) (rule op_replay_end)
  with run show ?thesis
    by (auto simp: replay_def Inr p tr Let_def split: option.split sum.split)
qed (simp add: replay_def)

lemma invoke_runs:
  assumes "desk_ok d a" and "invoke d c a = (r, a')"
  shows "runs session_limit (app_engine a) (app_engine a')"
proof (cases c)
  case (Start_Proxy options)
  with assms(2) show ?thesis
    by (auto simp: invoke_start_def dest!: start_proxy_runs split: prod.splits sum.splits)
next
  case (Replay_Capture i)
  have "runs session_limit (app_engine a) (snd (replay i (dk_token d) (dk_transfer d) (app_engine a)))"
    using assms(1) by (intro replay_runs) (simp add: desk_ok_def)
  with assms(2) Replay_Capture show ?thesis by (auto simp: invoke_replay_def split: prod.splits)
next
  case (Resolve_Breakpoint i wanted body ct)
  have "engine_step session_limit (app_engine a)
      (snd (resolve_breakpoint (dk_http d) i wanted body ct (app_engine a)))" by (rule op_resolve)
  with assms(2) Resolve_Breakpoint show ?thesis
    by (auto simp: invoke_resolve_def r_into_rtranclp split: prod.splits)
next
  case (View_Json side i start cancel)
  have "engine_step session_limit (app_engine a)
      ((app_engine a)\<lparr>bodies := snd (open_json_view side i start cancel (bodies (app_engine a)))\<rparr>)"
    by (rule op_store) (rule step_json_view)
  with assms(2) View_Json show ?thesis
    by (auto simp: invoke_layout_def r_into_rtranclp split: prod.splits)
next
  case (Generate_Authority consent)
  with assms(2) show ?thesis
    by (auto simp: invoke_authority_def generate_local_ca_def stop_engine_runs split: prod.splits)
next
  case (Remove_Authority confirmed)
  with assms(2) show ?thesis
    by (auto simp: invoke_authority_def remove_local_ca_def stop_engine_runs split: prod.splits)
next
  case (Start_Check client_id client_name)
  with assms(2) show ?thesis by (auto simp: invoke_check_def split: prod.splits sum.splits)
qed (use assms(2) in \<open>auto simp: Let_def stopped_engine_def stop_engine_runs r_into_rtranclp op_clear
      invoke_cancel_def\<close>)

section \<open>The state of the application is consistent\<close>

text \<open>What the status says of the proxy, and what HTTPS inspection needs.\<close>

definition flags :: "'h engine \<Rightarrow> engine_phase \<times> string option \<times> bool" where
  "flags st = (es_phase (status st), es_client_profile_id (status st), https_inspection (status st))"

definition inspection_ok :: "'h engine \<Rightarrow> bool" where
  "inspection_ok st \<longleftrightarrow> (https_inspection (status st) \<longrightarrow>
     es_phase (status st) = Running \<and> es_client_profile_id (status st) \<noteq> None)"

lemma flags_simps [simp]:
  "flags (exchange_update i f st) = flags st" "flags (exchange_finish i error elapsed st) = flags st"
  "flags (bump st) = flags st" "flags (observed_frame is_response i elapsed ev st) = flags st"
  "flags (st\<lparr>bodies := s\<rparr>) = flags st" "flags (st\<lparr>breakpoints := b\<rparr>) = flags st"
  "flags (st\<lparr>replay_tokens := k\<rparr>) = flags st"
  by (simp_all add: flags_def exchange_update_def exchange_finish_def bump_def observed_frame_def Let_def
      split: frame_event.split)

lemma start_inspection_ok:
  assumes "start_engine H c bound running st = Inr st'"
  shows "inspection_ok st'"
proof -
  obtain compiled address where "validate_config H c = Inr compiled"
    and st': "st' = install_config c address compiled st"
    using assms by (auto simp: start_engine_def and_then_Inr_iff split: if_splits option.splits)
  then have "inspection_auth_ok c" by (simp add: validate_config_def split: if_splits)
  then show ?thesis
    by (auto simp: inspection_ok_def st' install_config_def Let_def set_captures_def bump_def
        inspection_auth_ok_def split: prod.split option.splits)
qed

lemma engine_step_flags:
  assumes "engine_step L st st'"
  shows "flags st' = flags st \<or> inspection_ok st'"
  using assms
proof cases
  case (op_begin A request cls profile origin now i)
  then show ?thesis
    by (auto simp: flags_def begin_exchange_def Let_def set_captures_def evict_oldest_def bump_def
        count_evicted_def forget_def split: if_splits option.splits list.splits)
next
  case (op_start H c bound running)
  then show ?thesis by (blast intro: start_inspection_ok)
next
  case (op_request_frame i elapsed ev buffer)
  then show ?thesis
    by (auto simp: request_frame_def Let_def split: frame_event.split option.split)
next
  case (op_replace t a replacement A http2 i code h storage elapsed)
  then show ?thesis
    by (auto simp: replace_response_def Let_def split: prod.split option.split sum.split)
next
  case (op_replay_begin i token t)
  then show ?thesis
    by (auto simp: replay_begin_def and_then_Inr_iff split: option.splits)
next
  case op_listener_end
  then show ?thesis by (simp add: inspection_ok_def listener_end_def bump_def)
next
  case op_reject
  then show ?thesis by (simp add: flags_def reject_connection_def bump_def)
next
  case op_clear
  then show ?thesis by (simp add: flags_def clear_engine_def bump_def)
qed (auto simp: exchange_drop_def refuse_def open_request_capture_def request_stored_def apply_rule_def
    open_breakpoint_def close_breakpoint_def abandon_breakpoint_def resolve_breakpoint_def
    pass_response_def replay_end_def claim_token_def Let_def split: option.split sum.split)

lemma flags_inspection_ok: "flags st' = flags st \<Longrightarrow> inspection_ok st \<Longrightarrow> inspection_ok st'"
  by (simp add: inspection_ok_def flags_def)

interpretation flagged: run_order "engine_step L"
    "\<lambda>st st'. flags st' = flags st \<or> inspection_ok st'" for L
  by unfold_locales (auto dest: engine_step_flags flags_inspection_ok)

lemma runs_inspection_ok: "runs L st st' \<Longrightarrow> inspection_ok st \<Longrightarrow> inspection_ok st'"
  by (auto dest!: flagged.run_related intro: flags_inspection_ok)

definition runs_only_if_started :: "'h app \<Rightarrow> bool" where
  "runs_only_if_started a \<longleftrightarrow> (es_phase (status (app_engine a)) = Running \<longrightarrow> app_running a)"

lemma stop_engine_phase:
  "(es_phase (status st) = Running \<longrightarrow> running) \<Longrightarrow>
   es_phase (status (stop_engine running exchanges elapsed st)) = Stopped"
  by (cases "es_phase (status st)") (auto simp: stop_engine_def listener_end_def bump_def)

lemma phase_exchange: "flags st' = flags st \<Longrightarrow> es_phase (status st') = es_phase (status st)"
  by (simp add: flags_def)

lemma invoke_running:
  assumes ok: "desk_ok d a" and inv: "runs_only_if_started a" and run: "invoke d c a = (r, a')"
  shows "runs_only_if_started a'"
proof (cases c)
  case (Start_Proxy options)
  with inv run show ?thesis
    by (auto simp: invoke_start_def runs_only_if_started_def start_proxy_def split: prod.splits sum.splits)
next
  case (Replay_Capture i)
  have "es_phase (status (snd (replay i k (dk_transfer d) st))) = Running \<Longrightarrow> es_phase (status st) = Running"
    for k and st :: "'a engine"
  proof (cases "replay_begin i k st")
    case (Inr p)
    obtain t st1 where p: "p = (t, st1)" by force
    have "status st1 = status st"
      using Inr p by (auto simp: replay_begin_def and_then_Inr_iff split: option.splits)
    moreover have "es_phase (status (snd (dk_transfer d t st1))) = Running \<Longrightarrow> es_phase (status st1) = Running"
      using ok unfolding desk_ok_def by blast
    moreover have "status (snd (replay i k (dk_transfer d) st)) = status (snd (dk_transfer d t st1))"
      by (simp add: replay_def Inr p replay_end_def Let_def case_prod_beta split: option.split)
    ultimately show "es_phase (status (snd (replay i k (dk_transfer d) st))) = Running \<Longrightarrow>
        es_phase (status st) = Running" by simp
  qed (simp add: replay_def)
  with inv run Replay_Capture show ?thesis
    by (auto simp: invoke_replay_def runs_only_if_started_def split: prod.splits)
      (metis snd_conv)
next
  case (Resolve_Breakpoint i wanted body ct)
  have "flags (snd (resolve_breakpoint (dk_http d) i wanted body ct (app_engine a))) = flags (app_engine a)"
    by (simp add: resolve_breakpoint_def split: sum.split option.split)
  then have "es_phase (status (snd (resolve_breakpoint (dk_http d) i wanted body ct (app_engine a))))
      = es_phase (status (app_engine a))" by (rule phase_exchange)
  with inv run Resolve_Breakpoint show ?thesis
    by (auto simp: invoke_resolve_def runs_only_if_started_def split: prod.splits)
next
  case (Generate_Authority consent)
  with inv run show ?thesis
    by (auto simp: invoke_authority_def generate_local_ca_def runs_only_if_started_def stop_engine_phase
        split: prod.splits)
next
  case (Remove_Authority confirmed)
  with inv run show ?thesis
    by (auto simp: invoke_authority_def remove_local_ca_def runs_only_if_started_def stop_engine_phase
        split: prod.splits)
next
  case (Start_Check client_id client_name)
  with inv run show ?thesis
    by (auto simp: invoke_check_def runs_only_if_started_def split: prod.splits sum.splits)
qed (use inv run in \<open>auto simp: Let_def stopped_engine_def runs_only_if_started_def stop_engine_phase
      clear_engine_def bump_def invoke_layout_def invoke_cancel_def split: prod.splits\<close>)

lemma localhost_leaf:
  assumes "issue_leaf parse answer secret key_ok timestamp_ok sign now ''localhost'' cls = Inr leaf"
  shows "il_host leaf = ''localhost''"
proof -
  have "normalize_leaf_host ''localhost'' = Inr ''localhost''" by code_simp
  with assms show ?thesis
    by (auto simp: issue_leaf_def issue_leaf_from_ca_def and_then_Inr_iff Let_def
        split: if_splits option.splits)
qed

lemma cancel_check_trust [trust_runs]: "trust_reachable I s \<Longrightarrow> trust_reachable I (cancel_check now s)"
proof -
  assume "trust_reachable I s"
  then have "trust_reachable I ((cancel_running now s)\<lparr>tc_gate := None\<rparr>\<lparr>tc_status := idle_status\<rparr>)"
    by (intro trust_runs)
  then show ?thesis by (simp add: cancel_check_def)
qed

lemma start_check_trust:
  assumes "trust_reachable I s" and "(leaf, client) \<in> I"
    and fresh: "tc_tasks s t = None" "t \<notin> tc_starting s" "tc_running s \<noteq> Some t"
  shows "trust_reachable I (snd (start_check t leaf client valid_ms endpoint now s))"
proof -
  let ?s = "cancel_running now s"
  have "tc_tasks ?s t = None" "t \<notin> tc_starting ?s" "tc_running ?s \<noteq> Some t"
    using fresh by (auto simp: cancel_running_def check_status_def Let_def split: option.split)
  then have "trust_reachable I (register_check t (spawn_check t leaf client
      (show_waiting client e valid_ms now ?s)))" for e
    using assms(1,2) by (intro trust_runs) (simp_all add: show_waiting_def spawn_check_def)
  moreover have "trust_reachable I ?s" using assms(1) by (intro trust_runs)
  ultimately show ?thesis using assms(1) by (simp add: start_check_def Let_def split: option.split)
qed

lemma invoke_trust:
  assumes ok: "desk_ok d a" and inv: "trust_reachable localhost_leaves (app_checks a)"
    and run: "invoke d c a = (r, a')"
  shows "trust_reachable localhost_leaves (app_checks a')"
proof (cases c)
  case (Start_Proxy options)
  with inv run show ?thesis by (auto simp: invoke_start_def split: prod.splits sum.splits)
next
  case (Start_Check client_id client_name)
  let ?issue = "issue_leaf (dk_parse d) (dk_store d) (app_secret a) (dk_key_ok d) (dk_timestamp_ok d)
      (dk_sign d) (dk_now_ns d)"
  let ?start = "start_tls_trust_check ?issue client_id client_name (dk_task d (app_checks a)) (dk_endpoint d)
      (dk_now d) (app_checks a)"
  have "trust_reachable localhost_leaves (snd (start_check (dk_task d (app_checks a)) leaf client (60 * 1000)
      (dk_endpoint d) (dk_now d) (app_checks a)))"
    if "?issue ''localhost'' Development = Inr leaf" for leaf client
    using inv ok localhost_leaf [OF that]
    by (intro start_check_trust) (simp_all add: desk_ok_def localhost_leaves_def)
  then have "trust_reachable localhost_leaves (snd ?start)"
    using inv by (auto simp: start_tls_trust_check_def case_prod_beta split: sum.split prod.split)
  moreover have "app_checks a' = snd ?start"
    using run Start_Check by (auto simp: invoke_check_def split: prod.splits sum.splits)
  ultimately show ?thesis by simp
next
  case (Generate_Authority consent)
  with inv run show ?thesis
    by (auto simp: invoke_authority_def generate_local_ca_def cancel_check_trust split: prod.splits)
next
  case (Remove_Authority confirmed)
  with inv run show ?thesis
    by (auto simp: invoke_authority_def remove_local_ca_def cancel_check_trust split: prod.splits)
qed (use inv run in \<open>auto simp: Let_def invoke_replay_def invoke_resolve_def invoke_layout_def
      invoke_cancel_def cancel_check_trust split: prod.splits\<close>)

definition app_inv :: "'h app \<Rightarrow> bool" where
  "app_inv a \<longleftrightarrow> engine_reachable session_limit (app_engine a) \<and> inspection_ok (app_engine a)
     \<and> runs_only_if_started a \<and> trust_reachable localhost_leaves (app_checks a)"

lemma app_step_inv: "app_step a a' \<Longrightarrow> app_inv a \<Longrightarrow> app_inv a'"
proof (erule app_stepE)
  fix d c r
  assume "app_inv a" and "desk_ok d a" and "invoke d c a = (r, a')"
  then show "app_inv a'"
    using invoke_runs invoke_running invoke_trust
    by (fastforce simp: app_inv_def intro: runs_reachable runs_inspection_ok)
next
  fix st
  assume "app_inv a" and "engine_step session_limit (app_engine a) st" and "a' = a\<lparr>app_engine := st\<rparr>"
    and "es_phase (status st) = Running \<longrightarrow> es_phase (status (app_engine a)) = Running"
  then show "app_inv a'"
    by (auto simp: app_inv_def runs_only_if_started_def
        intro: runs_reachable runs_inspection_ok r_into_rtranclp)
qed (auto simp: app_inv_def runs_only_if_started_def intro: trust_reachable_step)

lemma started_app_inv: "app_inv (started_app secret :: 'h app)"
proof -
  have "es_phase (status (default_engine :: 'h engine)) = Stopped"
      "\<not> https_inspection (status (default_engine :: 'h engine))"
    by (simp_all add: default_engine_def default_engine_status_def)
  then show ?thesis
    by (simp add: app_inv_def started_app_def inspection_ok_def runs_only_if_started_def default_reachable
        trust_reachable_default)
qed

interpretation application: machine app_step "\<lambda>a. \<exists>secret. a = started_app secret" app_inv
  by unfold_locales (auto intro: started_app_inv app_step_inv)

lemma app_reachable_inv: "app_reachable a \<Longrightarrow> app_inv a"
  unfolding app_reachable_def by (blast intro: application.reached_inv)

lemma gate_host:
  assumes "trust_reachable localhost_leaves s" and "tc_gate s = Some g"
  shows "\<exists>p. trust_proof g = Some p \<and> tp_host p = ''localhost''"
proof -
  have "proved_gate localhost_leaves g"
    using trust_reachable_inv [OF assms(1)] assms(2) by (simp add: checks_inv_def)
  then show ?thesis by (auto simp: proved_gate_def localhost_leaves_def)
qed

text \<open>
  C21: the application is consistent after any sequence of commands and whatever its background
  tasks do. The engine satisfies its invariant within the largest budget the commands accept; the
  proxy only runs while the application holds its listener; the status reports HTTPS inspection
  only of a running proxy with an authenticated client profile; and a gate is only ever opened by
  a client that completed a handshake with a leaf for \<open>localhost\<close>.
\<close>

theorem application_consistent:
  assumes "app_reachable a"
  shows "engine_inv session_limit (app_engine a)
    \<and> (es_phase (status (app_engine a)) = Running \<longrightarrow> app_running a)
    \<and> (https_inspection (status (app_engine a)) \<longrightarrow>
         es_phase (status (app_engine a)) = Running \<and> es_client_profile_id (status (app_engine a)) \<noteq> None)
    \<and> (\<forall>g. tc_gate (app_checks a) = Some g \<longrightarrow>
         (\<exists>p. trust_proof g = Some p \<and> tp_host p = ''localhost''))"
  using app_reachable_inv [OF assms] gate_host engine_reachable_inv
  by (auto simp: app_inv_def inspection_ok_def runs_only_if_started_def)

text \<open>
  C22: changing the authority ends all inspection. After the command to generate or to remove the
  local authority, confirmed or refused, from any state of the application: the proxy is stopped
  and no longer held, the status reports no inspection, no client is trusted under any authority
  and the preflight offers nothing. A refused change leaves the credential store as it was.
\<close>

theorem authority_command_ends_inspection:
  assumes "app_reachable a" and "desk_ok d a"
    and "c = Generate_Authority agreed \<or> c = Remove_Authority agreed"
    and "invoke d c a = (r, a')"
  shows "es_phase (status (app_engine a')) = Stopped \<and> \<not> app_running a'
    \<and> \<not> https_inspection (status (app_engine a'))
    \<and> manager_readiness (app_checks a') any_ca client now = None
    \<and> \<not> can_enable_development (preflight_check (app_checks a') any_ca proxy now)
    \<and> (\<not> agreed \<longrightarrow> app_secret a' = app_secret a \<and> (\<exists>e. r = Fails (Ca_Fault e)))"
proof -
  have inv: "app_inv a" by (rule app_reachable_inv [OF assms(1)])
  then have phase: "es_phase (status (stop_engine (app_running a) (dk_exchanges d) (dk_elapsed d)
      (app_engine a))) = Stopped"
    by (intro stop_engine_phase) (simp add: app_inv_def runs_only_if_started_def)
  have engine: "app_engine a' = stop_engine (app_running a) (dk_exchanges d) (dk_elapsed d) (app_engine a)"
    and parts: "\<not> app_running a'" "tc_gate (app_checks a') = None"
      "\<not> agreed \<longrightarrow> app_secret a' = app_secret a \<and> (\<exists>e. r = Fails (Ca_Fault e))"
    using assms(3,4)
    by (auto simp: invoke_authority_def generate_local_ca_def remove_local_ca_def ca_generate_def
        ca_remove_def cancel_check_def reply_of_def split: prod.splits)
  have "inspection_ok (app_engine a')"
    using runs_inspection_ok [OF invoke_runs [OF assms(2,4)]] inv by (simp add: app_inv_def)
  moreover have "\<not> can_enable_development (preflight_check (app_checks a') any_ca proxy now)"
    by (simp add: preflight_check_def blocked_def manager_readiness_def parts(2) split: option.split)
  ultimately show ?thesis
    using phase parts by (simp add: engine inspection_ok_def manager_readiness_def)
qed

section \<open>A session of the application\<close>

definition sample_desk :: "(string \<times> bytes) list desk" where
  "sample_desk =
     \<lparr>dk_http = reference_http, dk_sha = id, dk_parse = sample_parse, dk_print = (\<lambda>_. ''stored''),
      dk_store = Done, dk_saving = Done, dk_self_sign = (\<lambda>_. Inr (''der'', ''pem'', ''key'')), dk_key_ok = (\<lambda>_. True),
      dk_timestamp_ok = (\<lambda>_. True), dk_sign = (\<lambda>_ _. Inr (''c'', ''k'')), dk_now_ns = 0, dk_now = 0,
      dk_bound = Some (''127.0.0.1'', 8080), dk_verifier = True, dk_exchanges = [], dk_elapsed = 0,
      dk_token = None, dk_transfer = (\<lambda>_ st. (Inr (), st)), dk_selected = None, dk_task = (\<lambda>_. 0),
      dk_endpoint = Some 4000\<rparr>"

definition plain_options :: start_options where
  "plain_options = inspecting_options\<lparr>so_enable_https_inspection := False\<rparr>"

definition opened_app :: "(string \<times> bytes) list app" where
  "opened_app = snd (invoke sample_desk (Start_Proxy plain_options) (started_app None))"

lemma opened_app_running: "es_phase (status (app_engine opened_app)) = Running"
  by code_simp

lemma opened_app_checks: "app_checks opened_app = default_checks"
  by (simp add: opened_app_def invoke_start_def started_app_def split: sum.split prod.split)

lemma opened_app_reachable: "app_reachable opened_app"
proof -
  have "desk_ok sample_desk (started_app None)"
    by (simp add: desk_ok_def sample_desk_def started_app_def default_checks_def)
  then have "app_step (started_app None) opened_app"
    unfolding opened_app_def by (rule app_command) (rule prod.collapse [symmetric])
  then show ?thesis unfolding app_reachable_def by blast
qed

theorem application_consistent_witness: "app_running opened_app"
  using application_consistent [OF opened_app_reachable] opened_app_running by blast

theorem authority_command_ends_inspection_witness:
  "es_phase (status (app_engine (snd (invoke sample_desk (Remove_Authority True) opened_app)))) = Stopped"
proof -
  have "desk_ok sample_desk opened_app"
    by (simp add: desk_ok_def sample_desk_def opened_app_checks default_checks_def)
  from authority_command_ends_inspection [OF opened_app_reachable this disjI2 [OF refl]
      prod.collapse [symmetric]]
  show ?thesis by blast
qed

end
