(* ===== verification/Listener.thy ===== *)
theory Listener
  imports Commands
begin

text \<open>
  The accept loop of \<open>start\<close> (\<open>crates/engine/src/proxy.rs\<close>): one task owns the listener and all
  connection tasks, limits their number, and ends them when \<open>stop\<close> signals it. A turn of the loop is
  one \<open>select\<close>, biased: the signal first, then a connection that has ended, then a new one.
\<close>

section \<open>The loop\<close>

text \<open>
  What a turn meets: what the connection tasks did before it, the signal, whether one of them has
  ended, and what \<open>accept\<close> answers: nothing yet, an error, or a connection.
\<close>

record 'h turn =
  tu_others :: "'h engine \<Rightarrow> 'h engine"
  tu_stop :: bool
  tu_joined :: bool
  tu_accept :: "bool option"

text \<open>\<open>ta_live\<close> is the size of the set of tasks; the other counts are history.\<close>

record tally =
  ta_ended :: bool
  ta_live :: nat
  ta_accepted :: nat
  ta_joined :: nat
  ta_refused :: nat

definition new_tally :: tally where
  "new_tally = \<lparr>ta_ended = False, ta_live = 0, ta_accepted = 0, ta_joined = 0, ta_refused = 0\<rparr>"

definition loop_turn :: "nat \<Rightarrow> 'h turn \<Rightarrow> tally \<times> 'h engine \<Rightarrow> tally \<times> 'h engine" where
  "loop_turn most t ks =
     (let (k, st) = ks; st1 = tu_others t st in
      if tu_stop t then (k\<lparr>ta_ended := True\<rparr>, st1)
      else if tu_joined t \<and> ta_live k \<noteq> 0
      then (k\<lparr>ta_live := ta_live k - 1, ta_joined := ta_joined k + 1\<rparr>, st1)
      else (case tu_accept t of
          None \<Rightarrow> (k, st1)
        | Some False \<Rightarrow> (k\<lparr>ta_ended := True\<rparr>, st1)
        | Some True \<Rightarrow>
            (let (ok, st2) = accept_connection most (ta_live k) st1
             in (if ok then k\<lparr>ta_live := ta_live k + 1, ta_accepted := ta_accepted k + 1\<rparr>
                 else k\<lparr>ta_refused := ta_refused k + 1\<rparr>, st2))))"

fun accept_loop :: "nat \<Rightarrow> 'h turn list \<Rightarrow> tally \<times> 'h engine \<Rightarrow> tally \<times> 'h engine" where
  "accept_loop most [] ks = ks"
| "accept_loop most (t # ts) ks =
     (if ta_ended (fst ks) then ks else accept_loop most ts (loop_turn most t ks))"

text \<open>
  After the loop the tasks are aborted and awaited; \<open>exchanges\<close> are those they leave unfinished.
\<close>

definition listener_task ::
  "nat \<Rightarrow> 'h turn list \<Rightarrow> nat list \<Rightarrow> nat \<Rightarrow> 'h engine \<Rightarrow> tally \<times> 'h engine" where
  "listener_task most ts exchanges elapsed st =
     (let (k, st1) = accept_loop most ts (new_tally, st)
      in if ta_ended k
         then (k\<lparr>ta_live := 0, ta_joined := ta_joined k + ta_live k\<rparr>, stop_engine True exchanges elapsed st1)
         else (k, st1))"

section \<open>The limit is kept\<close>

definition quiet_turn :: "u64 \<Rightarrow> 'h turn \<Rightarrow> bool" where
  "quiet_turn L t \<longleftrightarrow>
     (\<forall>st. runs L st (tu_others t st)
        \<and> rejected_connections (status (tu_others t st)) = rejected_connections (status st))"

definition tally_ok :: "nat \<Rightarrow> nat \<Rightarrow> tally \<times> 'h engine \<Rightarrow> bool" where
  "tally_ok most base ks \<longleftrightarrow>
     ta_live (fst ks) \<le> most \<and> ta_live (fst ks) + ta_joined (fst ks) = ta_accepted (fst ks)
     \<and> rejected_connections (status (snd ks)) = base + ta_refused (fst ks)"

lemma loop_turn_ok:
  assumes "tally_ok most base ks" and "quiet_turn L t"
  shows "tally_ok most base (loop_turn most t ks) \<and> runs L (snd ks) (snd (loop_turn most t ks))"
proof -
  obtain k st where ks: "ks = (k, st)" by force
  have r: "runs L st (tu_others t st)"
    "rejected_connections (status (tu_others t st)) = rejected_connections (status st)"
    using assms(2) by (simp_all add: quiet_turn_def)
  have "runs L st (reject_connection (tu_others t st))" using r(1) op_reject by (rule runs_step)
  with assms(1) r show ?thesis
    by (auto simp: ks tally_ok_def loop_turn_def accept_connection_def reject_connection_def bump_def
        Let_def not_le split: option.split bool.split)
qed

lemma accept_loop_ok:
  assumes "tally_ok most base ks" and "\<forall>t \<in> set ts. quiet_turn L t"
  shows "tally_ok most base (accept_loop most ts ks) \<and> runs L (snd ks) (snd (accept_loop most ts ks))"
  using assms
proof (induction most ts ks rule: accept_loop.induct)
  case (2 most t ts ks)
  have "tally_ok most base (loop_turn most t ks)" "runs L (snd ks) (snd (loop_turn most t ks))"
    using loop_turn_ok [OF "2.prems"(1), of L t] "2.prems"(2) by simp_all
  with 2 show ?case by (auto intro: rtranclp_trans)
qed simp

text \<open>The signal ends the loop in the turn it is seen.\<close>

lemma accept_loop_stops: "\<exists>t \<in> set ts. tu_stop t \<Longrightarrow> ta_ended (fst (accept_loop most ts ks))"
proof (induction most ts ks rule: accept_loop.induct)
  case (2 most t ts ks)
  have "ta_ended (fst (accept_loop most ts ks'))" if "ta_ended (fst ks')" for ks' :: "tally \<times> 'a engine"
    using that by (cases ts) simp_all
  then have "ta_ended (fst (loop_turn most t ks)) \<Longrightarrow> ta_ended (fst (accept_loop most ts (loop_turn most t ks)))"
    by blast
  moreover have "tu_stop t \<Longrightarrow> ta_ended (fst (loop_turn most t ks))"
    by (simp add: loop_turn_def Let_def case_prod_beta)
  ultimately show ?case using 2 by auto
qed simp

text \<open>
  C23: the proxy keeps its limit and ends when told to. Whatever the connection tasks do and in
  whatever order connections come and go, there are never more of them than configured, and
  every one that was accepted is live or was awaited; every other one is counted as
  rejected. Whenever \<open>stop\<close> has signalled, the task ends: no connection is left, the engine
  shows that it is stopped and inspects nothing.
\<close>

theorem connections_limited:
  assumes "engine_reachable L st" and "\<forall>t \<in> set ts. quiet_turn L t"
    and "listener_task most ts exchanges elapsed st = (k, st')"
  shows "engine_reachable L st' \<and> ta_live k \<le> most \<and> ta_live k + ta_joined k = ta_accepted k
    \<and> rejected_connections (status st') = rejected_connections (status st) + ta_refused k
    \<and> ((\<exists>t \<in> set ts. tu_stop t) \<longrightarrow>
         ta_live k = 0 \<and> es_phase (status st') = Stopped \<and> \<not> https_inspection (status st'))"
proof -
  obtain k1 st1 where loop: "accept_loop most ts (new_tally, st) = (k1, st1)" by force
  have "tally_ok most (rejected_connections (status st)) (new_tally, st)"
    by (simp add: tally_ok_def new_tally_def)
  from accept_loop_ok [OF this assms(2)]
  have ok: "tally_ok most (rejected_connections (status st)) (k1, st1)" "runs L st st1" by (simp_all add: loop)
  have drops: "rejected_connections (status (fold (\<lambda>i. exchange_drop i elapsed) exchanges s))
      = rejected_connections (status s)" for s :: "'a engine"
    by (induction exchanges arbitrary: s)
      (simp_all add: exchange_drop_def exchange_finish_def exchange_update_def bump_def)
  show ?thesis
  proof (cases "ta_ended k1")
    case True
    then have end_of: "k = k1\<lparr>ta_live := 0, ta_joined := ta_joined k1 + ta_live k1\<rparr>"
      "st' = stop_engine True exchanges elapsed st1"
      using assms(3) by (simp_all add: listener_task_def loop)
    have "runs L st st'" using ok(2) stop_engine_runs unfolding end_of(2) by (rule rtranclp_trans)
    then have "engine_reachable L st'" using assms(1) by (blast intro: runs_reachable)
    then show ?thesis
      using ok(1) by (auto simp: end_of tally_ok_def stop_engine_def listener_end_def bump_def drops)
  next
    case False
    then have "k = k1" "st' = st1" using assms(3) by (simp_all add: listener_task_def loop)
    moreover have "\<not> (\<exists>t \<in> set ts. tu_stop t)"
      using accept_loop_stops [of ts most "(new_tally, st)"] False by (auto simp: loop)
    ultimately show ?thesis using ok assms(1) by (auto simp: tally_ok_def intro: runs_reachable)
  qed
qed

text \<open>One place, two connections at once, then the signal.\<close>

definition sample_turns :: "(string \<times> bytes) list turn list" where
  "sample_turns = map (\<lambda>(s, a). \<lparr>tu_others = bump, tu_stop = s, tu_joined = False, tu_accept = a\<rparr>)
     [(False, Some True), (False, Some True), (True, Some True)]"

theorem connections_limited_witness:
  "rejected_connections (status (snd (listener_task 1 sample_turns [] 5 default_engine))) = 1
   \<and> es_phase (status (snd (listener_task 1 sample_turns [] 5 default_engine))) = Stopped"
proof -
  have quiet: "\<forall>t \<in> set sample_turns. quiet_turn 100 t"
    using op_bump [of 100] by (auto simp: sample_turns_def quiet_turn_def bump_def)
  have refused: "ta_refused (fst (listener_task 1 sample_turns [] 5 default_engine)) = 1" by code_simp
  have stop: "\<exists>t \<in> set sample_turns. tu_stop t" by (simp add: sample_turns_def)
  from connections_limited [OF default_reachable quiet prod.collapse [symmetric]] stop refused
  show ?thesis by (simp add: default_engine_def default_engine_status_def)
qed

end
