(* ===== verification/Response_Stream.thy ===== *)
theory Response_Stream
  imports Proxy_Request
begin

text \<open>
  The body of a response that is not replaced: \<open>ResponseBody\<close>, which is \<open>RecordedBody\<close> over
  \<open>ObservedBody\<close>, polled by the client's connection until its end or until the client is gone
  (\<open>crates/engine/src/proxy.rs\<close> and \<open>crates/engine/src/proxy/bodies.rs\<close>). Every frame is counted when
  it is read from the upstream and handed on when the recorder has taken it; in between other
  tasks run. The theorem relates what the client is delivered and what the capture shows.
\<close>

section \<open>Polls of a response body\<close>

text \<open>What \<open>ObservedBody\<close> sees when it is polled.\<close>

definition observed_event :: "poll_world \<Rightarrow> frame list \<Rightarrow> frame_event" where
  "observed_event w src =
     (let ended = pw_knows_end w \<and> tl src = [] in
      case inner_answer w src of
        Inner_Pending \<Rightarrow> Body_Pending
      | Inner_Error \<Rightarrow> Body_Failed
      | Inner_End \<Rightarrow> Body_End
      | Inner_Frame f \<Rightarrow>
          (case f of Frame_Data bytes \<Rightarrow> Data bytes ended | Frame_Trailers \<Rightarrow> Trailers ended))"

text \<open>One poll: \<open>ObservedBody\<close> is polled only when \<open>RecordedBody\<close> holds no frame.\<close>

definition poll_response ::
  "poll_world \<Rightarrow> nat \<Rightarrow> nat \<Rightarrow> relay \<Rightarrow> frame list \<Rightarrow> 'h engine \<Rightarrow> (poll \<times> relay \<times> bytes) \<times> 'h engine" where
  "poll_response w i elapsed r src st =
     (poll_relay (world_input w r src) r,
      if rl_pending r = None then observed_frame True i elapsed (observed_event w src) st else st)"

text \<open>
  The polls of the connection, each with the time and with what other tasks do before it. It
  stops after an error and after the end. The results, what the pipe got, the relay, the rest of
  the upstream body and the state.
\<close>

record 'h stream_poll =
  sp_world :: poll_world
  sp_elapsed :: nat
  sp_others :: "'h engine \<Rightarrow> 'h engine"

definition is_last :: "poll \<Rightarrow> bool" where
  "is_last p \<longleftrightarrow> p = Poll_Error \<or> p = Poll_None"

fun stream_response ::
  "'h stream_poll list \<Rightarrow> nat \<Rightarrow> relay \<Rightarrow> frame list \<Rightarrow> 'h engine
     \<Rightarrow> poll list \<times> bytes \<times> relay \<times> frame list \<times> 'h engine" where
  "stream_response [] i r src st = ([], [], r, src, st)"
| "stream_response (p # ps) i r src st =
     (let w = sp_world p;
          ((result, r1, out), st1) = poll_response w i (sp_elapsed p) r src (sp_others p st);
          src1 = remaining w r src
      in if is_last result then ([result], out, r1, src1, st1)
         else (let (results, wrote, r2, src2, st2) = stream_response ps i r1 src1 st1
               in (result # results, out @ wrote, r2, src2, st2)))"

definition frames_of :: "poll list \<Rightarrow> frame list" where
  "frames_of ps = concat (map (\<lambda>p. case p of Poll_Frame f \<Rightarrow> [f] | _ \<Rightarrow> []) ps)"

lemma frames_of_simps [simp]:
  "frames_of [] = []" "frames_of (p # ps) = (case p of Poll_Frame f \<Rightarrow> [f] | _ \<Rightarrow> []) @ frames_of ps"
  by (simp_all add: frames_of_def)

section \<open>What the capture shows\<close>

text \<open>Other tasks run operations of the engine; the capture of this exchange they only drop.\<close>

definition leaves_exchange :: "u64 \<Rightarrow> nat \<Rightarrow> ('h engine \<Rightarrow> 'h engine) \<Rightarrow> bool" where
  "leaves_exchange L i f \<longleftrightarrow>
     (\<forall>st. runs L st (f st)
        \<and> find_capture i (traffic (f st)) \<in> {None, find_capture i (traffic st)})"

text \<open>
  What is shown when the frames \<open>consumed\<close> were read and \<open>src\<close> were not: their bytes beside the
  \<open>base\<close> shown before, the head of the response, and complete only when nothing is left.
\<close>

definition shows_read :: "u64 \<Rightarrow> capture \<Rightarrow> frame list \<Rightarrow> frame list \<Rightarrow> capture \<Rightarrow> bool" where
  "shows_read base c0 consumed src c \<longleftrightarrow>
     cap_response_bytes c = base + of_nat (length (all_data consumed))
     \<and> cap_status c = cap_status c0 \<and> cap_response_headers c = cap_response_headers c0
     \<and> (cap_phase c = ''complete'' \<longrightarrow> src = [])"

definition shown_while :: "(capture \<Rightarrow> bool) \<Rightarrow> nat \<Rightarrow> 'h engine \<Rightarrow> bool" where
  "shown_while P i st \<longleftrightarrow> (case find_capture i (traffic st) of None \<Rightarrow> True | Some c \<Rightarrow> P c)"

lemma shown_others: "leaves_exchange L i f \<Longrightarrow> shown_while P i st \<Longrightarrow> shown_while P i (f st)"
  unfolding leaves_exchange_def shown_while_def by (metis insertE option.case(1) singletonD)

lemma shown_finish:
  "shown_while P i (exchange_finish i error elapsed st)
     \<longleftrightarrow> shown_while (\<lambda>c. P (finish_capture error elapsed c)) i st"
  by (simp add: shown_while_def find_finish split: option.split)

lemma shown_update:
  assumes "\<And>c. cap_id (f c) = cap_id c"
  shows "shown_while P i (exchange_update i f st) \<longleftrightarrow> shown_while (\<lambda>c. P (f c)) i st"
  using assms by (simp add: shown_while_def exchange_update_def find_update_capture split: option.split)

lemma shown_bytes:
  "shown_while P i (exchange_update i (add_response_bytes n) st)
     \<longleftrightarrow> shown_while (\<lambda>c. P (add_response_bytes n c)) i st"
  by (rule shown_update) (simp add: add_response_bytes_def)

lemma shown_mono: "shown_while P i st \<Longrightarrow> (\<And>c. P c \<Longrightarrow> Q c) \<Longrightarrow> shown_while Q i st"
  by (auto simp: shown_while_def split: option.splits)

text \<open>One poll: what it reads is counted at once, and the end is shown as soon as it is known.\<close>

lemma poll_response_shown:
  assumes ok: "relay_ok before piped r src"
    and poll: "poll_response w i elapsed r src st = ((result, r1, out), st1)"
    and shown: "shown_while (\<lambda>c. shows_read base c0 (before @ held_frames r) src c
                  \<and> cap_phase c \<in> {''pending'', ''complete''}) i st"
  defines "frames \<equiv> (case result of Poll_Frame f \<Rightarrow> [f] | _ \<Rightarrow> [])"
  shows "shown_while (\<lambda>c. shows_read base c0 (before @ frames @ held_frames r1) (remaining w r src) c
      \<and> (result = Poll_None \<longrightarrow> cap_phase c = ''complete'')
      \<and> (result \<noteq> Poll_Error \<longrightarrow> cap_phase c \<in> {''pending'', ''complete''})) i st1"
proof -
  have p: "poll_relay (world_input w r src) r = (result, r1, out)"
    and st1: "st1 = (if rl_pending r = None then observed_frame True i elapsed (observed_event w src) st else st)"
    using poll by (simp_all add: poll_response_def)
  have split: "held_frames r @ src = frames @ held_frames r1 @ remaining w r src"
    using poll_relay_ok [OF ok p] by (simp add: frames_def)
  show ?thesis
  proof (cases "rl_pending r")
    case (Some f)
    then have "remaining w r src = src" by (simp add: remaining_def)
    with split have "held_frames r = frames @ held_frames r1" by simp
    moreover have "result \<noteq> Poll_None" using p Some by (auto simp: poll_relay_def relay_pending_def Let_def split: prod.splits if_splits)
    ultimately show ?thesis
      using shown Some \<open>remaining w r src = src\<close> by (auto simp: st1 elim!: shown_mono)
  next
    case None
    have hold: "held_frames r = []" using None by simp
    show ?thesis
    proof (cases "inner_answer w src")
      case Inner_Pending
      then have "result = Poll_Pending" "r1 = r" "remaining w r src = src" "st1 = st"
        using p None
        by (auto simp: poll_relay_def world_input_def st1 observed_event_def observed_frame_def remaining_def
            inner_answer_def split: if_splits list.splits)
      with shown hold show ?thesis by (auto simp: frames_def elim!: shown_mono)
    next
      case Inner_Error
      then have "result = Poll_Error" "r1 = r\<lparr>rl_tap := None\<rparr>" "remaining w r src = src"
        and "st1 = exchange_finish i (Some ''Body transfer failed.'') elapsed st"
        using p None
        by (auto simp: poll_relay_def world_input_def st1 observed_event_def observed_frame_def remaining_def
            inner_answer_def split: if_splits list.splits)
      with shown hold None show ?thesis
        by (auto simp: frames_def shown_finish shows_read_def finish_capture_def elim!: shown_mono)
    next
      case Inner_End
      then have src: "src = []" by (auto simp: inner_answer_def split: if_splits list.splits)
      then have st1': "st1 = exchange_finish i None elapsed st" and frames: "frames = []"
        using p None Inner_End
        by (auto simp: st1 observed_event_def observed_frame_def poll_relay_def world_input_def frames_def
            split: if_splits)
      moreover have "held_frames r1 = []" using split by (simp add: src hold frames)
      ultimately show ?thesis
        using shown hold None src
        by (auto simp: shown_finish shows_read_def finish_capture_def remaining_def elim!: shown_mono)
    next
      case (Inner_Frame f)
      then have src: "src = f # tl src" and rem: "remaining w r src = tl src"
        using None by (auto simp: inner_answer_def remaining_def split: if_splits list.splits)
      then have f: "[f] = frames @ held_frames r1" using split hold by (metis append.assoc append_Cons append_Nil append_same_eq)
      have st1': "st1 = (let st2 = (case f of Frame_Data b \<Rightarrow> exchange_update i (add_response_bytes (length b)) st
              | Frame_Trailers \<Rightarrow> st)
            in if pw_knows_end w \<and> tl src = [] then exchange_finish i None elapsed st2 else st2)"
        using None Inner_Frame by (auto simp: st1 observed_event_def observed_frame_def Let_def split: frame.split)
      have res: "result \<noteq> Poll_None" "result \<noteq> Poll_Error"
        using p None Inner_Frame
        by (auto simp: poll_relay_def relay_pending_def world_input_def Let_def split: prod.splits if_splits)
      show ?thesis
        using shown hold src
        by (cases f)
          (auto simp: st1' res rem f [symmetric] Let_def shown_finish shown_bytes shows_read_def finish_capture_def
            add_response_bytes_def frame_data_def elim!: shown_mono)
    qed
  qed
qed

lemma stream_response_runs:
  assumes "\<forall>p \<in> set ps. leaves_exchange L i (sp_others p)"
    and "stream_response ps i r src st = (results, piped, r', rest, st')"
  shows "runs L st st'"
  using assms
proof (induction ps arbitrary: r src st results piped)
  case (Cons p ps)
  obtain result r1 out st1 where w: "poll_response (sp_world p) i (sp_elapsed p) r src (sp_others p st)
      = ((result, r1, out), st1)" by (metis prod.exhaust)
  have "runs L st (sp_others p st)" using Cons.prems(1) by (simp add: leaves_exchange_def)
  then have run: "runs L st st1"
    using w by (auto simp: poll_response_def intro: runs_step op_observed split: if_splits)
  show ?case
  proof (cases "is_last result")
    case True
    with Cons.prems(2) run show ?thesis by (simp add: w)
  next
    case False
    then obtain results2 wrote where "stream_response ps i r1 (remaining (sp_world p) r src) st1
        = (results2, wrote, r', rest, st')"
      using Cons.prems(2) by (auto simp: w split: prod.splits)
    from Cons.IH [OF _ this] Cons.prems(1) have "runs L st1 st'" by simp
    with run show ?thesis by (rule rtranclp_trans)
  qed
qed simp

text \<open>The frames in order, and what the capture shows of them, over all polls.\<close>

lemma stream_response_shown:
  assumes "\<forall>p \<in> set ps. leaves_exchange L i (sp_others p)"
    and "stream_response ps i r src st = (results, wrote, r', rest, st')"
    and "relay_ok before piped r src"
    and "shown_while (\<lambda>c. shows_read base c0 (before @ held_frames r) src c
           \<and> cap_phase c \<in> {''pending'', ''complete''}) i st"
  shows "held_frames r @ src = frames_of results @ held_frames r' @ rest
    \<and> prefix (piped @ wrote) (all_data (before @ frames_of results @ held_frames r'))
    \<and> shown_while (\<lambda>c. shows_read base c0 (before @ frames_of results @ held_frames r') rest c
        \<and> (Poll_None \<in> set results \<longrightarrow> cap_phase c = ''complete'')) i st'
    \<and> (Poll_None \<in> set results \<longrightarrow> held_frames r' = [] \<and> rest = [])"
  using assms
proof (induction ps arbitrary: r src st results wrote before piped)
  case Nil
  then show ?case by (auto simp: relay_ok_def elim!: shown_mono)
next
  case (Cons p ps)
  let ?w = "sp_world p"
  obtain result r1 out st1 where w: "poll_response ?w i (sp_elapsed p) r src (sp_others p st)
      = ((result, r1, out), st1)" by (metis prod.exhaust)
  define frames where "frames = (case result of Poll_Frame f \<Rightarrow> [f] | _ \<Rightarrow> [])"
  have shown: "shown_while (\<lambda>c. shows_read base c0 (before @ held_frames r) src c
      \<and> cap_phase c \<in> {''pending'', ''complete''}) i (sp_others p st)"
    by (rule shown_others [of L, OF _ Cons.prems(4)]) (use Cons.prems(1) in simp)
  note step = poll_response_shown [OF Cons.prems(3) w shown, folded frames_def]
  have relay: "poll_relay (world_input ?w r src) r = (result, r1, out)"
    using w by (simp add: poll_response_def)
  note kept = poll_relay_ok [OF Cons.prems(3) relay, folded frames_def]
  show ?case
  proof (cases "is_last result")
    case True
    have ended: "held_frames r1 = [] \<and> remaining ?w r src = []" if "result = Poll_None"
      using relay that
      by (auto simp: poll_relay_def relay_pending_def world_input_def Let_def inner_answer_def remaining_def
          split: option.splits inner_event.splits prod.splits if_splits list.splits)
    have "results = [result]" "wrote = out" "r' = r1" "rest = remaining ?w r src" "st' = st1"
      using Cons.prems(2) True by (simp_all add: w)
    with step kept ended show ?thesis
      by (auto simp: relay_ok_def frames_def elim!: shown_mono)
  next
    case False
    then obtain results2 wrote2 where rec: "stream_response ps i r1 (remaining ?w r src) st1
        = (results2, wrote2, r', rest, st')" and eq: "results = result # results2" "wrote = out @ wrote2"
      using Cons.prems(2) by (auto simp: w split: prod.splits)
    have shown1: "shown_while (\<lambda>c. shows_read base c0 ((before @ frames) @ held_frames r1) (remaining ?w r src) c
        \<and> cap_phase c \<in> {''pending'', ''complete''}) i st1"
      using step False by (auto simp: is_last_def elim!: shown_mono)
    have "result \<noteq> Poll_None" using False by (simp add: is_last_def)
    with Cons.IH [OF _ rec conjunct2 [OF kept] shown1] Cons.prems(1) kept show ?thesis
      by (simp add: eq frames_def)
  qed
qed


text \<open>
  A body of one frame and trailers, recorded: data and trailers are handed on when the recorder
  has ended, another task clears nothing.
\<close>

definition sample_stream :: "(string \<times> bytes) list stream_poll list" where
  "sample_stream =
     map (\<lambda>w. \<lparr>sp_world = w, sp_elapsed = 5, sp_others = bump\<rparr>)
       (sample_polls @ [(hd sample_polls)\<lparr>pw_task_done := True\<rparr>, (hd sample_polls)\<lparr>pw_task_done := True\<rparr>])"

lemma bump_leaves_exchange: "leaves_exchange L i bump"
  using op_bump [of L] by (auto simp: leaves_exchange_def bump_def)

definition sample_streamed ::
  "poll list \<times> bytes \<times> relay \<times> frame list \<times> (string \<times> bytes) list engine" where
  "sample_streamed = stream_response sample_stream 1 (fresh_relay (Some True))
     [Frame_Data ''ab'', Frame_Trailers] one_capture"


end
