(* ===== verification/Body_Reader.thy ===== *)
theory Body_Reader
  imports Body_Contract
begin

text \<open>
  Readers beside writers (\<open>page\<close>, \<open>info\<close> and \<open>export\<close> of \<open>BodyStore\<close> in
  \<open>crates/engine/src/proxy/bodies.rs\<close>). A reader takes no lock over the whole of its work: it takes a
  reference to the entry, then observes the state, then the length, then the file, and other tasks
  run in between. Here each observation is made in a state of its own. The order matters: a page
  must never show a complete body with the length it had before its end.
\<close>

section \<open>Observations\<close>

text \<open>
  \<open>s1\<close>, \<open>s2\<close> and \<open>s3\<close> are the states in which the result, the total and the file are read; \<open>s4\<close> the
  one in which the bytes are, after which a cancel no longer reaches the opened file.
\<close>

definition opened_content :: "nat \<Rightarrow> bytes \<Rightarrow> session \<Rightarrow> bytes" where
  "opened_content a f s =
     (case heap s a of
        None \<Rightarrow> f
      | Some e \<Rightarrow> (case e_file e of None \<Rightarrow> f | Some grown \<Rightarrow> grown))"

definition observed_page ::
  "nat \<Rightarrow> u64 \<Rightarrow> nat \<Rightarrow> session \<Rightarrow> session \<Rightarrow> session \<Rightarrow> session \<Rightarrow> body_error + body_page" where
  "observed_page a offset count s1 s2 s3 s4 =
     (if count = 0 \<or> count > page_size then Inl ReadSize
      else case (heap s1 a, heap s2 a, heap s3 a) of
        (Some e1, Some e2, Some e3) \<Rightarrow>
          if offset > e_total e2 then Inl OffsetExceeds
          else (case e_file e3 of
            None \<Rightarrow> Inl Cleared
          | Some f \<Rightarrow>
              (case read_window (opened_content a f s4) offset (e_total e2) count of
                 None \<Rightarrow> Inl BodyReadFailed
               | Some bytes \<Rightarrow>
                   Inr \<lparr>p_offset = offset, p_total = e_total e2, p_bytes = bytes,
                        p_state = fst (e_result e1), p_error = snd (e_result e1),
                        p_encoding = e_encoding e3\<rparr>))
      | _ \<Rightarrow> Inl NotRecorded)"

definition observed_export :: "nat \<Rightarrow> bool \<Rightarrow> session \<Rightarrow> session \<Rightarrow> session \<Rightarrow> body_error + bytes" where
  "observed_export a writable s1 s3 s4 =
     (case (heap s1 a, heap s3 a) of
        (Some e1, Some e3) \<Rightarrow>
          if fst (e_result e1) \<noteq> ''complete'' then Inl (NotComplete (snd (e_result e1)))
          else (case e_file e3 of
            None \<Rightarrow> Inl Cleared
          | Some f \<Rightarrow> if writable then Inr (opened_content a f s4) else Inl DestinationFailed)
      | _ \<Rightarrow> Inl NotRecorded)"

text \<open>Without other tasks these are the functions of the store.\<close>

lemma observed_page_alone:
  assumes "addr side i s = Some a" and "heap s a = Some e"
  shows "observed_page a offset count s s s s = store_page side i offset count s"
  using assms by (auto simp: observed_page_def store_page_def lookup_addr opened_content_def split: option.split)

lemma observed_export_alone:
  assumes "addr side i s = Some a" and "heap s a = Some e"
  shows "observed_export a writable s s s = export_file side i writable s"
  using assms by (auto simp: observed_export_def export_file_def lookup_addr opened_content_def split: option.split)

section \<open>Files only grow\<close>

text \<open>As long as somebody holds a reference an entry is not dropped.\<close>

definition held_step :: "u64 \<Rightarrow> nat \<Rightarrow> session \<Rightarrow> session \<Rightarrow> bool" where
  "held_step L a s s' \<longleftrightarrow> store_step L s s' \<and> heap s' a \<noteq> None"

definition appends :: "nat \<Rightarrow> session \<Rightarrow> session \<Rightarrow> bool" where
  "appends a s s' \<longleftrightarrow>
     (\<forall>e. heap s a = Some e \<longrightarrow>
        (case heap s' a of
           None \<Rightarrow> True
         | Some e' \<Rightarrow> (e_cancelled e \<longrightarrow> e_cancelled e')
             \<and> (\<forall>f. e_file e = Some f \<longrightarrow> \<not> e_cancelled e' \<longrightarrow> (\<exists>g. e_file e' = Some (f @ g)))))"

lemma appends_heap: "heap s' a = heap s a \<Longrightarrow> appends a s s'"
  by (auto simp: appends_def split: option.split)

lemma appends_cancel: "appends a s t \<Longrightarrow> appends a s (entry_cancel b t)"
  by (auto simp: appends_def heap_cancel cancel_entry_def split: option.splits)

lemma appends_fold_cancel: "appends a s t \<Longrightarrow> appends a s (fold (\<lambda>(_, b). entry_cancel b) es t)"
  by (induction es arbitrary: t) (auto intro: appends_cancel)

lemma store_step_appends:
  assumes "store_step L s s'"
  shows "appends a s s'"
  using assms
proof cases
  case (step_json_view side i start cancel)
  from json_view_session [OF this] show ?thesis
    by (elim disjE exE)
      (auto simp: appends_def start_layout_def upd_entry_def split: option.splits)
next
  case (step_commit t n bytes b limit side i encoding)
  have "appends a s (insert_entry side i b e (s\<lparr>tickets := T\<rparr>))" for e T
    using step_commit(4) by (auto simp: appends_def insert_entry_def split: option.split)
  with step_commit(1) show ?thesis
    by (auto simp: store_commit_def Let_def appends_heap intro!: appends_cancel split: option.splits)
next
  case (step_remove side i)
  have "appends a s (s\<lparr>entries := E\<rparr>)" for E by (rule appends_heap) simp
  with step_remove show ?thesis
    by (auto simp: remove_body_def Let_def intro: appends_cancel split: option.splits)
next
  case (step_clear side)
  have "appends a s (s\<lparr>entries := E\<rparr>)" for E by (rule appends_heap) simp
  with step_clear show ?thesis by (auto simp: clear_bodies_def intro: appends_fold_cancel)
qed (auto simp: appends_def upd_entry_def store_reserve_def store_failed_def store_dropped_def record_body_def
    insert_entry_def recorder_open_def recorder_check_def recorder_reserve_def recorder_write_def
    recorder_write_failed_def recorder_source_failed_def recorder_end_def tap_drop_def entry_finish_def
    finish_entry_def stopped_def append_file_def entry_drop_def layout_write_def layout_release_def
    layout_ready_def layout_failed_def Let_def split: option.splits if_splits)

text \<open>What a reference to an entry may rely on, over any run of other tasks.\<close>

definition grows :: "u64 \<Rightarrow> nat \<Rightarrow> session \<Rightarrow> session \<Rightarrow> bool" where
  "grows L a s s' \<longleftrightarrow>
     (reachable L s \<and> heap s a \<noteq> None \<longrightarrow>
        reachable L s' \<and> heap s' a \<noteq> None \<and> appends a s s'
        \<and> (\<forall>e. heap s a = Some e \<longrightarrow> is_complete e \<longrightarrow> kept a e s'))"

lemma grows_trans:
  assumes "grows L a s t" and "grows L a t u"
  shows "grows L a s u"
  unfolding grows_def
proof (intro impI)
  assume s: "reachable L s \<and> heap s a \<noteq> None"
  with assms(1) have t: "reachable L t" "heap t a \<noteq> None" "appends a s t"
    and kept: "\<And>e. heap s a = Some e \<Longrightarrow> is_complete e \<Longrightarrow> kept a e t"
    by (auto simp: grows_def)
  with assms(2) have u: "reachable L u" "heap u a \<noteq> None" "appends a t u"
    and kept2: "\<And>e. heap t a = Some e \<Longrightarrow> is_complete e \<Longrightarrow> kept a e u"
    by (auto simp: grows_def)
  obtain e e' e'' where e: "heap s a = Some e" "heap t a = Some e'" "heap u a = Some e''"
    using s t u by auto
  have "appends a s u" using t(3) u(3) by (fastforce simp: appends_def e)
  moreover have "kept a e u" if "is_complete e"
    using kept [OF e(1) that] kept2 [OF e(2)] that u(3)
    by (auto simp: kept_def e is_complete_def appends_def)
  ultimately show "reachable L u \<and> heap u a \<noteq> None \<and> appends a s u
      \<and> (\<forall>e. heap s a = Some e \<longrightarrow> is_complete e \<longrightarrow> kept a e u)"
    using u e by simp
qed

interpretation growing: run_order "held_step L a" "grows L a" for L a
proof unfold_locales
  show "grows L a s s" for s by (auto simp: grows_def appends_heap kept_self)
  show "grows L a s s'" if "held_step L a s s'" for s s'
    using that store_step_kept [of L s s' a] reachable_parts(1) [of L s]
    by (auto simp: grows_def held_step_def store_step_appends intro: reachable_step budget_ok_entry)
qed (rule grows_trans)

section \<open>Pages and exports beside writers\<close>

lemma reachable_entry:
  assumes "reachable L s" and "heap s a = Some e"
  shows "e_cancelled e \<longleftrightarrow> e_file e = None"
    and "e_file e = Some f \<Longrightarrow> unat (e_total e) \<le> length f"
    and "e_file e = Some f \<Longrightarrow> is_complete e \<Longrightarrow> length f = unat (e_total e)"
proof -
  have "entry_ok e" using reachable_parts(1) [OF assms(1)] assms(2) by (rule budget_ok_entry)
  then show "e_cancelled e \<longleftrightarrow> e_file e = None" "e_file e = Some f \<Longrightarrow> unat (e_total e) \<le> length f"
    "e_file e = Some f \<Longrightarrow> is_complete e \<Longrightarrow> length f = unat (e_total e)"
    by (auto simp: entry_ok_def split: if_splits)
qed

text \<open>An entry later on: once its file is gone it stays gone, else it grew, if not complete.\<close>

definition follows :: "entry \<Rightarrow> entry \<Rightarrow> bool" where
  "follows e e' \<longleftrightarrow>
     (e_file e = None \<longrightarrow> e_file e' = None)
     \<and> (\<forall>f f'. e_file e = Some f \<longrightarrow> e_file e' = Some f' \<longrightarrow>
          prefix f f' \<and> (is_complete e \<longrightarrow> f' = f \<and> e_total e' = e_total e \<and> is_complete e'))"

lemma held_run:
  assumes "(held_step L a)\<^sup>*\<^sup>* s s'" and "reachable L s" and "heap s a = Some e"
  shows "\<exists>e'. heap s' a = Some e' \<and> reachable L s' \<and> follows e e'"
proof -
  have g: "reachable L s'" "heap s' a \<noteq> None" "appends a s s'" "is_complete e \<Longrightarrow> kept a e s'"
    using growing.run_related [OF assms(1)] assms(2,3) by (auto simp: grows_def)
  then obtain e' where e': "heap s' a = Some e'" by auto
  note live = reachable_entry(1) [OF assms(2,3)] reachable_entry(1) [OF g(1) e']
  have "follows e e'"
    using g(3,4) assms(3) e' live by (auto simp: follows_def appends_def kept_def is_complete_def)
  with g(1) e' show ?thesis by blast
qed

lemma follows_live:
  assumes "follows e e'" and "e_file e' = Some f'"
  shows "\<exists>f. e_file e = Some f \<and> prefix f f'
    \<and> (is_complete e \<longrightarrow> f' = f \<and> e_total e' = e_total e \<and> is_complete e')"
  using assms by (cases "e_file e") (auto simp: follows_def)

lemma opened_extends:
  assumes "follows e e'" and "heap s a = Some e'" and "e_file e = Some f"
  shows "prefix f (opened_content a f s)"
  using assms by (auto simp: follows_def opened_content_def split: option.split)

lemma opened_later:
  assumes "heap s a = Some e" and "follows e e'" and "e_file e' = Some f"
  shows "prefix (opened_content a g s) f"
  using follows_live [OF assms(2,3)] by (auto simp: opened_content_def assms(1))

text \<open>The length observed before the file was opened is there when the bytes are read.\<close>

lemma opened_fits:
  assumes "reachable L s2" and "heap s2 a = Some e2" and "follows e2 e3" and "follows e3 e4"
    and "heap s a = Some e4" and "e_file e3 = Some f"
  shows "unat (e_total e2) \<le> length (opened_content a f s)"
proof -
  obtain f2 where f2: "e_file e2 = Some f2" "prefix f2 f" using follows_live [OF assms(3,6)] by blast
  then have "prefix f2 (opened_content a f s)"
    using opened_extends [OF assms(4-6)] by (blast intro: prefix_order.trans)
  with reachable_entry(2) [OF assms(1,2) f2(1)] show ?thesis by (auto dest: prefix_length_le)
qed

text \<open>Complete at the first observation, a body is what it is at the end at all of them.\<close>

lemma complete_observed:
  assumes "reachable L s2" and "heap s2 a = Some e2" and "heap s4 a = Some e4"
    and "follows e1 e2" "follows e2 e3" "follows e3 e4" "follows e4 e5"
    and "is_complete e1" and "e_file e5 = Some f"
  shows "unat (e_total e2) = length f \<and> is_complete e5 \<and> opened_content a g s4 = f"
proof -
  obtain f4 where f4: "e_file e4 = Some f4" "is_complete e4 \<longrightarrow> f = f4 \<and> is_complete e5"
    using follows_live [OF assms(7,9)] by blast
  obtain f3 where f3: "e_file e3 = Some f3" "is_complete e3 \<longrightarrow> f4 = f3 \<and> is_complete e4"
    using follows_live [OF assms(6) f4(1)] by blast
  obtain f2 where f2: "e_file e2 = Some f2" "is_complete e2 \<longrightarrow> f3 = f2 \<and> is_complete e3"
    using follows_live [OF assms(5) f3(1)] by blast
  have c: "is_complete e2" using follows_live [OF assms(4) f2(1)] assms(8) by blast
  with f2(2) f3(2) f4(2) have "f = f2" "f = f4" "is_complete e5" by simp_all
  with reachable_entry(3) [OF assms(1,2) f2(1) c] show ?thesis
    by (simp add: opened_content_def assms(3) f4(1))
qed

lemma read_window_fits:
  assumes "offset \<le> full" and "unat full \<le> length file"
  shows "read_window file offset full count = Some (take (min count (unat (full - offset))) (drop (unat offset) file))"
proof -
  have "unat (full - offset) = unat full - unat offset"
    using assms(1) by (intro unat_sub_u64) (simp add: word_le_nat_alt)
  then have "unat offset + min count (unat (full - offset)) \<le> length file"
    using assms by (auto simp: word_le_nat_alt)
  then show ?thesis by (simp add: read_window_def Let_def)
qed

text \<open>
  C10: readers need no lock. Whatever other tasks do between the observations, a page of a body
  that is not cleared never fails to be read, and its bytes are those the body will still have at that
  place however much is appended. A page that is shown as complete has the total of the whole
  body, and its bytes are those of the final file; an export copies the final file.
\<close>

theorem readers_consistent:
  assumes reach: "reachable L s1" and e1: "heap s1 a = Some e1"
    and run: "(held_step L a)\<^sup>*\<^sup>* s1 s2" "(held_step L a)\<^sup>*\<^sup>* s2 s3" "(held_step L a)\<^sup>*\<^sup>* s3 s4" "(held_step L a)\<^sup>*\<^sup>* s4 s5"
  shows "observed_page a offset count s1 s2 s3 s4 \<noteq> Inl BodyReadFailed
    \<and> (\<forall>p e f. observed_page a offset count s1 s2 s3 s4 = Inr p \<longrightarrow>
         heap s5 a = Some e \<longrightarrow> e_file e = Some f \<longrightarrow>
           p_bytes p = take (min count (unat (p_total p - offset))) (drop (unat offset) f)
           \<and> (p_state p = ''complete'' \<longrightarrow> unat (p_total p) = length f \<and> is_complete e))
    \<and> (\<forall>b e f. observed_export a writable s1 s3 s4 = Inr b \<longrightarrow>
         heap s5 a = Some e \<longrightarrow> e_file e = Some f \<longrightarrow> b = f \<and> is_complete e)"
proof -
  obtain e2 where e2: "heap s2 a = Some e2" "reachable L s2" "follows e1 e2"
    using held_run [OF run(1) reach e1] by blast
  obtain e3 where e3: "heap s3 a = Some e3" "reachable L s3" "follows e2 e3"
    using held_run [OF run(2) e2(2,1)] by blast
  obtain e4 where e4: "heap s4 a = Some e4" "reachable L s4" "follows e3 e4"
    using held_run [OF run(3) e3(2,1)] by blast
  obtain e5 where e5: "heap s5 a = Some e5" "reachable L s5" "follows e4 e5"
    using held_run [OF run(4) e4(2,1)] by blast
  note fits = opened_fits [OF e2(2,1) e3(3) e4(3,1)] and later = opened_later [OF e4(1) e5(3)]
    and final = complete_observed [OF e2(2,1) e4(1) e2(3) e3(3) e4(3) e5(3)]
  show ?thesis
  proof (intro conjI allI impI)
    show "observed_page a offset count s1 s2 s3 s4 \<noteq> Inl BodyReadFailed"
      using fits by (auto simp: observed_page_def e1 e2 e3 read_window_fits split: option.split)
  next
    fix p e f
    assume p: "observed_page a offset count s1 s2 s3 s4 = Inr p" and "heap s5 a = Some e" and f: "e_file e = Some f"
    then have f5: "e_file e5 = Some f" and e: "e = e5" by (simp_all add: e5)
    obtain f3 where f3: "e_file e3 = Some f3" and le: "offset \<le> e_total e2"
      and page: "p_total p = e_total e2" "p_state p = fst (e_result e1)"
        "p_bytes p = take (min count (unat (e_total e2 - offset))) (drop (unat offset) (opened_content a f3 s4))"
      using p fits
      by (auto simp: observed_page_def e1 e2 e3 read_window_fits split: if_splits option.splits)
    obtain g where g: "f = opened_content a f3 s4 @ g" using later [OF f5] by (auto simp: prefix_def)
    have "unat (e_total e2 - offset) = unat (e_total e2) - unat offset"
      using le by (intro unat_sub_u64) (simp add: word_le_nat_alt)
    then show "p_bytes p = take (min count (unat (p_total p - offset))) (drop (unat offset) f)"
      using fits [OF f3] le by (simp add: page g word_le_nat_alt)
    show "unat (p_total p) = length f" "is_complete e" if "p_state p = ''complete''"
      using final [OF _ f5] that by (auto simp: page e is_complete_def)
  next
    fix b e f
    assume "observed_export a writable s1 s3 s4 = Inr b" and "heap s5 a = Some e" and "e_file e = Some f"
    then show "b = f" "is_complete e"
      using final [of f] by (auto simp: observed_export_def e1 e3 e5 is_complete_def split: if_splits option.splits)
  qed
qed

text \<open>A recorder with \<open>n\<close> bytes reserved, for concrete runs.\<close>

definition recorder_waits :: "nat \<Rightarrow> u64 \<Rightarrow> session \<Rightarrow> bool" where
  "recorder_waits a n s \<longleftrightarrow>
     (case heap s a of None \<Rightarrow> False | Some e \<Rightarrow> e_recorder e \<and> e_unwritten e = n)"

lemma recorder_waitsE:
  assumes "recorder_waits a n s"
  obtains e where "heap s a = Some e" and "e_recorder e" and "e_unwritten e = n"
  using assms by (auto simp: recorder_waits_def split: option.splits)

lemma waiting_steps:
  "recorder_waits a 0 s \<Longrightarrow> store_step L s (recorder_reserve a k s)"
  "recorder_waits a n s \<Longrightarrow> length chunk = unat n \<Longrightarrow> store_step L s (recorder_write a chunk s)"
  "recorder_waits a 0 s \<Longrightarrow> store_step L s (recorder_end a s)"
  by (auto elim!: recorder_waitsE intro: step_chunk step_write step_end)

lemma waiting_held: "store_step L s s' \<Longrightarrow> recorder_waits a n s' \<Longrightarrow> held_step L a s s'"
  by (auto simp: held_step_def elim: recorder_waitsE)

text \<open>Two bytes are recorded when the page observes the length; a third comes before it reads.\<close>

definition read_from :: session where
  "read_from = recorder_write 0 ''ab'' (recorder_reserve 0 2
     (record_body Response_Side 7 0 ''identity'' 100 shared_pair))"
definition read_to :: session where
  "read_to = recorder_write 0 ''c'' (recorder_reserve 0 1 read_from)"

lemma read_from_reachable: "reachable 100 read_from"
proof -
  let ?s = "record_body Response_Side 7 0 ''identity'' 100 shared_pair"
  have "heap shared_pair 0 = None" "reachable 100 shared_pair" by (simp_all add: reachable_def shared_pair_def)
  then have 1: "reachable 100 ?s" by (blast intro: reachable_step step_record order_refl)
  have "recorder_waits 0 0 ?s" by code_simp
  from reachable_step [OF 1 waiting_steps(1) [OF this]] have 2: "reachable 100 (recorder_reserve 0 2 ?s)" .
  have "recorder_waits 0 2 (recorder_reserve 0 2 ?s)" by code_simp
  from reachable_step [OF 2 waiting_steps(2) [OF this]] show ?thesis by (simp add: read_from_def)
qed

theorem readers_consistent_witness:
  "observed_page 0 0 10 read_from read_from read_from read_to
     = Inr \<lparr>p_offset = 0, p_total = 2, p_bytes = ''ab'', p_state = ''recording'', p_error = None,
           p_encoding = ''identity''\<rparr>
   \<and> ''ab'' = take 2 ''abc'' \<and> map_option e_file (heap (recorder_end 0 read_to) 0) = Some (Some ''abc'')"
proof -
  have page: "observed_page 0 0 10 read_from read_from read_from read_to
      = Inr \<lparr>p_offset = 0, p_total = 2, p_bytes = ''ab'', p_state = ''recording'', p_error = None,
            p_encoding = ''identity''\<rparr>" by code_simp
  have waits: "recorder_waits 0 0 read_from" "recorder_waits 0 1 (recorder_reserve 0 1 read_from)"
    "recorder_waits 0 0 read_to" by code_simp+
  have whole: "map_option e_file (heap (recorder_end 0 read_to) 0) = Some (Some ''abc'')" by code_simp
  obtain e1 where e1: "heap read_from 0 = Some e1" using waits(1) by (rule recorder_waitsE)
  have "held_step 100 0 read_from (recorder_reserve 0 1 read_from)"
    by (rule waiting_held [OF waiting_steps(1) [OF waits(1)] waits(2)])
  moreover have "held_step 100 0 (recorder_reserve 0 1 read_from) read_to"
    unfolding read_to_def
    by (rule waiting_held [OF waiting_steps(2) [OF waits(2)] waits(3) [unfolded read_to_def]]) simp
  ultimately have run: "(held_step 100 0)\<^sup>*\<^sup>* read_from read_to" by (meson converse_rtranclp_into_rtranclp r_into_rtranclp)
  have last: "(held_step 100 0)\<^sup>*\<^sup>* read_to (recorder_end 0 read_to)"
    using waiting_steps(3) [OF waits(3)] whole by (auto simp: held_step_def)
  obtain e where e: "heap (recorder_end 0 read_to) 0 = Some e" "e_file e = Some ''abc''" using whole by auto
  from readers_consistent [OF read_from_reachable e1 rtranclp.rtrancl_refl rtranclp.rtrancl_refl run last, of 0 10]
    page e have "''ab'' = take 2 ''abc''" by (auto simp: min_def)
  with page whole show ?thesis by blast
qed

end
