(* ===== verification/Recording.thy ===== *)
theory Recording
  imports Body_Reader Relay
begin

text \<open>
  A recorded response from the upstream to the file (\<open>RecordedBody\<close>, \<open>Drop for Tap\<close> and the recorder
  task of \<open>record\<close> in \<open>crates/engine/src/proxy/bodies.rs\<close>): the polls of the client's connection, the
  bounded pipe, the recorder and every other task of the body stores as interleaved steps. The
  content encoding is \<open>identity\<close>, so the recorder writes what it reads from the pipe; for the others
  a decoder stands between them.
\<close>

section \<open>Steps\<close>

text \<open>
  \<open>rc_sent\<close> is all that was written to the pipe, \<open>rc_read\<close> how much of it is in the file. The body
  still holds the frames \<open>rc_rest\<close>.
\<close>

record recording =
  rc_relay :: relay
  rc_rest :: "frame list"
  rc_sent :: bytes
  rc_read :: nat
  rc_store :: session

text \<open>One poll. The tap is dropped in it when it was there before and is not there afterwards.\<close>

definition poll_recording :: "nat \<Rightarrow> poll_world \<Rightarrow> recording \<Rightarrow> poll \<times> recording" where
  "poll_recording a w c =
     (let r = rc_relay c; (result, r', out) = poll_relay (world_input w r (rc_rest c)) r
      in (result, c\<lparr>rc_relay := r', rc_rest := remaining w r (rc_rest c), rc_sent := rc_sent c @ out,
                    rc_store := (if rl_tap r \<noteq> None \<and> rl_tap r' = None then tap_drop a (rc_store c)
                                 else rc_store c)\<rparr>))"

text \<open>The client's connection is gone: the body is dropped, and its tap with it.\<close>

definition drop_recording :: "nat \<Rightarrow> recording \<Rightarrow> recording" where
  "drop_recording a c =
     (if rl_tap (rc_relay c) = None then c
      else c\<lparr>rc_relay := (rc_relay c)\<lparr>rl_tap := None\<rparr>, rc_store := tap_drop a (rc_store c)\<rparr>)"

text \<open>What the recorder has reserved and not yet written.\<close>

definition next_chunk :: "entry \<Rightarrow> recording \<Rightarrow> bytes" where
  "next_chunk e c = take (unat (e_unwritten e)) (drop (rc_read c) (rc_sent c))"

definition write_chunk :: "nat \<Rightarrow> entry \<Rightarrow> recording \<Rightarrow> recording" where
  "write_chunk a e c =
     c\<lparr>rc_read := rc_read c + unat (e_unwritten e),
       rc_store := recorder_write a (next_chunk e c) (rc_store c)\<rparr>"

text \<open>Other tasks leave an entry as it is, or cancel it; the last reference to it may go.\<close>

definition spares :: "nat \<Rightarrow> session \<Rightarrow> session \<Rightarrow> bool" where
  "spares a s s' \<longleftrightarrow>
     (case heap s a of
        None \<Rightarrow> heap s' a = None
      | Some e \<Rightarrow>
          (case heap s' a of
             None \<Rightarrow> True
           | Some e' \<Rightarrow> e_unwritten e' = e_unwritten e \<and> e_recorder e' = e_recorder e
               \<and> (e_cancelled e' \<or> e_cancelled e' = e_cancelled e \<and> e_file e' = e_file e
                    \<and> e_result e' = e_result e)))"

text \<open>
  The recorder reads at most a page at a time. It is told the end when the pipe is empty and its
  other end is closed: the input was taken, or the tap was dropped.
\<close>

inductive recording_step :: "u64 \<Rightarrow> nat \<Rightarrow> recording \<Rightarrow> recording \<Rightarrow> bool" for L a where
  rec_poll: "(pw_task_done w \<longrightarrow> (\<forall>e. heap (rc_store c) a = Some e \<longrightarrow> \<not> e_recorder e))
    \<Longrightarrow> poll_recording a w c = (result, c') \<Longrightarrow> recording_step L a c c'"
| rec_drop: "recording_step L a c (drop_recording a c)"
| rec_check: "recording_step L a c (c\<lparr>rc_store := recorder_check a (rc_store c)\<rparr>)"
| rec_read: "heap (rc_store c) a = Some e \<Longrightarrow> e_recorder e \<Longrightarrow> e_unwritten e = 0
    \<Longrightarrow> 0 < n \<Longrightarrow> n \<le> page_size \<Longrightarrow> rc_read c + n \<le> length (rc_sent c)
    \<Longrightarrow> recording_step L a c (c\<lparr>rc_store := recorder_reserve a (of_nat n) (rc_store c)\<rparr>)"
| rec_write: "heap (rc_store c) a = Some e \<Longrightarrow> e_recorder e \<Longrightarrow> e_unwritten e \<noteq> 0
    \<Longrightarrow> recording_step L a c (write_chunk a e c)"
| rec_write_failed: "heap (rc_store c) a = Some e \<Longrightarrow> e_recorder e \<Longrightarrow> e_unwritten e \<noteq> 0
    \<Longrightarrow> prefix written (next_chunk e c)
    \<Longrightarrow> recording_step L a c (c\<lparr>rc_store := recorder_write_failed a written (rc_store c)\<rparr>)"
| rec_end: "heap (rc_store c) a = Some e \<Longrightarrow> e_recorder e \<Longrightarrow> e_unwritten e = 0
    \<Longrightarrow> rl_tap (rc_relay c) \<noteq> Some True \<Longrightarrow> rc_read c = length (rc_sent c)
    \<Longrightarrow> recording_step L a c (c\<lparr>rc_store := recorder_end a (rc_store c)\<rparr>)"
| rec_other: "store_step L (rc_store c) s \<Longrightarrow> spares a (rc_store c) s
    \<Longrightarrow> recording_step L a c (c\<lparr>rc_store := s\<rparr>)"

text \<open>The recording begins in \<open>pass_response\<close>, with an unused address.\<close>

definition begin_recording :: "side \<Rightarrow> nat \<Rightarrow> nat \<Rightarrow> u64 \<Rightarrow> frame list \<Rightarrow> session \<Rightarrow> recording" where
  "begin_recording side i a limit src s =
     \<lparr>rc_relay = fresh_relay (Some True), rc_rest = src, rc_sent = [], rc_read = 0,
      rc_store = record_body side i a ''identity'' limit s\<rparr>"

section \<open>What is recorded\<close>

definition entry_records :: "recording \<Rightarrow> bytes \<Rightarrow> entry \<Rightarrow> bool" where
  "entry_records c body e \<longleftrightarrow>
     (e_recorder e \<longrightarrow> rc_read c + unat (e_unwritten e) \<le> length (rc_sent c))
     \<and> (e_cancelled e \<or> (\<exists>f. e_file e = Some f \<and> prefix f body
        \<and> (e_recorder e \<longrightarrow> f = take (rc_read c) (rc_sent c))
        \<and> (is_complete e \<longrightarrow> f = body \<and> \<not> e_recorder e)
        \<and> (rl_tap (rc_relay c) = None \<longrightarrow> fst (e_result e) \<noteq> ''recording'')))"

definition recording_inv :: "nat \<Rightarrow> frame list \<Rightarrow> recording \<Rightarrow> bool" where
  "recording_inv a src c \<longleftrightarrow>
     (\<exists>before. src = before @ held_frames (rc_relay c) @ rc_rest c
        \<and> relay_ok before (rc_sent c) (rc_relay c) (rc_rest c))
     \<and> (\<forall>e. heap (rc_store c) a = Some e \<longrightarrow> entry_records c (all_data src) e)"

lemma sent_prefix: "recording_inv a src c \<Longrightarrow> prefix (rc_sent c) (all_data src)"
  unfolding recording_inv_def relay_ok_def by (metis all_data_simps(3) append.assoc prefix_prefix)

lemma sent_taken: "recording_inv a src c \<Longrightarrow> prefix (take n (rc_sent c)) (all_data src)"
  by (rule prefix_order.trans [OF take_is_prefix sent_prefix])

text \<open>A pipe that was closed in the regular way got the whole body.\<close>

lemma closed_pipe_whole:
  "recording_inv a src c \<Longrightarrow> rl_tap (rc_relay c) = Some False \<Longrightarrow> rc_sent c = all_data src"
  by (auto simp: recording_inv_def relay_ok_def)

lemma inv_same_relay:
  assumes "recording_inv a src c" and "rc_relay c' = rc_relay c" "rc_rest c' = rc_rest c" "rc_sent c' = rc_sent c"
    and "\<And>e. heap (rc_store c') a = Some e \<Longrightarrow> entry_records c' (all_data src) e"
  shows "recording_inv a src c'"
  using assms by (simp add: recording_inv_def)

lemma upd_entry_records:
  assumes "recording_inv a src c" and "rc_relay c' = rc_relay c" "rc_rest c' = rc_rest c" "rc_sent c' = rc_sent c"
    and "rc_store c' = upd_entry a f (rc_store c)"
    and "\<And>e. heap (rc_store c) a = Some e \<Longrightarrow> entry_records c (all_data src) e
      \<Longrightarrow> entry_records c' (all_data src) (f e)"
  shows "recording_inv a src c'"
proof (rule inv_same_relay [OF assms(1-4)])
  fix e assume "heap (rc_store c') a = Some e"
  then obtain d where "heap (rc_store c) a = Some d" "e = f d"
    by (auto simp: assms(5) upd_entry_def split: option.splits)
  then show "entry_records c' (all_data src) e" using assms(1,6) by (simp add: recording_inv_def)
qed

lemma recording_polled:
  assumes inv: "recording_inv a src c" and poll: "poll_recording a w c = (result, c')"
  shows "recording_inv a src c'"
proof -
  let ?r = "rc_relay c"
  obtain r' out where p: "poll_relay (world_input w ?r (rc_rest c)) ?r = (result, r', out)"
    and c': "c' = c\<lparr>rc_relay := r', rc_rest := remaining w ?r (rc_rest c), rc_sent := rc_sent c @ out,
        rc_store := (if rl_tap ?r \<noteq> None \<and> rl_tap r' = None then tap_drop a (rc_store c) else rc_store c)\<rparr>"
    using poll by (auto simp: poll_recording_def Let_def split: prod.splits)
  obtain before where src: "src = before @ held_frames ?r @ rc_rest c"
    and ok: "relay_ok before (rc_sent c) ?r (rc_rest c)"
    using inv by (auto simp: recording_inv_def)
  let ?frames = "case result of Poll_Frame f \<Rightarrow> [f] | _ \<Rightarrow> []"
  have "src = (before @ ?frames) @ held_frames (rc_relay c') @ rc_rest c'
      \<and> relay_ok (before @ ?frames) (rc_sent c') (rc_relay c') (rc_rest c')"
    using poll_relay_ok [OF ok p] src by (simp add: c')
  moreover have "entry_records c' (all_data src) e" if e: "heap (rc_store c') a = Some e" for e
  proof -
    obtain d where d: "heap (rc_store c) a = Some d"
      and eq: "e = (if rl_tap ?r \<noteq> None \<and> rl_tap r' = None
                 then finish_entry ''partial'' (Some ''Body capture interrupted.'') d else d)"
      using e by (auto simp: c' tap_drop_def entry_finish_def upd_entry_def split: if_splits option.splits)
    have "entry_records c (all_data src) d" using inv d by (simp add: recording_inv_def)
    then show ?thesis by (auto simp: eq c' entry_records_def finish_entry_def is_complete_def)
  qed
  ultimately show ?thesis unfolding recording_inv_def by blast
qed

lemma recording_dropped:
  assumes inv: "recording_inv a src c"
  shows "recording_inv a src (drop_recording a c)"
proof (cases "rl_tap (rc_relay c)")
  case None
  with inv show ?thesis by (simp add: drop_recording_def)
next
  case (Some opened)
  let ?c = "drop_recording a c"
  have "held_frames (rc_relay ?c) = held_frames (rc_relay c)" by (simp add: drop_recording_def held_frames_def)
  moreover from this have "relay_ok before (rc_sent ?c) (rc_relay ?c) (rc_rest ?c)"
    if "relay_ok before (rc_sent c) (rc_relay c) (rc_rest c)" for before
    using that Some by (auto simp: relay_ok_def drop_recording_def)
  moreover have "entry_records ?c (all_data src) e" if e: "heap (rc_store ?c) a = Some e" for e
  proof -
    obtain d where d: "heap (rc_store c) a = Some d"
      and eq: "e = finish_entry ''partial'' (Some ''Body capture interrupted.'') d"
      using e Some
      by (auto simp: drop_recording_def tap_drop_def entry_finish_def upd_entry_def split: option.splits)
    have "entry_records c (all_data src) d" using inv d by (simp add: recording_inv_def)
    then show ?thesis by (auto simp: eq drop_recording_def entry_records_def finish_entry_def is_complete_def)
  qed
  ultimately show ?thesis using inv by (auto simp: recording_inv_def drop_recording_def)
qed

lemma next_chunk_take:
  "rc_read c + unat (e_unwritten e) \<le> length (rc_sent c) \<Longrightarrow>
     take (rc_read c) (rc_sent c) @ next_chunk e c = take (rc_read c + unat (e_unwritten e)) (rc_sent c)"
  by (simp add: next_chunk_def take_add)

lemma inv_recorder_reserve:
  assumes inv: "recording_inv a src c" and e: "heap (rc_store c) a = Some e" and zero: "e_unwritten e = 0"
    and n: "n \<le> page_size" "rc_read c + n \<le> length (rc_sent c)"
  shows "recording_inv a src (c\<lparr>rc_store := recorder_reserve a (of_nat n) (rc_store c)\<rparr>)"
proof (rule inv_same_relay [OF inv])
  have u: "unat (of_nat n :: u64) = n"
    using n(1) by (simp add: unsigned_of_nat take_bit_eq_mod page_size_def)
  have ok: "entry_records c (all_data src) e" using inv e by (simp add: recording_inv_def)
  fix e' assume "heap (rc_store (c\<lparr>rc_store := recorder_reserve a (of_nat n) (rc_store c)\<rparr>)) a = Some e'"
  then have "e' \<in> {stopped e, stopped (e\<lparr>e_result := (''partial'', Some ''Session disk budget reached. Increase the budget before retrying; forwarding continues.'')\<rparr>),
      e\<lparr>e_reserved := e_reserved e + of_nat n, e_unwritten := of_nat n\<rparr>}"
    using e by (auto simp: recorder_reserve_def upd_entry_def split: if_splits option.splits)
  then show "entry_records (c\<lparr>rc_store := recorder_reserve a (of_nat n) (rc_store c)\<rparr>) (all_data src) e'"
    using ok zero u n(2) by (auto simp: entry_records_def stopped_def is_complete_def)
qed simp_all

lemma recording_step_inv:
  assumes "recording_step L a c c'" and inv: "recording_inv a src c"
  shows "recording_inv a src c'"
  using assms(1)
proof cases
  case (rec_poll w result)
  with inv show ?thesis by (blast intro: recording_polled)
next
  case rec_drop
  with inv show ?thesis by (simp add: recording_dropped)
next
  case rec_check
  show ?thesis
    by (rule upd_entry_records [OF inv, where f = "\<lambda>e. if e_cancelled e then stopped e else e"])
      (auto simp: rec_check recorder_check_def entry_records_def stopped_def)
next
  case (rec_read e n)
  with inv show ?thesis by (blast intro: inv_recorder_reserve)
next
  case (rec_write e)
  show ?thesis
    by (rule upd_entry_records [OF inv])
      (use rec_write sent_taken [OF inv] in \<open>auto simp: write_chunk_def recorder_write_def entry_records_def
        append_file_def next_chunk_take is_complete_def\<close>)
next
  case (rec_write_failed e written)
  have "prefix (take (rc_read c) (rc_sent c) @ written) (all_data src)"
    if "rc_read c + unat (e_unwritten e) \<le> length (rc_sent c)"
  proof -
    have "prefix (take (rc_read c) (rc_sent c) @ written) (take (rc_read c + unat (e_unwritten e)) (rc_sent c))"
      using rec_write_failed(5) next_chunk_take [OF that] by (metis same_prefix_prefix)
    then show ?thesis using sent_taken [OF inv] by (rule prefix_order.trans)
  qed
  then show ?thesis
    using rec_write_failed
    by (intro upd_entry_records [OF inv])
      (auto simp: recorder_write_failed_def entry_records_def append_file_def stopped_def finish_entry_def
        is_complete_def split: if_splits)
next
  case (rec_end e)
  show ?thesis
    by (rule upd_entry_records [OF inv])
      (use rec_end closed_pipe_whole [OF inv] in \<open>auto simp: recorder_end_def entry_records_def stopped_def
        finish_entry_def is_complete_def\<close>)
next
  case (rec_other s)
  then show ?thesis
    using inv by (auto simp: recording_inv_def spares_def entry_records_def is_complete_def split: option.splits)
qed

interpretation recordings: machine "recording_step L a"
    "\<lambda>c. \<exists>side i limit s. c = begin_recording side i a limit src s" "recording_inv a src" for L a src
proof unfold_locales
  fix c assume "\<exists>side i limit s. c = begin_recording side i a limit src s"
  then show "recording_inv a src c"
    by (auto simp: recording_inv_def begin_recording_def fresh_relay_def relay_ok_def entry_records_def
        record_body_def insert_entry_def recording_entry_def is_complete_def intro!: exI [of _ "[]"])
qed (rule recording_step_inv)

text \<open>Seen from the stores a recording is a run of their steps, as long as it is a recording.\<close>

lemma recording_step_refines:
  assumes "recording_step L a c c'" and inv: "recording_inv a src c"
  shows "(store_step L)\<^sup>*\<^sup>* (rc_store c) (rc_store c')"
  using assms(1)
proof cases
  case (rec_poll w result)
  then have "rc_store c' \<in> {rc_store c, tap_drop a (rc_store c)}"
    by (auto simp: poll_recording_def Let_def split: prod.splits if_splits)
  then show ?thesis using r_into_rtranclp [of "store_step L", OF step_tap_drop] by fastforce
next
  case rec_drop
  then show ?thesis by (auto simp: drop_recording_def intro: step_tap_drop r_into_rtranclp)
next
  case (rec_read e n)
  then show ?thesis by (auto intro: step_chunk r_into_rtranclp)
next
  case (rec_write e)
  then have "length (next_chunk e c) = unat (e_unwritten e)"
    using inv by (auto simp: recording_inv_def entry_records_def next_chunk_def)
  with rec_write show ?thesis by (auto simp: write_chunk_def intro: step_write r_into_rtranclp)
next
  case (rec_end e)
  then show ?thesis by (auto intro: step_end r_into_rtranclp)
qed (auto intro: step_check step_write_failed r_into_rtranclp)

lemma recording_refines:
  assumes "(recording_step L a)\<^sup>*\<^sup>* (begin_recording side i a limit src s) c"
  shows "(store_step L)\<^sup>*\<^sup>* (record_body side i a ''identity'' limit s) (rc_store c)"
  using assms
proof (induction rule: rtranclp_induct)
  case base
  show ?case by (simp add: begin_recording_def)
next
  case (step c c')
  have "recording_inv a src c" by (rule recordings.reached_inv [OF _ step(1)]) blast
  from rtranclp_trans [OF step.IH recording_step_refines [OF step(2) this]] show ?case .
qed


text \<open>
  A body of two bytes in one frame: written to the pipe, read, written to the file, and its end
  reached after the pipe was closed. The last poll hands the frame on.
\<close>

definition recording_world :: "bool \<Rightarrow> poll_world" where
  "recording_world ended =
     \<lparr>pw_ready = True, pw_fails = False, pw_knows_end = True, pw_writes = [(False, Wrote 2)],
      pw_task_done = ended\<rparr>"

definition on_store :: "(session \<Rightarrow> session) \<Rightarrow> recording \<Rightarrow> recording" where
  "on_store f c = c\<lparr>rc_store := f (rc_store c)\<rparr>"

definition recording0 :: recording where
  "recording0 = begin_recording Response_Side 7 0 100 [Frame_Data ''ab''] shared_pair"
definition recording1 :: recording where
  "recording1 = snd (poll_recording 0 (recording_world False) recording0)"
definition recording2 :: recording where
  "recording2 = on_store (recorder_reserve 0 2) recording1"
definition recording3 :: recording where
  "recording3 = (case heap (rc_store recording2) 0 of None \<Rightarrow> recording2 | Some e \<Rightarrow> write_chunk 0 e recording2)"
definition recording4 :: recording where
  "recording4 = on_store (recorder_end 0) recording3"
definition recording5 :: recording where
  "recording5 = snd (poll_recording 0 (recording_world True) recording4)"

lemma sample_recording: "(recording_step 100 0)\<^sup>*\<^sup>* recording0 recording5"
proof -
  have 1: "recording_step 100 0 recording0 recording1"
    unfolding recording1_def by (rule rec_poll [where w = "recording_world False" and result = "fst (poll_recording 0 (recording_world False) recording0)"])
      (simp_all add: recording_world_def)
  have waits: "recorder_waits 0 0 (rc_store recording1)" "recorder_waits 0 2 (rc_store recording2)"
    "recorder_waits 0 0 (rc_store recording3)" by code_simp+
  from waits(1) obtain e1 where e1: "heap (rc_store recording1) 0 = Some e1" "e_recorder e1" "e_unwritten e1 = 0"
    by (rule recorder_waitsE)
  have "rc_read recording1 + 2 \<le> length (rc_sent recording1)" by code_simp
  from rec_read [OF e1 _ _ this] have 2: "recording_step 100 0 recording1 recording2"
    by (simp add: recording2_def on_store_def page_size_def)
  obtain e2 where e2: "heap (rc_store recording2) 0 = Some e2" "e_recorder e2" "e_unwritten e2 = 2"
    using waits(2) by (rule recorder_waitsE)
  then have 3: "recording_step 100 0 recording2 recording3"
    unfolding recording3_def by (auto intro: rec_write)
  obtain e3 where e3: "heap (rc_store recording3) 0 = Some e3" "e_recorder e3" "e_unwritten e3 = 0"
    using waits(3) by (rule recorder_waitsE)
  have "rl_tap (rc_relay recording3) \<noteq> Some True" "rc_read recording3 = length (rc_sent recording3)" by code_simp+
  from rec_end [OF e3 this] have 4: "recording_step 100 0 recording3 recording4"
    by (simp add: recording4_def on_store_def)
  have "case heap (rc_store recording4) 0 of None \<Rightarrow> True | Some e \<Rightarrow> \<not> e_recorder e" by code_simp
  then have 5: "recording_step 100 0 recording4 recording5"
    unfolding recording5_def by (intro rec_poll [where w = "recording_world True" and result = "fst (poll_recording 0 (recording_world True) recording4)"])
      (auto split: option.splits)
  from 1 2 3 4 5 show ?thesis by (meson converse_rtranclp_into_rtranclp r_into_rtranclp)
qed


end
