(* ===== verification/Spec2Isabelle.thy ===== *)
theory Spec2Isabelle
  imports Listener Response_Stream Recording
begin

text \<open>
  Sippin Soda is a desktop application around a local HTTP proxy. It captures the traffic of the
  clients that use it, forwards it, lets the user search and export recorded bodies, replay simple
  requests, replace responses of \<^emph>\<open>Development\<close> destinations, and, after a client has proved that it
  trusts a local certificate authority, inspect that client's HTTPS traffic to such destinations.
  Every other destination is only observed. The library models the Rust code: the engine in
  \<open>src/crates/engine/src\<close> and the commands of the desktop in \<open>src/src-tauri/src/main.rs\<close>.

  \<^bold>\<open>How the parts interact.\<close> A connection task of the proxy runs \<open>handle\<close> for a request: admission
  (credentials or the token of a replay), a new exchange in the shared state, then \<open>forward\<close> or, for
  CONNECT, \<open>establish\<close> and the tunnel. Exchange, tunnel, recorder and storing tasks, the commands of
  the desktop and the tasks of the trust check share three things: the state behind the engine's
  mutex, the two body stores with their common disk budget, and the status and gate of the trust
  check. Each lock region of the code is one function here, each sequence without an \<open>await\<close> in it a
  composition of such functions, and interleaving is a step relation over them.

  \<^bold>\<open>Theories, bottom up.\<close>

  \<^item> \<open>Prelude\<close>: errors as sums with \<open>and_then\<close> and \<open>map_error\<close>, Rust's string functions on UTF-8 byte
    lists, the collections \<open>result_simps\<close>, \<open>str_simps\<close> and \<open>invar_intros\<close>. \<open>Registry\<close>: the locale of
    everything the engine keeps per capture, with its instance for hash maps. \<open>Transitions\<close>: the
    locales \<open>run_order\<close> and \<open>machine\<close> of the step relations, interpreted by the stores, the engine,
    the trust check and the application.
  \<^item> \<open>Policy\<close> (\<open>lib.rs\<close>): phases, classes, \<open>authorize\<close>. \<open>Net_Address\<close>: the standard library's address
    parser. \<open>Hosts\<close>: host patterns, their overlap check and the classifier. \<open>Response_Rules\<close>:
    validation, compilation and selection of rules. \<open>Headers\<close>: what is forwarded, shown and replayed
    of a head. \<open>Client_Auth\<close>: client profiles and Basic credentials (all \<open>proxy.rs\<close>).
  \<^item> \<open>Redaction\<close>, \<open>Body_Store\<close>, \<open>Body_Search\<close>, \<open>Json_Layout\<close> (\<open>proxy/bodies.rs\<close>, \<open>bodies/inspect.rs\<close>):
    redaction of JSON documents, the two stores with recorder, storing tasks and readers, the bounded
    search, the validating reader and the JSON layout. \<open>Body_Budget\<close> holds the step relation
    \<open>store_step\<close> and its invariant, \<open>Body_Contract\<close> what the stores promise their callers, \<open>Body_Reader\<close> what
    a reader sees whose observations are interleaved with other tasks. \<open>Relay\<close>: the
    tee between an upstream body and its recorder; \<open>Recording\<close> composes it with the pipe, the recorder
    task and the stores.
  \<^item> \<open>Engine\<close>: the shared state, captures, start and stop, breakpoints, export, replay. \<open>Forward\<close>: the
    lock regions of an exchange. \<open>Engine_Invariant\<close>: the relation \<open>engine_step\<close> of all of them and the
    invariant \<open>engine_inv\<close>. \<open>Engine_Properties\<close>, \<open>Engine_Runs\<close> and \<open>Exchange_Properties\<close>: the theorems
    about reachable states, about runs of operations and about single exchanges.
  \<^item> \<open>Ca\<close> (\<open>ca.rs\<close>), \<open>Tls_Gate\<close> (\<open>tls_intercept.rs\<close>), \<open>Trust_Check\<close> and \<open>Trust_Properties\<close>
    (\<open>tls_trust_check.rs\<close>): the authority in the credential store, the proofs of trust, the manager's
    calls and tasks. \<open>Interception\<close>: the leaf issuer of \<open>ProxyTlsInterception\<close>, as an instance of the
    locale \<open>leaf_source\<close>.
  \<^item> \<open>Tunnel\<close> and \<open>Tunnel_Session\<close> (\<open>proxy/tunnel.rs\<close>), \<open>Handle\<close> and \<open>Proxy_Request\<close> (\<open>proxy.rs\<close>): a CONNECT
    tunnel and a proxied request from beginning to end, over a record \<open>network\<close> of what the outside
    answers. \<open>Response_Stream\<close>: the body of a response, poll by poll, with what the client gets, what
    the recorder gets and what the capture shows.
  \<^item> \<open>Desktop\<close> and \<open>Commands\<close> (\<open>main.rs\<close>): the commands with logic of their own, and the application
    as one state machine whose steps are all commands and the background tasks.
    \<open>Listener\<close>: the accept loop of \<open>start\<close> with the tasks it owns.

  \<^bold>\<open>Granularity.\<close> A command of the desktop is one step of the application; calls of the trust check
  that overlap, and every task in the background, are steps of their own beside it. Inside the
  engine a step is a lock region, inside the stores a critical section or one observation of a reader,
  inside a response one poll.

  \<^bold>\<open>State.\<close> The record \<open>engine\<close> is \<open>State\<close> of \<open>proxy.rs\<close>: \<open>traffic\<close> is the list of captures, oldest
  first; the maps by capture id are association lists; \<open>bodies\<close> is the \<open>session\<close> of both stores, with
  a heap of entries because the code shares them between tasks, and \<open>tickets\<close>, \<open>lost\<close> for
  reservations of storing tasks. Bytes counted by the code in 64 bits are \<open>u64\<close>; ids and revisions,
  which only grow by one, are naturals. \<open>checks\<close> is \<open>TlsTrustCheckManager\<close>, \<open>gate\<close> is
  \<open>TlsInspectionGate\<close>. Files are byte lists; errors carry the constructor for the message, or the
  message where it is shown.

  \<^bold>\<open>What is proved.\<close> Invariants of every reachable state of the engine, the stores, the trust check
  and the application; that observed destinations are answered untouched and never modified, end
  to end; that captures are never rewritten once finished; that the budget counter is exact under
  every interleaving; that a streamed response is delivered and counted frame by frame, that a body
  recorded as complete is the body, and that readers beside its recorder see it consistently;
  redaction completeness and framing; that the bounded search equals a naive search, and that it
  ends; that a JSON layout only changes white space; that pages tile the exported file; when a leaf
  is issued and a tunnel inspected; that the proxy keeps its limit of connections; that requests and
  tunnels refine the engine's operations. Some theorems show faults of the code: storage whose task
  is dropped keeps its budget, a replaced body outlives its capture, overlapping trust checks survive
  a cancel, a dropped breakpoint and a request body that is given up are shown as unfinished for ever.

  \<^bold>\<open>Parameters.\<close> Code outside the repository is an argument with documented behaviour as hypotheses:
  the \<open>http\<close> crate's \<open>HeaderMap\<close>, \<open>Uri\<close> and status codes (\<open>header_api\<close>, \<open>http_crate\<close>), \<open>serde_json\<close>,
  SHA-256 and Base64, rcgen and the platform's credential store, rustls handshakes, decoders, name
  resolution, sockets, clocks. Each theorem with hypotheses has a witness on concrete instances.

  \<^bold>\<open>Bounds and termination.\<close> Loops are structural or have a measure. The search works on the bounded
  range of one step of the code, so no fuel is needed: \<open>scan_correct\<close> shows that it returns. Only
  \<open>free_from\<close>, the supply of unused keys in an example, is a partial function, and is shown to
  return. Inputs longer than \<open>2 ^ 64\<close> bytes are excluded where a length becomes a \<open>u64\<close>.

  \<^bold>\<open>Not modelled.\<close> hyper's connections and timers, tokio's scheduling inside one lock region and the
  memory orderings of the atomics (each access is taken as sequentially consistent); TLS itself;
  how \<open>rcgen\<close> makes keys and certificates (what it is asked for is modelled); the dialogs, windows and
  event loop of Tauri; \<open>fmt::Debug\<close> and serde attributes; the tests; and the user interface in TypeScript. The revision counter is not shown to
  change with every visible change, because the code updates captures without it.
\<close>

end
